(* ===== verification/Abk_Prelude.thy ===== *)
theory Abk_Prelude
  imports Main "HOL-Library.Word"
begin

section \<open>Shared types, byte layouts and C strings\<close>

text \<open>
  What every component of the driver model uses: the fixed-width integer types of the
  kernel, the errno values the source names, big- and little-endian byte layouts
  (\<open>get_unaligned_be16\<close> and its kin, \<open>cpu_to_le32\<close>), \<open>memcpy\<close> into a fixed array, C strings
  in \<open>char\<close> arrays (\<open>strlen\<close>, \<open>strcmp\<close>, \<open>strscpy\<close>) and the decimal and hexadecimal
  printing behind \<open>snprintf\<close>.  Arrays of the C program are lists whose length is the
  declared size; a buffer's contents are never read past that length in the model.
\<close>

type_synonym u8 = "8 word"
type_synonym u16 = "16 word"
type_synonym u32 = "32 word"
type_synonym u64 = "64 word"

text \<open>
  The negative errno values the driver returns.  \<open>ERR n\<close> is any other errno number a
  kernel interface may hand back; the source never compares against one of those.
\<close>

datatype errno =
    EPERM | ENOENT | EIO | EAGAIN | ENOMEM | EFAULT | EBUSY | EEXIST | ENODEV | EINVAL
  | ENOSPC | ENOSYS | EBADRQC | EBADSLT | EPROTO | EOVERFLOW | EILSEQ | EOPNOTSUPP
  | ETIMEDOUT | EALREADY | ESTALE | ENOKEY | ERESTARTSYS | ENOIOCTLCMD | ERR nat

fun errno_number :: "errno \<Rightarrow> nat" where
  "errno_number EPERM = 1"
| "errno_number ENOENT = 2"
| "errno_number EIO = 5"
| "errno_number EAGAIN = 11"
| "errno_number ENOMEM = 12"
| "errno_number EFAULT = 14"
| "errno_number EBUSY = 16"
| "errno_number EEXIST = 17"
| "errno_number ENODEV = 19"
| "errno_number EINVAL = 22"
| "errno_number ENOSPC = 28"
| "errno_number ENOSYS = 38"
| "errno_number EBADRQC = 56"
| "errno_number EBADSLT = 57"
| "errno_number EPROTO = 71"
| "errno_number EOVERFLOW = 75"
| "errno_number EILSEQ = 84"
| "errno_number EOPNOTSUPP = 95"
| "errno_number ETIMEDOUT = 110"
| "errno_number EALREADY = 114"
| "errno_number ESTALE = 116"
| "errno_number ENOKEY = 126"
| "errno_number ERESTARTSYS = 512"
| "errno_number ENOIOCTLCMD = 515"
| "errno_number (ERR n) = n"

text \<open>\<open>int ret\<close> of the source: \<open>None\<close> is 0, \<open>Some e\<close> is \<open>-e\<close>.\<close>

type_synonym ret = "errno option"

named_theorems wf_intros \<open>well-formedness of components, kept by their operations\<close>

subsection \<open>Lists as memory\<close>

text \<open>\<open>memcpy(dst + off, src, n)\<close>, with \<open>src\<close> of length \<open>n\<close>, into an array that holds it.\<close>

definition overwrite :: "nat \<Rightarrow> 'a list \<Rightarrow> 'a list \<Rightarrow> 'a list" where
  "overwrite off src dst = take off dst @ src @ drop (off + length src) dst"

lemma length_overwrite [simp]:
  "off + length src \<le> length dst \<Longrightarrow> length (overwrite off src dst) = length dst"
  by (simp add: overwrite_def)

lemma overwrite_Nil [simp]: "overwrite off [] dst = dst"
  by (simp add: overwrite_def)

lemma overwrite_all: "length src = length dst \<Longrightarrow> overwrite 0 src dst = src"
  by (simp add: overwrite_def)

lemma take_overwrite_end:
  "off \<le> length dst \<Longrightarrow> take (off + length src) (overwrite off src dst) = take off dst @ src"
  by (simp add: overwrite_def)

lemma overwrite_end:
  assumes "off + length as \<le> length dst"
  shows "overwrite (off + length as) bs (overwrite off as dst) = overwrite off (as @ bs) dst"
proof -
  have "take (off + length as) (overwrite off as dst) = take off dst @ as"
    using assms by (intro take_overwrite_end) simp
  moreover have "drop (off + length as + length bs) (overwrite off as dst)
      = drop (off + length (as @ bs)) dst"
    using assms by (simp add: overwrite_def min_absorb2 ac_simps)
  ultimately show ?thesis by (simp add: overwrite_def [of "off + length as"] overwrite_def [of off "as @ bs"])
qed

lemma take_overwrite_before [simp]:
  "n \<le> off \<Longrightarrow> off \<le> length dst \<Longrightarrow> take n (overwrite off src dst) = take n dst"
  by (simp add: overwrite_def min_def)

lemma nth_overwrite_out:
  assumes "i < off \<or> off + length src \<le> i" "off + length src \<le> length dst"
  shows "overwrite off src dst ! i = dst ! i"
proof (cases "i < off")
  case True
  with assms show ?thesis by (simp add: overwrite_def nth_append)
next
  case False
  with assms(1) have le: "off + length src \<le> i" by simp
  then have "\<not> i - off < length src" "off + (i - off) = i" by simp_all
  moreover from le assms(2) have "off \<le> length dst" by simp
  moreover from le assms(2) have "drop (off + length src) dst ! (i - (off + length src)) = dst ! i"
    by (simp add: nth_drop)
  ultimately show ?thesis using False by (simp add: overwrite_def nth_append min_absorb2)
qed

text \<open>A fixed-size field read out of a memory image.\<close>

definition field_at :: "nat \<Rightarrow> nat \<Rightarrow> 'a list \<Rightarrow> 'a list" where
  "field_at off n bs = take n (drop off bs)"

lemma length_field_at [simp]: "off + n \<le> length bs \<Longrightarrow> length (field_at off n bs) = n"
  by (simp add: field_at_def)

lemma field_at_append_right [simp]:
  "length xs \<le> off \<Longrightarrow> field_at off n (xs @ ys) = field_at (off - length xs) n ys"
  by (simp add: field_at_def)

lemma field_at_Cons [simp]: "0 < off \<Longrightarrow> field_at off n (x # xs) = field_at (off - 1) n xs"
  by (cases off) (simp_all add: field_at_def)

lemma field_at_append_left [simp]:
  "off + n \<le> length xs \<Longrightarrow> field_at off n (xs @ ys) = field_at off n xs"
  by (simp add: field_at_def)

lemma field_at_whole [simp]: "length xs = n \<Longrightarrow> field_at 0 n xs = xs"
  by (simp add: field_at_def)

lemma field_at_0_append [simp]: "length xs = n \<Longrightarrow> field_at 0 n (xs @ ys) = xs"
  by (simp add: field_at_def)

lemma concat_map_chunk:
  assumes "\<And>x. x \<in> set xs \<Longrightarrow> length (f x) = w" "i < length xs"
  shows "field_at (i * w) w (concat (map f xs)) = f (xs ! i)"
  using assms
proof (induction xs arbitrary: i)
  case Nil
  then show ?case by simp
next
  case (Cons x xs)
  have x: "length (f x) = w" using Cons.prems(1) by simp
  show ?case
  proof (cases i)
    case 0
    with x show ?thesis by (simp add: field_at_def)
  next
    case (Suc j)
    have "field_at (j * w) w (concat (map f xs)) = f (xs ! j)"
      using Cons Suc by simp
    with x Suc show ?thesis by (simp add: field_at_def)
  qed
qed

lemma length_concat_map_const:
  "(\<And>x. x \<in> set xs \<Longrightarrow> length (f x) = w) \<Longrightarrow> length (concat (map f xs)) = length xs * w"
  by (induction xs) auto

subsection \<open>Narrowing\<close>

lemma unat_ucast_mod: "unat (ucast (v :: 'a::len word) :: 'b::len word) = unat v mod 2 ^ LENGTH('b)"
  by transfer (simp add: take_bit_eq_mod nat_mod_distrib nat_power_eq)

lemma unat_u8_less: "unat (b :: u8) < 256"
  using unsigned_less [of b] by simp

subsection \<open>Big-endian and little-endian integers\<close>

fun be_bytes :: "nat \<Rightarrow> nat \<Rightarrow> u8 list" where
  "be_bytes 0 v = []"
| "be_bytes (Suc n) v = be_bytes n (v div 256) @ [word_of_nat v]"

lemma be_bytes_numeral:
  "be_bytes (numeral k) v = be_bytes (pred_numeral k) (v div 256) @ [word_of_nat v]"
  unfolding numeral_eq_Suc [of k] by (rule be_bytes.simps)

definition be_val :: "u8 list \<Rightarrow> nat" where
  "be_val bs = foldl (\<lambda>a b. a * 256 + unat b) 0 bs"

lemma length_be_bytes [simp]: "length (be_bytes n v) = n"
  by (induction n v rule: be_bytes.induct) auto

lemma be_val_Nil [simp]: "be_val [] = 0"
  by (simp add: be_val_def)

lemma be_val_snoc [simp]: "be_val (bs @ [b]) = be_val bs * 256 + unat b"
  by (simp add: be_val_def)

lemma be_val_bytes: "be_val (be_bytes n v) = v mod 256 ^ n"
proof (induction n v rule: be_bytes.induct)
  case (1 v)
  show ?case by simp
next
  case (2 n v)
  have "v mod 256 ^ Suc n = 256 * (v div 256 mod 256 ^ n) + v mod 256"
    using mod_mult2_eq [of v 256 "256 ^ n"] by (simp add: ac_simps)
  with 2 show ?case by (simp add: unat_of_nat)
qed

lemma be_val_bytes_id [simp]: "v < 256 ^ n \<Longrightarrow> be_val (be_bytes n v) = v"
  by (simp add: be_val_bytes)

lemma be_val_less: "be_val bs < 256 ^ length bs"
proof (induction bs rule: rev_induct)
  case Nil
  show ?case by simp
next
  case (snoc b bs)
  have "unat b < 256" using unsigned_less [of b] by simp
  with snoc show ?case by simp
qed

lemma be_bytes_val: "be_bytes (length bs) (be_val bs) = bs"
proof (induction bs rule: rev_induct)
  case Nil
  show ?case by simp
next
  case (snoc b bs)
  have lt: "unat b < 256" using unsigned_less [of b] by simp
  have "(be_val bs * 256 + unat b) div 256 = be_val bs"
    using lt by simp
  moreover have "word_of_nat (be_val bs * 256 + unat b) = b"
  proof -
    have "(word_of_nat (be_val bs * 256 + unat b) :: u8) = word_of_nat (be_val bs) * 256 + b"
      by simp
    moreover have "(256 :: u8) = 0" by simp
    ultimately show ?thesis by (simp only: mult_zero_right add_0)
  qed
  ultimately show ?case using snoc by simp
qed

definition le_bytes :: "nat \<Rightarrow> nat \<Rightarrow> u8 list" where
  "le_bytes n v = rev (be_bytes n v)"

definition le_val :: "u8 list \<Rightarrow> nat" where
  "le_val bs = be_val (rev bs)"

lemma length_le_bytes [simp]: "length (le_bytes n v) = n"
  by (simp add: le_bytes_def)

lemma le_val_bytes_id [simp]: "v < 256 ^ n \<Longrightarrow> le_val (le_bytes n v) = v"
  by (simp add: le_bytes_def le_val_def)

lemma le_val_less: "le_val bs < 256 ^ length bs"
  unfolding le_val_def by (rule be_val_less [of "rev bs", simplified])

lemma le_bytes_val: "length bs = n \<Longrightarrow> le_bytes n (le_val bs) = bs"
  using be_bytes_val [of "rev bs"] by (simp add: le_bytes_def le_val_def)

text \<open>32-bit fields: \<open>cpu_to_le32\<close>, \<open>le32_to_cpu\<close>, \<open>put_unaligned_be32\<close>.\<close>

definition le32_bytes :: "u32 \<Rightarrow> u8 list" where
  "le32_bytes w = le_bytes 4 (unat w)"

definition le32_val :: "u8 list \<Rightarrow> u32" where
  "le32_val bs = word_of_nat (le_val bs)"

definition be32_bytes :: "u32 \<Rightarrow> u8 list" where
  "be32_bytes w = be_bytes 4 (unat w)"

definition be32_val :: "u8 list \<Rightarrow> u32" where
  "be32_val bs = word_of_nat (be_val bs)"

lemma length_le32_bytes [simp]: "length (le32_bytes w) = 4"
  by (simp add: le32_bytes_def)

lemma length_be32_bytes [simp]: "length (be32_bytes w) = 4"
  by (simp add: be32_bytes_def)

lemma le32_val_bytes [simp]: "le32_val (le32_bytes w) = w"
proof -
  have "unat w < 256 ^ 4" using unsigned_less [of w] by simp
  then show ?thesis by (simp add: le32_val_def le32_bytes_def)
qed

lemma be32_val_bytes [simp]: "be32_val (be32_bytes w) = w"
proof -
  have "unat w < 256 ^ 4" using unsigned_less [of w] by simp
  then show ?thesis by (simp add: be32_val_def be32_bytes_def)
qed

lemma le32_bytes_val: "length bs = 4 \<Longrightarrow> le32_bytes (le32_val bs) = bs"
proof -
  assume len: "length bs = 4"
  have "le_val bs < 256 ^ 4" using le_val_less [of bs] len by simp
  then have "unat (le32_val bs) = le_val bs"
    by (simp add: le32_val_def unat_of_nat)
  then show ?thesis using len by (simp add: le32_bytes_def le_bytes_val)
qed

subsection \<open>C strings in byte arrays\<close>

text \<open>The string held by a \<open>char\<close> array: the bytes up to the first NUL.\<close>

definition cstr :: "u8 list \<Rightarrow> u8 list" where
  "cstr a = takeWhile (\<lambda>b. b \<noteq> 0) a"

definition has_nul :: "u8 list \<Rightarrow> bool" where
  "has_nul a \<longleftrightarrow> 0 \<in> set a"

lemma cstr_append_nul [simp]: "0 \<notin> set s \<Longrightarrow> cstr (s @ 0 # t) = s"
  unfolding cstr_def by (subst takeWhile_append2) auto

lemma cstr_no_nul [simp]: "0 \<notin> set (cstr a)"
  unfolding cstr_def by (auto dest: set_takeWhileD)

lemma cstr_id: "0 \<notin> set s \<Longrightarrow> cstr s = s"
  unfolding cstr_def by (simp add: takeWhile_eq_all_conv) blast

lemma length_cstr_le: "length (cstr a) \<le> length a"
  by (simp add: cstr_def length_takeWhile_le)

lemma length_cstr_less: "has_nul a \<Longrightarrow> length (cstr a) < length a"
proof -
  assume "has_nul a"
  then obtain xs ys where a: "a = xs @ 0 # ys" and "0 \<notin> set xs"
    unfolding has_nul_def by (meson split_list_first)
  then show ?thesis by simp
qed

lemma cstr_cstr [simp]: "cstr (cstr a) = cstr a"
  by (simp add: cstr_id)

text \<open>
  \<open>strscpy(dst, src, count)\<close> with \<open>count\<close> the size of \<open>dst\<close>: at most \<open>count - 1\<close> bytes of the
  string and a NUL; the rest of the array keeps its contents.
\<close>

definition strscpy :: "u8 list \<Rightarrow> u8 list \<Rightarrow> u8 list" where
  "strscpy dst src =
     (if dst = [] then [] else overwrite 0 (take (length dst - 1) (cstr src) @ [0]) dst)"

lemma length_strscpy [simp]: "length (strscpy dst src) = length dst"
  by (cases dst) (auto simp: strscpy_def overwrite_def)

lemma cstr_strscpy:
  "length (cstr src) < length dst \<Longrightarrow> cstr (strscpy dst src) = cstr src"
  by (auto simp: strscpy_def overwrite_def)

lemma cstr_strscpy_take:
  "dst \<noteq> [] \<Longrightarrow> cstr (strscpy dst src) = take (length dst - 1) (cstr src)"
proof -
  assume "dst \<noteq> []"
  moreover have "0 \<notin> set (take n (cstr src))" for n
    using cstr_no_nul [of src] by (blast dest: in_set_takeD)
  ultimately show ?thesis by (simp add: strscpy_def overwrite_def)
qed

lemma has_nul_strscpy: "dst \<noteq> [] \<Longrightarrow> has_nul (strscpy dst src)"
  by (auto simp: strscpy_def overwrite_def has_nul_def)

lemma strscpy_zero:
  assumes "length (cstr src) < n"
  shows "strscpy (replicate n 0) src = cstr src @ replicate (n - length (cstr src)) 0"
proof -
  obtain m where m: "n = Suc (length (cstr src) + m)"
    using assms less_iff_Suc_add by auto
  then have "replicate n (0::u8) = replicate (Suc (length (cstr src))) 0 @ replicate m 0"
    by (simp flip: replicate_add)
  with m show ?thesis by (simp add: strscpy_def overwrite_def)
qed

text \<open>String literals of the source as bytes, and bytes as text for the trace buffers.\<close>

definition str_bytes :: "string \<Rightarrow> u8 list" where
  "str_bytes s = map of_char s"

definition bytes_str :: "u8 list \<Rightarrow> string" where
  "bytes_str bs = map (\<lambda>b. char_of (unat b)) (cstr bs)"

lemma length_str_bytes [simp]: "length (str_bytes s) = length s"
  by (simp add: str_bytes_def)

subsection \<open>Printing\<close>

text \<open>\<open>%u\<close>, \<open>%d\<close> and \<open>%x\<close>; \<open>snprintf\<close> and \<open>vscnprintf\<close> keep what fits before the NUL.\<close>

fun dec_str :: "nat \<Rightarrow> string" where
  "dec_str n =
     (if n < 10 then [char_of (48 + n)] else dec_str (n div 10) @ [char_of (48 + n mod 10)])"

declare dec_str.simps [simp del]

definition hex_digit :: "nat \<Rightarrow> char" where
  "hex_digit d = (if d < 10 then char_of (48 + d) else char_of (87 + d))"

fun hex_str :: "nat \<Rightarrow> string" where
  "hex_str n = (if n < 16 then [hex_digit n] else hex_str (n div 16) @ [hex_digit (n mod 16)])"

declare hex_str.simps [simp del]

definition hex_pad :: "nat \<Rightarrow> nat \<Rightarrow> string" where
  "hex_pad w n = (let s = hex_str n in replicate (w - length s) (CHR ''0'') @ s)"

definition flag_str :: "bool \<Rightarrow> string" where
  "flag_str b = (if b then ''1'' else ''0'')"

definition err_str :: "errno \<Rightarrow> string" where
  "err_str e = ''-'' @ dec_str (errno_number e)"

definition snprintf_to :: "nat \<Rightarrow> string \<Rightarrow> string" where
  "snprintf_to n s = take (n - 1) s"

lemma snprintf_to_fits: "length s < n \<Longrightarrow> snprintf_to n s = s"
  by (simp add: snprintf_to_def)

lemma snprintf_to_Nil [simp]: "snprintf_to n [] = []"
  by (simp add: snprintf_to_def)

end
