(* ===== verification/Cbor_Item.thy ===== *)
theory Cbor_Item
  imports Abk_Prelude
begin

unbundle bit_operations_syntax

section \<open>CBOR data items and their canonical encoding\<close>

text \<open>
  The specification side of the CBOR code: the data items CTAP2 exchanges and the shortest
  encoding of each (RFC 8949, definite lengths), independent of the reader and the writer of
  the driver.  Both are proved against it: the writer produces these bytes, the reader
  recovers the items from them.
\<close>

datatype cbor =
    CUint u64
  | CNeg u64
  | CBytes "u8 list"
  | CText "u8 list"
  | CArray "cbor list"
  | CMap "(cbor \<times> cbor) list"
  | CBool bool

definition cbor_byte :: "u8 \<Rightarrow> u8 \<Rightarrow> u8" where
  "cbor_byte major ai = push_bit 5 major OR ai"

definition cbor_head :: "u8 \<Rightarrow> u64 \<Rightarrow> u8 list" where
  "cbor_head major v =
     (if v \<le> 23 then [cbor_byte major (ucast v)]
      else if v \<le> 0xff then [cbor_byte major 24, ucast v]
      else if v \<le> 0xffff then cbor_byte major 25 # be_bytes 2 (unat v)
      else if v \<le> 0xffffffff then cbor_byte major 26 # be_bytes 4 (unat v)
      else cbor_byte major 27 # be_bytes 8 (unat v))"

fun cbor_enc :: "cbor \<Rightarrow> u8 list" where
  "cbor_enc (CUint v) = cbor_head 0 v"
| "cbor_enc (CNeg v) = cbor_head 1 v"
| "cbor_enc (CBytes bs) = cbor_head 2 (word_of_nat (length bs)) @ bs"
| "cbor_enc (CText bs) = cbor_head 3 (word_of_nat (length bs)) @ bs"
| "cbor_enc (CArray xs) = cbor_head 4 (word_of_nat (length xs)) @ concat (map cbor_enc xs)"
| "cbor_enc (CMap kvs) = cbor_head 5 (word_of_nat (length kvs))
     @ concat (map (\<lambda>(k, v). cbor_enc k @ cbor_enc v) kvs)"
| "cbor_enc (CBool b) = cbor_head 7 (if b then 21 else 20)"

text \<open>How deep the nesting of arrays and maps goes; a scalar is 1.\<close>

fun cbor_depth :: "cbor \<Rightarrow> nat" where
  "cbor_depth (CArray xs) = Suc (foldr max (map cbor_depth xs) 0)"
| "cbor_depth (CMap kvs) = Suc (foldr max (map (\<lambda>(k, v). max (cbor_depth k) (cbor_depth v)) kvs) 0)"
| "cbor_depth _ = 1"

text \<open>Text keys of the CTAP maps.\<close>

abbreviation ctext :: "string \<Rightarrow> cbor" where
  "ctext s \<equiv> CText (str_bytes s)"

subsection \<open>Heads\<close>

lemma bit_u8_small:
  fixes w :: u8
  assumes "unat w < 2 ^ k" "bit w n"
  shows "n < k"
proof -
  have "take_bit k (unat w) = unat w" using assms by (simp add: take_bit_nat_eq_self)
  moreover have "bit (unat w) n"
    using assms(2) bit_imp_le_length [OF assms(2)] by (simp add: bit_unsigned_iff)
  ultimately show ?thesis by (metis bit_take_bit_iff)
qed

lemma u8_bit_index:
  "n < LENGTH(8) \<Longrightarrow> n = 0 \<or> n = 1 \<or> n = 2 \<or> n = 3 \<or> n = 4 \<or> n = 5 \<or> n = 6 \<or> n = 7"
  by auto

lemma cbor_byte_split:
  assumes "major < 8" "ai < 32"
  shows "drop_bit 5 (cbor_byte major ai) = major" "cbor_byte major ai AND 0x1f = ai"
proof -
  have "unat ai < 2 ^ 5" "unat major < 2 ^ 3" using assms by (simp_all add: word_less_nat_alt)
  note bit_u8_small [OF this(1)] bit_u8_small [OF this(2)]
  then have out: "\<not> bit ai 5" "\<not> bit ai 6" "\<not> bit ai 7" "\<not> bit ai 8" "\<not> bit ai 9" "\<not> bit ai 10"
    "\<not> bit ai 11" "\<not> bit ai 12" "\<not> bit major 3" "\<not> bit major 4" "\<not> bit major 5"
    "\<not> bit major 6" "\<not> bit major 7"
    by fastforce+
  show "cbor_byte major ai AND 0x1f = ai"
    by (rule bit_word_eqI, drule u8_bit_index)
      (use out in \<open>auto simp: cbor_byte_def bit_simps\<close>)
  show "drop_bit 5 (cbor_byte major ai) = major"
    by (rule bit_word_eqI, drule u8_bit_index)
      (use out in \<open>auto simp: cbor_byte_def bit_simps\<close>)
qed

lemma cbor_byte_parts: "b = cbor_byte (drop_bit 5 b) (b AND 0x1f)"
  by (rule bit_word_eqI, drule u8_bit_index) (auto simp: cbor_byte_def bit_simps)

lemma cbor_head_length: "length (cbor_head m v) \<in> {1, 2, 3, 5, 9}"
  by (simp add: cbor_head_def)

lemma cbor_head_nonempty [simp]: "cbor_head m v \<noteq> []"
  by (simp add: cbor_head_def)

lemma cbor_enc_nonempty [simp]: "cbor_enc c \<noteq> []"
  by (cases c) simp_all

lemma length_cbor_enc_pos: "0 < length (cbor_enc c)"
  by simp

lemma length_cbor_array:
  "length xs \<le> length (concat (map cbor_enc xs))"
proof (induction xs)
  case (Cons x xs)
  have "Suc 0 \<le> length (cbor_enc x)" using length_cbor_enc_pos [of x] by (simp only: Suc_le_eq)
  with Cons show ?case by simp
qed simp

lemma length_cbor_map:
  "length kvs \<le> length (concat (map (\<lambda>(k, v). cbor_enc k @ cbor_enc v) kvs))"
proof (induction kvs)
  case (Cons kv kvs)
  have "Suc 0 \<le> length (cbor_enc (fst kv))"
    using length_cbor_enc_pos [of "fst kv"] by (simp only: Suc_le_eq)
  with Cons show ?case by (cases kv) simp
qed simp

lemma cbor_depth_array: "cbor_depth (CArray xs) \<le> Suc d \<Longrightarrow> x \<in> set xs \<Longrightarrow> cbor_depth x \<le> d"
  by (induction xs) auto

lemma cbor_depth_map:
  "cbor_depth (CMap kvs) \<le> Suc d \<Longrightarrow> (k, v) \<in> set kvs \<Longrightarrow> cbor_depth k \<le> d \<and> cbor_depth v \<le> d"
  by (induction kvs) auto

end
