(* ===== verification/Cbor_Reader.thy ===== *)
theory Cbor_Reader
  imports Cbor_Item
begin

unbundle bit_operations_syntax

section \<open>The CBOR reader (\<open>struct abk_cbor_reader\<close>)\<close>

text \<open>
  The pull parser over one received message: a buffer, its length and a position, all
  \<open>size_t\<close>, with the position arithmetic kept modulo \<open>2^64\<close> as the code has it.  A read
  either moves the position and returns a value (\<open>ROk\<close>) or fails (\<open>RErr\<close>).  The only
  recursive routine is \<open>abk_cbor_skip\<close>; its first argument is the number of nested calls the
  stack has room for, and \<open>RDeep\<close> is the outcome of a call chain deeper than that (in the
  kernel: a stack overflow).  A byte-string slice is a position and a length in the buffer.
\<close>

record abk_cbor_reader =
  rd_buf :: "u8 list"
  rd_len :: u64
  rd_pos :: u64

record abk_fido_slice =
  sl_off :: u64
  sl_len :: u64

datatype 'a rd = ROk 'a abk_cbor_reader | RErr errno | RDeep

type_synonym 'a rdm = "abk_cbor_reader \<Rightarrow> 'a rd"

definition rreturn :: "'a \<Rightarrow> 'a rdm" where
  "rreturn a r = ROk a r"

definition rfail :: "errno \<Rightarrow> 'a rdm" where
  "rfail e r = RErr e"

definition rbind :: "'a rdm \<Rightarrow> ('a \<Rightarrow> 'b rdm) \<Rightarrow> 'b rdm" where
  "rbind m f r = (case m r of ROk a r' \<Rightarrow> f a r' | RErr e \<Rightarrow> RErr e | RDeep \<Rightarrow> RDeep)"

text \<open>\<open>for (i = 0; i < n; i++)\<close> with a state carried from one round to the next.\<close>

fun rd_loop :: "nat \<Rightarrow> ('s \<Rightarrow> 's rdm) \<Rightarrow> 's \<Rightarrow> 's rdm" where
  "rd_loop 0 f s r = ROk s r"
| "rd_loop (Suc n) f s r =
     (case f s r of ROk s' r' \<Rightarrow> rd_loop n f s' r' | RErr e \<Rightarrow> RErr e | RDeep \<Rightarrow> RDeep)"

lemma rd_loop_numeral [simp]:
  "rd_loop (numeral k) f s r =
     (case f s r of ROk s' r' \<Rightarrow> rd_loop (pred_numeral k) f s' r' | RErr e \<Rightarrow> RErr e | RDeep \<Rightarrow> RDeep)"
  by (simp add: numeral_eq_Suc)

lemmas rd_monad = rreturn_def rfail_def rbind_def

subsection \<open>The routines of the source\<close>

definition slice_bytes :: "abk_cbor_reader \<Rightarrow> abk_fido_slice \<Rightarrow> u8 list" where
  "slice_bytes r s = field_at (unat (sl_off s)) (unat (sl_len s)) (rd_buf r)"

definition abk_fido_slice_eq_text :: "abk_cbor_reader \<Rightarrow> abk_fido_slice \<Rightarrow> string \<Rightarrow> bool" where
  "abk_fido_slice_eq_text r s text \<longleftrightarrow>
     unat (sl_len s) = length text \<and> slice_bytes r s = str_bytes text"

definition rd_be :: "nat \<Rightarrow> abk_cbor_reader \<Rightarrow> u64" where
  "rd_be n r = word_of_nat (be_val (field_at (unat (rd_pos r)) n (rd_buf r)))"

definition abk_cbor_read_u64 :: "u8 \<Rightarrow> u64 rdm" where
  "abk_cbor_read_u64 ai r =
     (if ai \<le> 23 then ROk (ucast ai) r
      else if ai = 24 then
        (if rd_pos r + 1 > rd_len r then RErr EINVAL
         else ROk (rd_be 1 r) (r\<lparr>rd_pos := rd_pos r + 1\<rparr>))
      else if ai = 25 then
        (if rd_pos r + 2 > rd_len r then RErr EINVAL
         else ROk (rd_be 2 r) (r\<lparr>rd_pos := rd_pos r + 2\<rparr>))
      else if ai = 26 then
        (if rd_pos r + 4 > rd_len r then RErr EINVAL
         else ROk (rd_be 4 r) (r\<lparr>rd_pos := rd_pos r + 4\<rparr>))
      else if ai = 27 then
        (if rd_pos r + 8 > rd_len r then RErr EINVAL
         else ROk (rd_be 8 r) (r\<lparr>rd_pos := rd_pos r + 8\<rparr>))
      else RErr EINVAL)"

definition abk_cbor_read_head :: "(u8 \<times> u64) rdm" where
  "abk_cbor_read_head r =
     (if rd_pos r \<ge> rd_len r then RErr EINVAL
      else
        (let byte = rd_buf r ! unat (rd_pos r);
             major = drop_bit 5 byte;
             ai = byte AND 0x1f
         in rbind (abk_cbor_read_u64 ai) (\<lambda>v. rreturn (major, v)) (r\<lparr>rd_pos := rd_pos r + 1\<rparr>)))"

definition abk_cbor_read_uint :: "u64 rdm" where
  "abk_cbor_read_uint =
     rbind abk_cbor_read_head (\<lambda>(major, tmp). if major \<noteq> 0 then rfail EINVAL else rreturn tmp)"

text \<open>An \<open>s64\<close> is the same 64 bits; \<open>-1 - (s64)tmp\<close> is the bitwise complement.\<close>

definition abk_cbor_read_int :: "u64 rdm" where
  "abk_cbor_read_int =
     rbind abk_cbor_read_head (\<lambda>(major, tmp).
       if major = 0 then rreturn tmp
       else if major = 1 then rreturn (- 1 - tmp)
       else rfail EINVAL)"

definition rd_slice :: "u8 \<Rightarrow> abk_fido_slice rdm" where
  "rd_slice want =
     rbind abk_cbor_read_head (\<lambda>(major, len) r.
       if major \<noteq> want \<or> rd_pos r + len > rd_len r then RErr EINVAL
       else ROk \<lparr>sl_off = rd_pos r, sl_len = len\<rparr> (r\<lparr>rd_pos := rd_pos r + len\<rparr>))"

definition abk_cbor_read_bytes :: "abk_fido_slice rdm" where
  "abk_cbor_read_bytes = rd_slice 2"

definition abk_cbor_read_text :: "abk_fido_slice rdm" where
  "abk_cbor_read_text = rd_slice 3"

definition abk_cbor_read_bool :: "bool rdm" where
  "abk_cbor_read_bool =
     rbind abk_cbor_read_head (\<lambda>(major, len).
       if major \<noteq> 7 \<or> (len \<noteq> 20 \<and> len \<noteq> 21) then rfail EINVAL else rreturn (len = 21))"

definition abk_cbor_read_map :: "u64 rdm" where
  "abk_cbor_read_map =
     rbind abk_cbor_read_head (\<lambda>(major, len). if major \<noteq> 5 then rfail EINVAL else rreturn len)"

definition abk_cbor_read_array :: "u64 rdm" where
  "abk_cbor_read_array =
     rbind abk_cbor_read_head (\<lambda>(major, len). if major \<noteq> 4 then rfail EINVAL else rreturn len)"

primrec abk_cbor_skip :: "nat \<Rightarrow> unit rdm" where
  "abk_cbor_skip 0 = (\<lambda>r. RDeep)"
| "abk_cbor_skip (Suc d) =
     rbind abk_cbor_read_head (\<lambda>(major, len).
       if major = 0 \<or> major = 1 \<or> major = 7 then rreturn ()
       else if major = 2 \<or> major = 3 then
         (\<lambda>r. if rd_pos r + len > rd_len r then RErr EINVAL
              else ROk () (r\<lparr>rd_pos := rd_pos r + len\<rparr>))
       else if major = 4 then
         rd_loop (unat len) (\<lambda>_. abk_cbor_skip d) ()
       else if major = 5 then
         rd_loop (unat len) (\<lambda>_. rbind (abk_cbor_skip d) (\<lambda>_. abk_cbor_skip d)) ()
       else rfail EINVAL)"

definition abk_fido_reader :: "u8 list \<Rightarrow> abk_cbor_reader" where
  "abk_fido_reader buf = \<lparr>rd_buf = buf, rd_len = word_of_nat (length buf), rd_pos = 0\<rparr>"

subsection \<open>Well-formed readers\<close>

definition rd_ok :: "abk_cbor_reader \<Rightarrow> bool" where
  "rd_ok r \<longleftrightarrow> rd_len r = word_of_nat (length (rd_buf r)) \<and> length (rd_buf r) < 2 ^ 63
     \<and> unat (rd_pos r) \<le> length (rd_buf r)"

definition rd_rest :: "abk_cbor_reader \<Rightarrow> u8 list" where
  "rd_rest r = drop (unat (rd_pos r)) (rd_buf r)"

definition adv :: "nat \<Rightarrow> abk_cbor_reader \<Rightarrow> abk_cbor_reader" where
  "adv n r = r\<lparr>rd_pos := rd_pos r + word_of_nat n\<rparr>"

lemma unat_len: "n < 2 ^ 63 \<Longrightarrow> unat (word_of_nat n :: u64) = n"
  by (simp add: unat_of_nat)

lemma rd_ok_len: "rd_ok r \<Longrightarrow> unat (rd_len r) = length (rd_buf r)"
  by (simp add: rd_ok_def unat_len)

lemma rd_ok_reader: "length buf < 2 ^ 63 \<Longrightarrow> rd_ok (abk_fido_reader buf)"
  by (simp add: rd_ok_def abk_fido_reader_def)

lemma rd_rest_reader [simp]: "rd_rest (abk_fido_reader buf) = buf"
  by (simp add: rd_rest_def abk_fido_reader_def)

lemma adv_adv [simp]: "adv m (adv n r) = adv (n + m) r"
  by (simp add: adv_def add.assoc)

lemma adv_0 [simp]: "adv 0 r = r"
  by (simp add: adv_def)

lemma rd_buf_adv [simp]: "rd_buf (adv n r) = rd_buf r"
  by (simp add: adv_def)

lemma rd_len_adv [simp]: "rd_len (adv n r) = rd_len r"
  by (simp add: adv_def)

lemma length_rd_rest: "length (rd_rest r) = length (rd_buf r) - unat (rd_pos r)"
  by (simp add: rd_rest_def)

lemma unat_pos_adv:
  assumes "rd_ok r" "n \<le> length (rd_rest r)"
  shows "unat (rd_pos (adv n r)) = unat (rd_pos r) + n"
proof -
  have le: "unat (rd_pos r) + n < 2 ^ 63"
    using assms by (auto simp: rd_ok_def length_rd_rest)
  then have "unat (word_of_nat n :: u64) = n" by (intro unat_len) simp
  with le show ?thesis
    by (simp add: adv_def unat_word_ariths)
qed

lemma rd_ok_adv:
  assumes "rd_ok r" "n \<le> length (rd_rest r)"
  shows "rd_ok (adv n r)"
  using assms unat_pos_adv [OF assms] by (auto simp: rd_ok_def length_rd_rest adv_def)

lemma rd_rest_adv:
  assumes "rd_ok r" "n \<le> length (rd_rest r)"
  shows "rd_rest (adv n r) = drop n (rd_rest r)"
  using unat_pos_adv [OF assms] by (simp add: rd_rest_def add.commute)

text \<open>The three facts at once, in the form the reading lemmas use.\<close>

lemma adv_over:
  assumes "rd_ok r" "rd_rest r = bs @ t" "n = length bs"
  shows "rd_ok (adv n r)" "rd_rest (adv n r) = t" "unat (rd_pos (adv n r)) = unat (rd_pos r) + n"
  using assms by (simp_all add: rd_ok_adv rd_rest_adv unat_pos_adv)

lemma rd_pos_less: "rd_ok r \<Longrightarrow> rd_rest r \<noteq> [] \<Longrightarrow> rd_pos r < rd_len r"
  by (simp add: word_less_nat_alt rd_ok_len rd_rest_def)

lemma rd_pos_end: "rd_ok r \<Longrightarrow> rd_rest r = [] \<Longrightarrow> rd_len r \<le> rd_pos r"
  by (simp add: word_le_nat_alt rd_ok_len rd_rest_def)

lemma rd_room_iff:
  assumes "rd_ok r" "n < 2 ^ 63"
  shows "rd_pos r + word_of_nat n > rd_len r \<longleftrightarrow> length (rd_rest r) < n"
proof -
  have "unat (rd_pos r) < 2 ^ 63" using assms(1) by (auto simp: rd_ok_def)
  with assms(2) have "unat (rd_pos r + word_of_nat n) = unat (rd_pos r) + n"
    by (simp add: unat_word_ariths unat_len)
  moreover have "unat (rd_len r) = length (rd_buf r)" using assms(1) by (rule rd_ok_len)
  moreover have "unat (rd_pos r) \<le> length (rd_buf r)" using assms(1) by (simp add: rd_ok_def)
  ultimately show ?thesis
    by (simp add: word_less_nat_alt length_rd_rest) linarith
qed

subsection \<open>Reading back what the encoding wrote\<close>

lemma rd_be_prefix: "rd_rest r = bs @ t \<Longrightarrow> length bs = n \<Longrightarrow> rd_be n r = word_of_nat (be_val bs)"
  by (simp add: rd_be_def field_at_def rd_rest_def)

lemma rd_byte: "rd_rest r = b # t \<Longrightarrow> rd_buf r ! unat (rd_pos r) = b"
  unfolding rd_rest_def by (metis hd_drop_conv_nth list.sel(1) list.distinct(1) drop_all not_le)

lemma ucast_byte_id: "v \<le> 0xff \<Longrightarrow> (word_of_nat (unat (ucast (v :: u64) :: u8)) :: u64) = v"
  by (simp add: word_le_nat_alt unat_ucast_mod)

lemma read_u64_small:
  assumes "v \<le> (23 :: u64)"
  shows "abk_cbor_read_u64 (ucast v) r = ROk v r"
proof -
  have v: "unat v \<le> 23" using assms by (simp add: word_le_nat_alt)
  then have "unat (ucast v :: u8) = unat v" by (simp add: unat_ucast_mod)
  with v have "(ucast v :: u8) \<le> 23" "(ucast (ucast v :: u8) :: u64) = v"
    by (simp_all add: word_le_nat_alt word_unat_eq_iff unat_ucast_mod)
  then show ?thesis by (simp add: abk_cbor_read_u64_def)
qed

lemma read_u64_be:
  assumes "rd_ok r" "rd_rest r = bs @ t" "(ai, length bs) \<in> {(24, 1), (25, 2), (26, 4), (27, 8)}"
  shows "abk_cbor_read_u64 ai r = ROk (word_of_nat (be_val bs)) (adv (length bs) r)"
proof -
  have "\<not> rd_pos r + word_of_nat (length bs) > rd_len r"
    using assms by (subst rd_room_iff) auto
  with assms(3) rd_be_prefix [OF assms(2) refl] show ?thesis
    by (auto simp: abk_cbor_read_u64_def adv_def)
qed

lemma read_head_item:
  assumes "rd_ok r" "rd_rest r = cbor_head m v @ t" "m < 8"
  shows "abk_cbor_read_head r = ROk (m, v) (adv (length (cbor_head m v)) r)"
proof -
  obtain ai bs where head: "cbor_head m v = cbor_byte m ai # bs" and ai: "ai < 32"
    and rd: "abk_cbor_read_u64 ai (adv 1 r) = ROk v (adv (length bs) (adv 1 r))"
  proof -
    have v64: "unat v < 2 ^ 64" using unsigned_less [of v] by simp
    have adv1: "rd_ok (adv 1 r)" "rd_rest (adv 1 r) = bs @ t" if "cbor_head m v = b # bs" for b bs
      using adv_over [OF assms(1), of "[b]" "bs @ t" 1] assms(2) that by simp_all
    consider "v \<le> 23" | "23 < v" "v \<le> 0xff" | "0xff < v" "v \<le> 0xffff"
      | "0xffff < v" "v \<le> 0xffffffff" | "0xffffffff < v"
      by fastforce
    then show ?thesis
    proof cases
      case 1
      then have "unat v \<le> 23" by (simp add: word_le_nat_alt)
      then have "(ucast v :: u8) < 32" by (simp add: word_less_nat_alt unat_ucast_mod)
      moreover have "cbor_head m v = [cbor_byte m (ucast v)]" using 1 by (simp add: cbor_head_def)
      ultimately show ?thesis using that read_u64_small [OF 1] by simp
    next
      case 2
      then have head: "cbor_head m v = [cbor_byte m 24, ucast v]"
        by (auto simp: cbor_head_def word_le_nat_alt word_less_nat_alt)
      have "abk_cbor_read_u64 24 (adv 1 r) = ROk v (adv 1 (adv 1 r))"
        using read_u64_be [OF adv1 [OF head], of 24] ucast_byte_id [OF 2(2)]
        by (simp add: be_val_def)
      with head that show ?thesis by simp
    next
      case 3
      then have head: "cbor_head m v = cbor_byte m 25 # be_bytes 2 (unat v)"
        by (auto simp: cbor_head_def word_le_nat_alt word_less_nat_alt)
      have "unat v < 256 ^ 2" using 3 by (simp add: word_le_nat_alt)
      with head that read_u64_be [OF adv1 [OF head], of 25] show ?thesis
        by (simp add: numeral_3_eq_3)
    next
      case 4
      then have head: "cbor_head m v = cbor_byte m 26 # be_bytes 4 (unat v)"
        by (auto simp: cbor_head_def word_le_nat_alt word_less_nat_alt)
      have "unat v < 256 ^ 4" using 4 by (simp add: word_le_nat_alt)
      with head that read_u64_be [OF adv1 [OF head], of 26] show ?thesis by simp
    next
      case 5
      then have head: "cbor_head m v = cbor_byte m 27 # be_bytes 8 (unat v)"
        by (auto simp: cbor_head_def word_le_nat_alt word_less_nat_alt)
      have "unat v < 256 ^ 8" using v64 by simp
      with head that read_u64_be [OF adv1 [OF head], of 27] show ?thesis by simp
    qed
  qed
  have "rd_rest r = cbor_byte m ai # bs @ t" using assms(2) head by simp
  then have "rd_pos r < rd_len r" "rd_buf r ! unat (rd_pos r) = cbor_byte m ai"
    using rd_pos_less [OF assms(1)] rd_byte by auto
  moreover have "r\<lparr>rd_pos := rd_pos r + 1\<rparr> = adv 1 r" by (simp add: adv_def)
  ultimately show ?thesis
    using rd head cbor_byte_split [OF assms(3) ai]
    by (simp add: abk_cbor_read_head_def Let_def rd_monad)
qed

text \<open>
  One lemma per reading routine: at the encoding of an item of its type it returns the item
  and moves past the encoding.  \<open>rd_at r c t\<close> says the reader stands before item \<open>c\<close>, with
  \<open>t\<close> after it.
\<close>

definition rd_at :: "abk_cbor_reader \<Rightarrow> cbor \<Rightarrow> u8 list \<Rightarrow> bool" where
  "rd_at r c t \<longleftrightarrow> rd_ok r \<and> rd_rest r = cbor_enc c @ t"

definition past :: "cbor \<Rightarrow> abk_cbor_reader \<Rightarrow> abk_cbor_reader" where
  "past c r = adv (length (cbor_enc c)) r"

lemma rd_at_past: "rd_at r c t \<Longrightarrow> rd_ok (past c r) \<and> rd_rest (past c r) = t"
  using adv_over [of r "cbor_enc c" t] by (simp add: rd_at_def past_def)

lemma rd_buf_past [simp]: "rd_buf (past c r) = rd_buf r"
  by (simp add: past_def)

lemma rd_at_length:
  "rd_at r c t \<Longrightarrow> length (cbor_enc c) < 2 ^ 63"
  by (auto simp: rd_at_def rd_ok_def rd_rest_def dest!: arg_cong [where f = length])

lemma read_uint_at: "rd_at r (CUint v) t \<Longrightarrow> abk_cbor_read_uint r = ROk v (past (CUint v) r)"
  using read_head_item [of r 0 v t]
  by (simp add: rd_at_def past_def abk_cbor_read_uint_def rd_monad)

lemma read_int_uint: "rd_at r (CUint v) t \<Longrightarrow> abk_cbor_read_int r = ROk v (past (CUint v) r)"
  using read_head_item [of r 0 v t]
  by (simp add: rd_at_def past_def abk_cbor_read_int_def rd_monad)

lemma read_int_neg:
  "rd_at r (CNeg v) t \<Longrightarrow> abk_cbor_read_int r = ROk (- 1 - v) (past (CNeg v) r)"
  using read_head_item [of r 1 v t]
  by (simp add: rd_at_def past_def abk_cbor_read_int_def rd_monad)

lemma read_bool_at: "rd_at r (CBool b) t \<Longrightarrow> abk_cbor_read_bool r = ROk b (past (CBool b) r)"
  using read_head_item [of r 7 "if b then 21 else 20" t]
  by (simp add: rd_at_def past_def abk_cbor_read_bool_def rd_monad split: if_splits)

text \<open>Strings: the slice returned is the string, where it stands in the buffer.\<close>

definition slice_after :: "u8 \<Rightarrow> u8 list \<Rightarrow> abk_cbor_reader \<Rightarrow> abk_fido_slice" where
  "slice_after m bs r =
     (let len = word_of_nat (length bs) in
      \<lparr>sl_off = rd_pos (adv (length (cbor_head m len)) r), sl_len = len\<rparr>)"

lemma read_slice_item:
  assumes "rd_ok r" "rd_rest r = cbor_head m (word_of_nat (length bs)) @ bs @ t" "m < 8"
  shows "rd_slice m r = ROk (slice_after m bs r)
      (adv (length (cbor_head m (word_of_nat (length bs))) + length bs) r)"
    and "slice_bytes r (slice_after m bs r) = bs"
    and "unat (sl_len (slice_after m bs r)) = length bs"
proof -
  let ?h = "cbor_head m (word_of_nat (length bs))"
  let ?r = "adv (length ?h) r"
  have lt: "length bs < 2 ^ 63"
    using assms(1) arg_cong [OF assms(2), of length] by (auto simp: rd_ok_def length_rd_rest)
  note r' = adv_over [OF assms(1), of ?h "bs @ t", OF _ refl]
  have ok: "rd_ok ?r" and rest: "rd_rest ?r = bs @ t" using r' assms(2) by simp_all
  have "\<not> rd_pos ?r + word_of_nat (length bs) > rd_len ?r"
    using rd_room_iff [OF ok lt] rest by simp
  then show "rd_slice m r = ROk (slice_after m bs r) (adv (length ?h + length bs) r)"
    using read_head_item [OF assms]
    by (simp add: rd_slice_def rd_monad slice_after_def Let_def adv_def)
  show "unat (sl_len (slice_after m bs r)) = length bs"
    using lt by (simp add: slice_after_def Let_def unat_len)
  then show "slice_bytes r (slice_after m bs r) = bs"
    using rest by (simp add: slice_bytes_def field_at_def slice_after_def Let_def rd_rest_def)
qed

lemma read_bytes_at:
  "rd_at r (CBytes bs) t \<Longrightarrow>
     abk_cbor_read_bytes r = ROk (slice_after 2 bs r) (past (CBytes bs) r)
     \<and> slice_bytes r (slice_after 2 bs r) = bs \<and> unat (sl_len (slice_after 2 bs r)) = length bs"
  using read_slice_item [of r 2 bs t]
  by (simp add: rd_at_def past_def abk_cbor_read_bytes_def)

lemma read_text_at:
  "rd_at r (CText bs) t \<Longrightarrow>
     abk_cbor_read_text r = ROk (slice_after 3 bs r) (past (CText bs) r)
     \<and> slice_bytes r (slice_after 3 bs r) = bs \<and> unat (sl_len (slice_after 3 bs r)) = length bs"
  using read_slice_item [of r 3 bs t]
  by (simp add: rd_at_def past_def abk_cbor_read_text_def)

text \<open>
  Containers: the count is returned and the reader stands at the first element.
  \<open>rd_seq r cs t\<close>: the reader stands before the items \<open>cs\<close>, one after the other.
\<close>

definition rd_seq :: "abk_cbor_reader \<Rightarrow> cbor list \<Rightarrow> u8 list \<Rightarrow> bool" where
  "rd_seq r cs t \<longleftrightarrow> rd_ok r \<and> rd_rest r = concat (map cbor_enc cs) @ t"

definition flat_pairs :: "(cbor \<times> cbor) list \<Rightarrow> cbor list" where
  "flat_pairs kvs = concat (map (\<lambda>(k, v). [k, v]) kvs)"

lemma flat_pairs_simps [simp]:
  "flat_pairs [] = []" "flat_pairs ((k, v) # kvs) = k # v # flat_pairs kvs"
  by (simp_all add: flat_pairs_def)

lemma cbor_enc_map_flat: "cbor_enc (CMap kvs) =
    cbor_head 5 (word_of_nat (length kvs)) @ concat (map cbor_enc (flat_pairs kvs))"
proof -
  have "concat (map (\<lambda>(k, v). cbor_enc k @ cbor_enc v) kvs)
      = concat (map cbor_enc (flat_pairs kvs))"
    by (induction kvs) auto
  then show ?thesis by simp
qed

lemma rd_seq_Cons: "rd_seq r (c # cs) t \<longleftrightarrow> rd_at r c (concat (map cbor_enc cs) @ t)"
  by (simp add: rd_seq_def rd_at_def)

lemma rd_seq_past: "rd_seq r (c # cs) t \<Longrightarrow> rd_seq (past c r) cs t"
  unfolding rd_seq_Cons by (drule rd_at_past) (simp add: rd_seq_def)

lemma read_array_at:
  assumes "rd_at r (CArray xs) t"
  shows "\<exists>r'. abk_cbor_read_array r = ROk (word_of_nat (length xs)) r' \<and> rd_seq r' xs t
      \<and> rd_buf r' = rd_buf r \<and> unat (word_of_nat (length xs) :: u64) = length xs
      \<and> past (CArray xs) r = adv (length (concat (map cbor_enc xs))) r'"
proof -
  let ?h = "cbor_head 4 (word_of_nat (length xs))"
  have at: "rd_ok r" "rd_rest r = ?h @ concat (map cbor_enc xs) @ t"
    using assms by (simp_all add: rd_at_def)
  have "length xs < 2 ^ 63"
    using rd_at_length [OF assms] length_cbor_array [of xs] by simp
  then show ?thesis
    using read_head_item [OF at] adv_over(1,2) [OF at refl]
    by (simp add: abk_cbor_read_array_def rd_monad rd_seq_def unat_len past_def)
qed

lemma read_map_at:
  assumes "rd_at r (CMap kvs) t"
  shows "\<exists>r'. abk_cbor_read_map r = ROk (word_of_nat (length kvs)) r' \<and> rd_seq r' (flat_pairs kvs) t
      \<and> rd_buf r' = rd_buf r \<and> unat (word_of_nat (length kvs) :: u64) = length kvs
      \<and> past (CMap kvs) r = adv (length (concat (map cbor_enc (flat_pairs kvs)))) r'"
proof -
  let ?h = "cbor_head 5 (word_of_nat (length kvs))"
  have at: "rd_ok r" "rd_rest r = ?h @ concat (map cbor_enc (flat_pairs kvs)) @ t"
    using assms unfolding rd_at_def cbor_enc_map_flat by simp_all
  have "length kvs < 2 ^ 63"
    using rd_at_length [OF assms] length_cbor_map [of kvs] by simp
  then show ?thesis
    using read_head_item [OF at] adv_over(1,2) [OF at refl]
    by (simp add: abk_cbor_read_map_def rd_monad rd_seq_def unat_len past_def cbor_enc_map_flat
        del: cbor_enc.simps)
qed

subsection \<open>Skipping an item\<close>

lemma rd_loop_items:
  assumes step: "\<And>x r t. x \<in> set xs \<Longrightarrow> rd_ok r \<Longrightarrow> rd_rest r = enc x @ t \<Longrightarrow>
      f () r = ROk () (adv (length (enc x)) r)"
    and "rd_ok r" "rd_rest r = concat (map enc xs) @ t"
  shows "rd_loop (length xs) f () r = ROk () (adv (length (concat (map enc xs))) r)"
  using assms
proof (induction xs arbitrary: r)
  case Nil
  then show ?case by simp
next
  case (Cons x xs)
  have at: "rd_rest r = enc x @ concat (map enc xs) @ t" using Cons.prems(3) by simp
  with Cons.prems(1,2) have "f () r = ROk () (adv (length (enc x)) r)" by simp
  moreover note adv_over(1,2) [OF Cons.prems(2) at refl]
  ultimately show ?case using Cons.IH Cons.prems(1) by simp
qed

lemma skip_item:
  "cbor_depth c \<le> d \<Longrightarrow> rd_at r c t \<Longrightarrow> abk_cbor_skip d r = ROk () (past c r)"
proof (induction d arbitrary: c r t)
  case 0
  then show ?case by (cases c) simp_all
next
  case (Suc d)
  note at = Suc.prems(2)
  have inner: "abk_cbor_skip d r' = ROk () (adv (length (cbor_enc x)) r')"
    if "cbor_depth x \<le> d" "rd_ok r'" "rd_rest r' = cbor_enc x @ t'" for x r' t'
    using Suc.IH [OF that(1)] that(2,3) by (simp add: rd_at_def past_def)
  show ?case
  proof (cases c)
    case (CUint v)
    with at read_head_item [of r 0 v t] show ?thesis
      by (simp add: rd_at_def past_def rd_monad)
  next
    case (CNeg v)
    with at read_head_item [of r 1 v t] show ?thesis
      by (simp add: rd_at_def past_def rd_monad)
  next
    case (CBool b)
    with at read_head_item [of r 7 "if b then 21 else 20" t] show ?thesis
      by (simp add: rd_at_def past_def rd_monad)
  next
    case (CBytes bs)
    have "abk_cbor_skip (Suc d) r = ROk () (past c r)"
      if "rd_slice 2 r = ROk s (past c r)" for s
    proof -
      have "rd_ok r" "rd_rest r = cbor_head 2 (word_of_nat (length bs)) @ bs @ t"
        using at CBytes by (simp_all add: rd_at_def)
      from read_head_item [OF this] that show ?thesis
        by (simp add: rd_slice_def rd_monad split: if_splits)
    qed
    with at CBytes read_bytes_at [of r bs t] show ?thesis by (simp add: abk_cbor_read_bytes_def)
  next
    case (CText bs)
    have "abk_cbor_skip (Suc d) r = ROk () (past c r)"
      if "rd_slice 3 r = ROk s (past c r)" for s
    proof -
      have "rd_ok r" "rd_rest r = cbor_head 3 (word_of_nat (length bs)) @ bs @ t"
        using at CText by (simp_all add: rd_at_def)
      from read_head_item [OF this] that show ?thesis
        by (simp add: rd_slice_def rd_monad split: if_splits)
    qed
    with at CText read_text_at [of r bs t] show ?thesis by (simp add: abk_cbor_read_text_def)
  next
    case (CArray xs)
    let ?h = "cbor_head 4 (word_of_nat (length xs))"
    have r: "rd_ok r" "rd_rest r = ?h @ concat (map cbor_enc xs) @ t"
      using at CArray by (simp_all add: rd_at_def)
    have "unat (word_of_nat (length xs) :: u64) = length xs"
      using read_array_at at CArray by blast
    moreover have "rd_loop (length xs) (\<lambda>_. abk_cbor_skip d) () (adv (length ?h) r)
        = ROk () (adv (length (concat (map cbor_enc xs))) (adv (length ?h) r))"
      using adv_over(1,2) [OF r refl] cbor_depth_array Suc.prems(1) CArray
      by (intro rd_loop_items inner) auto
    ultimately show ?thesis
      using read_head_item [OF r] CArray by (simp add: rd_monad past_def)
  next
    case (CMap kvs)
    let ?h = "cbor_head 5 (word_of_nat (length kvs))"
    let ?enc = "\<lambda>(k, v). cbor_enc k @ cbor_enc v"
    have r: "rd_ok r" "rd_rest r = ?h @ concat (map ?enc kvs) @ t"
      using at CMap by (simp_all add: rd_at_def)
    have pair: "rbind (abk_cbor_skip d) (\<lambda>_. abk_cbor_skip d) r'
        = ROk () (adv (length (?enc kv)) r')"
      if "kv \<in> set kvs" and r': "rd_ok r'" "rd_rest r' = ?enc kv @ t'" for kv r' t'
    proof -
      obtain k v where kv: "kv = (k, v)" by (cases kv)
      have depth: "cbor_depth k \<le> d" "cbor_depth v \<le> d"
        using cbor_depth_map [of kvs d k v] Suc.prems(1) CMap that(1) kv by auto
      have k: "rd_rest r' = cbor_enc k @ cbor_enc v @ t'" using r'(2) kv by simp
      show ?thesis
        using inner [OF depth(1) r'(1) k] inner [OF depth(2) adv_over(1,2) [OF r'(1) k refl]] kv
        by (simp add: rd_monad)
    qed
    have "unat (word_of_nat (length kvs) :: u64) = length kvs"
      using read_map_at at CMap by blast
    moreover have "rd_loop (length kvs) (\<lambda>_. rbind (abk_cbor_skip d) (\<lambda>_. abk_cbor_skip d)) ()
        (adv (length ?h) r) = ROk () (adv (length (concat (map ?enc kvs))) (adv (length ?h) r))"
      using adv_over(1,2) [OF r refl] by (intro rd_loop_items pair) auto
    ultimately show ?thesis
      using read_head_item [OF r] CMap by (simp add: rd_monad past_def)
  qed
qed

subsection \<open>Where every read stays inside the message\<close>

text \<open>
  The head byte of a byte or text string with an eight-byte length (\<open>0x5b\<close>, \<open>0x7b\<close>) is the
  only place where \<open>pos + len\<close> can wrap around.  In a message without those two bytes every
  read moves the position forward and never past the end, and \<open>abk_cbor_skip\<close> nests no
  deeper than the bytes that are left.
\<close>

definition no_wide_strings :: "abk_cbor_reader \<Rightarrow> bool" where
  "no_wide_strings r \<longleftrightarrow> 0x5b \<notin> set (rd_buf r) \<and> 0x7b \<notin> set (rd_buf r)"

lemma no_wide_adv [simp]: "no_wide_strings (adv n r) = no_wide_strings r"
  by (simp add: no_wide_strings_def)

lemma read_u64_forward:
  assumes "rd_ok r" "abk_cbor_read_u64 ai r = ROk v r'"
  shows "\<exists>n \<le> length (rd_rest r). r' = adv n r"
proof -
  have room: "\<not> rd_pos r + word_of_nat n > rd_len r \<Longrightarrow> n < 2 ^ 63 \<Longrightarrow> n \<le> length (rd_rest r)" for n
    using rd_room_iff [OF assms(1), of n] by auto
  from assms(2) show ?thesis
    using room [of 1] room [of 2] room [of 4] room [of 8]
    by (auto simp: abk_cbor_read_u64_def adv_def split: if_splits
        intro: exI [of _ 0] exI [of _ 1] exI [of _ 2] exI [of _ 4] exI [of _ 8])
qed

lemma read_u64_narrow:
  assumes "abk_cbor_read_u64 ai r = ROk v r'" "ai \<noteq> 27"
  shows "unat v < 2 ^ 32"
proof -
  have be: "unat (rd_be n r) < 2 ^ 32" if "n \<le> 4" for n
  proof -
    have "length (field_at (unat (rd_pos r)) n (rd_buf r)) \<le> 4"
      using that by (simp add: field_at_def)
    then have "(256 :: nat) ^ length (field_at (unat (rd_pos r)) n (rd_buf r)) \<le> 256 ^ 4"
      by (intro power_increasing) auto
    with be_val_less [of "field_at (unat (rd_pos r)) n (rd_buf r)"]
    have "be_val (field_at (unat (rd_pos r)) n (rd_buf r)) < 2 ^ 32" by simp
    then show ?thesis by (simp add: rd_be_def unat_of_nat)
  qed
  have "unat (ucast ai :: u64) < 2 ^ 32"
    using unat_u8_less [of ai] by (simp add: unat_ucast_mod)
  with assms be [of 1] be [of 2] be [of 4] show ?thesis
    by (auto simp: abk_cbor_read_u64_def split: if_splits)
qed

lemma wide_head:
  fixes b :: u8
  assumes "b AND 0x1f = 27" "drop_bit 5 b = 2 \<or> drop_bit 5 b = 3"
  shows "b = 0x5b \<or> b = 0x7b"
proof -
  have "cbor_byte 2 27 = 0x5b" "cbor_byte 3 27 = 0x7b" by (simp_all add: cbor_byte_def)
  with assms show ?thesis using cbor_byte_parts [of b] by auto
qed

lemma read_head_forward:
  assumes "rd_ok r" "abk_cbor_read_head r = ROk (m, v) r'"
  shows "\<exists>n. 0 < n \<and> n \<le> length (rd_rest r) \<and> r' = adv n r"
    and "no_wide_strings r \<Longrightarrow> m = 2 \<or> m = 3 \<Longrightarrow> unat v < 2 ^ 32"
proof -
  from assms(2) have pos: "rd_pos r < rd_len r"
    by (auto simp: abk_cbor_read_head_def split: if_splits)
  let ?b = "rd_buf r ! unat (rd_pos r)"
  from pos have inb: "unat (rd_pos r) < length (rd_buf r)"
    using rd_ok_len [OF assms(1)] by (simp add: word_less_nat_alt)
  then have one: "1 \<le> length (rd_rest r)" by (simp add: length_rd_rest)
  from assms(2) pos have rd: "abk_cbor_read_u64 (?b AND 0x1f) (adv 1 r) = ROk v r'"
    and m: "m = drop_bit 5 ?b"
    by (auto simp: abk_cbor_read_head_def Let_def rd_monad adv_def split: rd.splits if_splits)
  from read_u64_forward [OF rd_ok_adv [OF assms(1) one] rd]
  obtain n where "n \<le> length (rd_rest (adv 1 r))" "r' = adv n (adv 1 r)" by blast
  with one show "\<exists>n. 0 < n \<and> n \<le> length (rd_rest r) \<and> r' = adv n r"
    by (intro exI [of _ "Suc n"]) (use rd_rest_adv [OF assms(1) one] in auto)
  assume "no_wide_strings r" "m = 2 \<or> m = 3"
  with m inb have "?b AND 0x1f \<noteq> 27"
    using wide_head [of ?b] nth_mem [OF inb] unfolding no_wide_strings_def by metis
  with rd show "unat v < 2 ^ 32" by (rule read_u64_narrow)
qed

text \<open>
  The two facts about a step of a loop, as predicates so that loops and pairs inherit them:
  it only moves forward, and it does not nest deeper than \<open>b\<close> bytes allow.
\<close>

definition moves_forward :: "unit rdm \<Rightarrow> bool" where
  "moves_forward f \<longleftrightarrow> (\<forall>r r'. rd_ok r \<longrightarrow> no_wide_strings r \<longrightarrow> f r = ROk () r' \<longrightarrow>
     (\<exists>n \<le> length (rd_rest r). r' = adv n r))"

definition stays_shallow :: "nat \<Rightarrow> unit rdm \<Rightarrow> bool" where
  "stays_shallow b f \<longleftrightarrow> (\<forall>r. rd_ok r \<longrightarrow> no_wide_strings r \<longrightarrow> length (rd_rest r) < b \<longrightarrow>
     f r \<noteq> RDeep)"

lemma moves_forwardD:
  assumes "moves_forward f" "rd_ok r" "no_wide_strings r" "f r = ROk () r'"
  obtains n where "n \<le> length (rd_rest r)" "r' = adv n r" "rd_ok r'" "no_wide_strings r'"
    "length (rd_rest r') = length (rd_rest r) - n"
  using assms unfolding moves_forward_def by (metis no_wide_adv rd_ok_adv rd_rest_adv length_drop)

lemma forward_adv_trans:
  assumes "rd_ok r" "n \<le> length (rd_rest r)" "r1 = adv n r"
    "m \<le> length (rd_rest r1)" "r' = adv m r1"
  shows "\<exists>n \<le> length (rd_rest r). r' = adv n r"
  using assms by (intro exI [of _ "n + m"]) (simp add: rd_rest_adv)

lemma moves_forward_pair:
  assumes f: "moves_forward f"
  shows "moves_forward (rbind f (\<lambda>_. f))"
  unfolding moves_forward_def
proof (intro allI impI)
  fix r r'
  assume r: "rd_ok r" "no_wide_strings r" and two: "rbind f (\<lambda>_. f) r = ROk () r'"
  from two obtain r1 where one: "f r = ROk () r1" and "f r1 = ROk () r'"
    by (auto simp: rd_monad split: rd.splits)
  moreover from moves_forwardD [OF f r one] obtain n
    where n: "n \<le> length (rd_rest r)" "r1 = adv n r" "rd_ok r1" "no_wide_strings r1" by metis
  ultimately obtain m where "m \<le> length (rd_rest r1)" "r' = adv m r1"
    using moves_forwardD [OF f n(3,4)] by metis
  with r(1) n(1,2) show "\<exists>n \<le> length (rd_rest r). r' = adv n r" by (rule forward_adv_trans)
qed

lemma moves_forward_loop:
  assumes f: "moves_forward f"
  shows "moves_forward (rd_loop k (\<lambda>_. f) ())"
proof (induction k)
  case 0
  then show ?case by (auto simp: moves_forward_def intro: exI [of _ 0])
next
  case (Suc k)
  show ?case
    unfolding moves_forward_def
  proof (intro allI impI)
    fix r r'
    assume r: "rd_ok r" "no_wide_strings r" and all: "rd_loop (Suc k) (\<lambda>_. f) () r = ROk () r'"
    from all obtain r1 where one: "f r = ROk () r1" and "rd_loop k (\<lambda>_. f) () r1 = ROk () r'"
      by (auto split: rd.splits)
    moreover from moves_forwardD [OF f r one] obtain n
      where n: "n \<le> length (rd_rest r)" "r1 = adv n r" "rd_ok r1" "no_wide_strings r1" by metis
    ultimately obtain m where "m \<le> length (rd_rest r1)" "r' = adv m r1"
      using moves_forwardD [OF Suc.IH n(3,4)] by metis
    with r(1) n(1,2) show "\<exists>n \<le> length (rd_rest r). r' = adv n r" by (rule forward_adv_trans)
  qed
qed

lemma stays_shallow_pair:
  assumes f: "moves_forward f" "stays_shallow b f"
  shows "stays_shallow b (rbind f (\<lambda>_. f))"
  unfolding stays_shallow_def
proof (intro allI impI)
  fix r
  assume r: "rd_ok r" "no_wide_strings r" "length (rd_rest r) < b"
  show "rbind f (\<lambda>_. f) r \<noteq> RDeep"
  proof (cases "f r")
    case (ROk u r1)
    with moves_forwardD [OF f(1) r(1,2), of r1] r(3)
    have "rd_ok r1" "no_wide_strings r1" "length (rd_rest r1) < b"
      by (metis (full_types) unit.exhaust less_imp_diff_less)+
    with ROk f(2) show ?thesis by (simp add: rd_monad stays_shallow_def)
  qed (use f(2) r in \<open>auto simp: rd_monad stays_shallow_def\<close>)
qed

lemma stays_shallow_loop:
  assumes f: "moves_forward f" "stays_shallow b f"
  shows "stays_shallow b (rd_loop k (\<lambda>_. f) ())"
proof (induction k)
  case 0
  then show ?case by (simp add: stays_shallow_def)
next
  case (Suc k)
  show ?case
    unfolding stays_shallow_def
  proof (intro allI impI)
    fix r
    assume r: "rd_ok r" "no_wide_strings r" "length (rd_rest r) < b"
    show "rd_loop (Suc k) (\<lambda>_. f) () r \<noteq> RDeep"
    proof (cases "f r")
      case (ROk u r1)
      with moves_forwardD [OF f(1) r(1,2), of r1] r(3)
      have "rd_ok r1" "no_wide_strings r1" "length (rd_rest r1) < b"
        by (metis (full_types) unit.exhaust less_imp_diff_less)+
      with ROk Suc.IH show ?thesis by (simp add: stays_shallow_def)
    qed (use f(2) r in \<open>auto simp: stays_shallow_def\<close>)
  qed
qed

lemma skip_string_forward:
  assumes "rd_ok r" "unat len < 2 ^ 32" "\<not> rd_pos r + len > rd_len r"
  shows "\<exists>n \<le> length (rd_rest r). r\<lparr>rd_pos := rd_pos r + len\<rparr> = adv n r"
  using assms rd_room_iff [of r "unat len"]
  by (intro exI [of _ "unat len"]) (auto simp: adv_def)

text \<open>Where a head was read, what is left of the skip moves forward from there.\<close>

lemma skip_body_forward:
  assumes r: "rd_ok r" "no_wide_strings r"
    and head: "abk_cbor_read_head r = ROk (m, v) r1"
    and r1: "rd_ok r1" "no_wide_strings r1"
    and skip: "abk_cbor_skip (Suc d) r = ROk () r'"
    and IH: "moves_forward (abk_cbor_skip d)"
  shows "\<exists>n \<le> length (rd_rest r1). r' = adv n r1"
proof -
  consider "m = 0 \<or> m = 1 \<or> m = 7" | "m = 2 \<or> m = 3" | "m = 4" | "m = 5"
    using skip head by (auto simp: rd_monad split: if_splits)
  then show ?thesis
  proof cases
    case 1
    with skip head show ?thesis by (auto simp: rd_monad intro: exI [of _ 0])
  next
    case 2
    then have "unat v < 2 ^ 32" by (rule read_head_forward(2) [OF r(1) head r(2)])
    with 2 skip head skip_string_forward [OF r1(1), of v] show ?thesis
      by (auto simp: rd_monad split: if_splits)
  next
    case 3
    with skip head have "rd_loop (unat v) (\<lambda>_. abk_cbor_skip d) () r1 = ROk () r'"
      by (simp add: rd_monad)
    with moves_forward_loop [OF IH] r1 show ?thesis by (auto simp: moves_forward_def)
  next
    case 4
    with skip head
    have "rd_loop (unat v) (\<lambda>_. rbind (abk_cbor_skip d) (\<lambda>_. abk_cbor_skip d)) () r1 = ROk () r'"
      by (simp add: rd_monad)
    with moves_forward_loop [OF moves_forward_pair [OF IH]] r1 show ?thesis
      by (auto simp: moves_forward_def)
  qed
qed

lemma read_head_forwardE:
  assumes "rd_ok r" "no_wide_strings r" "abk_cbor_read_head r = ROk (m, v) r1"
  obtains n where "0 < n" "n \<le> length (rd_rest r)" "r1 = adv n r" "rd_ok r1" "no_wide_strings r1"
    "length (rd_rest r1) = length (rd_rest r) - n"
  using read_head_forward(1) [OF assms(1,3)] assms(1,2)
  by (metis no_wide_adv rd_ok_adv rd_rest_adv length_drop)

lemma skip_moves_forward: "moves_forward (abk_cbor_skip d)"
proof (induction d)
  case 0
  then show ?case by (simp add: moves_forward_def)
next
  case (Suc d)
  show ?case
    unfolding moves_forward_def
  proof (intro allI impI)
    fix r r'
    assume r: "rd_ok r" "no_wide_strings r" and skip: "abk_cbor_skip (Suc d) r = ROk () r'"
    from skip obtain m v r1 where head: "abk_cbor_read_head r = ROk (m, v) r1"
      by (auto simp: rd_monad split: rd.splits)
    from read_head_forwardE [OF r head] obtain n where n: "n \<le> length (rd_rest r)" "r1 = adv n r"
      "rd_ok r1" "no_wide_strings r1" by metis
    from skip_body_forward [OF r head n(3,4) skip Suc.IH]
    obtain k where "k \<le> length (rd_rest r1)" "r' = adv k r1" by blast
    with r(1) n(1,2) show "\<exists>n \<le> length (rd_rest r). r' = adv n r" by (rule forward_adv_trans)
  qed
qed

lemma skip_stays_shallow: "stays_shallow d (abk_cbor_skip d)"
proof (induction d)
  case 0
  then show ?case by (simp add: stays_shallow_def)
next
  case (Suc d)
  show ?case
    unfolding stays_shallow_def
  proof (intro allI impI)
    fix r
    assume r: "rd_ok r" "no_wide_strings r" "length (rd_rest r) < Suc d"
    show "abk_cbor_skip (Suc d) r \<noteq> RDeep"
    proof (cases "abk_cbor_read_head r")
      case (ROk mv r1)
      obtain m v where mv: "mv = (m, v)" by (cases mv)
      from read_head_forwardE [OF r(1,2) ROk [unfolded mv]] r(3)
      have r1: "rd_ok r1" "no_wide_strings r1" "length (rd_rest r1) < d"
        by (metis less_Suc_eq_le diff_less less_le_trans not_less_zero not_gr_zero order_less_le_trans)+
      note loop = stays_shallow_loop [OF skip_moves_forward Suc.IH]
        stays_shallow_loop [OF moves_forward_pair [OF skip_moves_forward]
          stays_shallow_pair [OF skip_moves_forward Suc.IH]]
      from loop r1 ROk mv show ?thesis by (auto simp: rd_monad stays_shallow_def)
    next
      case RDeep
      then show ?thesis by (auto simp: abk_cbor_read_head_def abk_cbor_read_u64_def Let_def rd_monad
          split: if_splits)
    qed (simp add: rd_monad)
  qed
qed

subsection \<open>Where the position wraps around\<close>

abbreviation wrapping_message :: "u8 list" where
  "wrapping_message \<equiv> [0x82, 0x5b, 0xff, 0xff, 0xff, 0xff, 0xff, 0xff, 0xff, 0xf6]"

lemma wrapping_head:
  "abk_cbor_read_head (abk_fido_reader wrapping_message) =
     ROk (4, 2) ((abk_fido_reader wrapping_message)\<lparr>rd_pos := 1\<rparr>)"
  by (simp add: abk_cbor_read_head_def abk_cbor_read_u64_def abk_fido_reader_def rd_monad)

lemma wrapping_string:
  "abk_cbor_skip (Suc d) ((abk_fido_reader wrapping_message)\<lparr>rd_pos := 1\<rparr>) =
     ROk () (abk_fido_reader wrapping_message)"
  by (simp add: abk_cbor_read_head_def abk_cbor_read_u64_def abk_fido_reader_def rd_monad
      rd_be_def field_at_def be_val_def word_le_nat_alt)

lemma skip_loops: "abk_cbor_skip d (abk_fido_reader wrapping_message) = RDeep"
proof (induction d)
  case 0
  show ?case by simp
next
  case (Suc d)
  show ?case
  proof (cases d)
    case 0
    then show ?thesis by (simp add: wrapping_head rbind_def)
  next
    case (Suc n)
    have two: "rd_loop 2 (\<lambda>_. abk_cbor_skip d) () ((abk_fido_reader wrapping_message)\<lparr>rd_pos := 1\<rparr>) = RDeep"
      using Suc.IH wrapping_string [of n] Suc
      by (simp only: numeral_2_eq_2 rd_loop.simps rd.case)
    show ?thesis
      by (subst abk_cbor_skip.simps) (simp add: wrapping_head rbind_def two del: rd_loop_numeral)
  qed
qed

subsection \<open>What the reader guarantees\<close>

text \<open>
  Skipping a well-formed item consumes exactly its bytes: with the reader before the
  canonical encoding of any data item, however nested, \<open>abk_cbor_skip\<close> succeeds and leaves
  the reader right after it, as long as the stack holds one call per nesting level.
\<close>

theorem skip_exact:
  assumes "rd_ok r" "rd_rest r = cbor_enc c @ t" "cbor_depth c \<le> d"
  shows "\<exists>r'. abk_cbor_skip d r = ROk () r' \<and> rd_ok r' \<and> rd_rest r' = t \<and> rd_buf r' = rd_buf r"
  using assms skip_item [of c d r t] rd_at_past [of r c t] by (simp add: rd_at_def)

theorem skip_exact_witness:
  "\<exists>r'. abk_cbor_skip 3 (abk_fido_reader
        (cbor_enc (CArray [CUint 1, CMap [(ctext ''k'', CBool True)]]) @ [0xf4])) = ROk () r'
      \<and> rd_ok r' \<and> rd_rest r' = [0xf4]
      \<and> rd_buf r' = cbor_enc (CArray [CUint 1, CMap [(ctext ''k'', CBool True)]]) @ [0xf4]"
proof -
  let ?c = "CArray [CUint 1, CMap [(ctext ''k'', CBool True)]]"
  let ?b = "cbor_enc ?c @ [0xf4]"
  have "length ?b < 2 ^ 63" by (simp add: cbor_head_def)
  from skip_exact [OF rd_ok_reader [OF this], of ?c "[0xf4]" 3] show ?thesis
    by (simp add: abk_fido_reader_def rd_rest_def)
qed

text \<open>
  C34. On a message without the two head bytes \<open>0x5b\<close> and \<open>0x7b\<close> (a string with an eight-byte
  length) skipping always ends, whatever the bytes: the recursion is never deeper than the
  number of bytes plus one, and a successful skip leaves the position inside the buffer, at
  or after where it was.
\<close>

theorem skip_ends_inside:
  assumes "length buf < 2 ^ 63" "0x5b \<notin> set buf" "0x7b \<notin> set buf"
  shows "abk_cbor_skip (length buf + 1) (abk_fido_reader buf) \<noteq> RDeep
    \<and> (\<forall>r'. abk_cbor_skip (length buf + 1) (abk_fido_reader buf) = ROk () r' \<longrightarrow>
         rd_ok r' \<and> rd_buf r' = buf)"
proof -
  let ?r = "abk_fido_reader buf"
  have r: "rd_ok ?r" "no_wide_strings ?r"
    using rd_ok_reader [OF assms(1)] assms(2,3)
    by (simp_all add: no_wide_strings_def abk_fido_reader_def)
  have "length (rd_rest ?r) < length buf + 1" by simp
  with skip_stays_shallow [of "length buf + 1", unfolded stays_shallow_def] r
  have "abk_cbor_skip (length buf + 1) ?r \<noteq> RDeep" by blast
  moreover have "rd_ok r' \<and> rd_buf r' = buf"
    if skipped: "abk_cbor_skip (length buf + 1) ?r = ROk () r'" for r'
  proof -
    obtain n where "rd_ok r'" "r' = adv n ?r"
      by (rule moves_forwardD [OF skip_moves_forward r skipped])
    then show ?thesis by (simp add: abk_fido_reader_def)
  qed
  ultimately show ?thesis by blast
qed

theorem skip_ends_inside_witness:
  "abk_cbor_skip (length [0x82, 0x01, 0xff :: u8] + 1) (abk_fido_reader [0x82, 0x01, 0xff]) \<noteq> RDeep"
  by (rule skip_ends_inside [of "[0x82, 0x01, 0xff]", THEN conjunct1]) simp_all

text \<open>
  C40. With an eight-byte string length the position wraps around: on the ten bytes
  \<open>82 5b ff ff ff ff ff ff ff f6\<close> (an array of two whose first element claims a string of
  2^64 - 10 bytes) \<open>abk_cbor_skip\<close> accepts the string, is back at position 0 and descends
  into the same array again: no stack is deep enough.
\<close>

theorem skip_never_ends:
  "abk_cbor_skip d (abk_fido_reader
     [0x82, 0x5b, 0xff, 0xff, 0xff, 0xff, 0xff, 0xff, 0xff, 0xf6]) = RDeep"
  by (rule skip_loops)

end
