(* ===== verification/Cbor_Writer.thy ===== *)
theory Cbor_Writer
  imports Cbor_Item
begin

unbundle bit_operations_syntax

section \<open>The CBOR writer (\<open>struct abk_cbor_writer\<close>)\<close>

text \<open>
  The writer appends encoded items to a caller's buffer of a declared length and latches
  \<open>-EOVERFLOW\<close> in \<open>err\<close> when one does not fit; later calls then do nothing.  The interface
  its clients rely on is a sink that either holds exactly the bytes appended so far or has
  failed (\<open>byte_sink\<close>); every \<open>abk_cbor_put_*\<close> is one or two appends to it.
\<close>

record abk_cbor_writer =
  wr_buf :: "u8 list"
  wr_len :: nat
  wr_pos :: nat
  wr_err :: ret

definition abk_cbor_writer_init :: "u8 list \<Rightarrow> nat \<Rightarrow> abk_cbor_writer" where
  "abk_cbor_writer_init buf len = \<lparr>wr_buf = buf, wr_len = len, wr_pos = 0, wr_err = None\<rparr>"

text \<open>Stores at the position, which moves past them.\<close>

definition wr_store :: "u8 list \<Rightarrow> abk_cbor_writer \<Rightarrow> abk_cbor_writer" where
  "wr_store bs w = w\<lparr>wr_buf := overwrite (wr_pos w) bs (wr_buf w), wr_pos := wr_pos w + length bs\<rparr>"

definition abk_cbor_put_head :: "u8 \<Rightarrow> u64 \<Rightarrow> abk_cbor_writer \<Rightarrow> abk_cbor_writer" where
  "abk_cbor_put_head major value w =
     (if wr_err w \<noteq> None then w
      else if value \<le> 23 then
        (if wr_pos w + 1 > wr_len w then w\<lparr>wr_err := Some EOVERFLOW\<rparr>
         else wr_store [push_bit 5 major OR ucast value] w)
      else if value \<le> 0xff then
        (if wr_pos w + 2 > wr_len w then w\<lparr>wr_err := Some EOVERFLOW\<rparr>
         else wr_store [ucast value] (wr_store [push_bit 5 major OR 24] w))
      else if value \<le> 0xffff then
        (if wr_pos w + 3 > wr_len w then w\<lparr>wr_err := Some EOVERFLOW\<rparr>
         else wr_store (be_bytes 2 (unat value)) (wr_store [push_bit 5 major OR 25] w))
      else if value \<le> 0xffffffff then
        (if wr_pos w + 5 > wr_len w then w\<lparr>wr_err := Some EOVERFLOW\<rparr>
         else wr_store (be_bytes 4 (unat value)) (wr_store [push_bit 5 major OR 26] w))
      else
        (if wr_pos w + 9 > wr_len w then w\<lparr>wr_err := Some EOVERFLOW\<rparr>
         else wr_store (be_bytes 8 (unat value)) (wr_store [push_bit 5 major OR 27] w)))"

definition abk_cbor_put_uint :: "u64 \<Rightarrow> abk_cbor_writer \<Rightarrow> abk_cbor_writer" where
  "abk_cbor_put_uint value w = abk_cbor_put_head 0 value w"

text \<open>The \<open>s64\<close> argument is kept as its 64 bits; \<open>sint\<close> reads its sign.\<close>

definition abk_cbor_put_int :: "u64 \<Rightarrow> abk_cbor_writer \<Rightarrow> abk_cbor_writer" where
  "abk_cbor_put_int value w =
     (if 0 \<le> sint value then abk_cbor_put_head 0 value w
      else abk_cbor_put_head 1 (- 1 - value) w)"

definition wr_payload :: "u8 list \<Rightarrow> abk_cbor_writer \<Rightarrow> abk_cbor_writer" where
  "wr_payload bs w =
     (if wr_err w \<noteq> None then w
      else if wr_pos w + length bs > wr_len w then w\<lparr>wr_err := Some EOVERFLOW\<rparr>
      else wr_store bs w)"

definition abk_cbor_put_bytes :: "u8 list \<Rightarrow> abk_cbor_writer \<Rightarrow> abk_cbor_writer" where
  "abk_cbor_put_bytes bs w =
     (if wr_err w \<noteq> None then w
      else wr_payload bs (abk_cbor_put_head 2 (word_of_nat (length bs)) w))"

text \<open>\<open>text\<close> is a C string: what stands before its NUL is written.\<close>

definition abk_cbor_put_text :: "u8 list \<Rightarrow> abk_cbor_writer \<Rightarrow> abk_cbor_writer" where
  "abk_cbor_put_text s w =
     (let len = length (cstr s) in
      wr_payload (cstr s) (abk_cbor_put_head 3 (word_of_nat len) w))"

definition abk_cbor_put_bool :: "bool \<Rightarrow> abk_cbor_writer \<Rightarrow> abk_cbor_writer" where
  "abk_cbor_put_bool value w = abk_cbor_put_head 7 (if value then 21 else 20) w"

definition abk_cbor_put_map :: "u64 \<Rightarrow> abk_cbor_writer \<Rightarrow> abk_cbor_writer" where
  "abk_cbor_put_map count w = abk_cbor_put_head 5 count w"

definition abk_cbor_put_array :: "u64 \<Rightarrow> abk_cbor_writer \<Rightarrow> abk_cbor_writer" where
  "abk_cbor_put_array count w = abk_cbor_put_head 4 count w"

subsection \<open>The sink contract\<close>

locale byte_sink =
  fixes written :: "'w \<Rightarrow> u8 list option"
    and capacity :: "'w \<Rightarrow> nat"
    and good :: "'w \<Rightarrow> bool"
    and emit :: "u8 list \<Rightarrow> 'w \<Rightarrow> 'w"
  assumes emit_written: "good w \<Longrightarrow> written (emit bs w) =
      (case written w of None \<Rightarrow> None
       | Some out \<Rightarrow> if length out + length bs \<le> capacity w then Some (out @ bs) else None)"
    and emit_good: "good w \<Longrightarrow> good (emit bs w)"
    and emit_capacity: "capacity (emit bs w) = capacity w"
begin

text \<open>A sequence of appends leaves the concatenation, or a failure when it does not fit.\<close>

lemma emit_all:
  "good w \<Longrightarrow> written w = Some out \<Longrightarrow>
     written (fold emit bss w) =
       (if length out + length (concat bss) \<le> capacity w then Some (out @ concat bss)
        else if bss = [] then Some out else None)
     \<and> good (fold emit bss w) \<and> capacity (fold emit bss w) = capacity w"
proof (induction bss arbitrary: w out)
  case Nil
  then show ?case by simp
next
  case (Cons bs bss)
  let ?w = "emit bs w"
  have good: "good ?w" and cap: "capacity ?w = capacity w"
    using Cons.prems by (simp_all add: emit_good emit_capacity)
  show ?case
  proof (cases "length out + length bs \<le> capacity w")
    case True
    then have "written ?w = Some (out @ bs)" using Cons.prems by (simp add: emit_written)
    from Cons.IH [OF good this] True cap show ?thesis by auto
  next
    case False
    then have "written ?w = None" using Cons.prems by (simp add: emit_written)
    moreover have "written (fold emit bss v) = None \<and> good (fold emit bss v)
        \<and> capacity (fold emit bss v) = capacity v"
      if "good v" "written v = None" for v
      using that
    proof (induction bss arbitrary: v)
      case (Cons b bs)
      then show ?case using Cons.IH [of "emit b v"]
        by (simp add: emit_good emit_written emit_capacity)
    qed simp
    ultimately show ?thesis using good cap False by simp
  qed
qed

end

subsection \<open>The writer is a sink\<close>

definition wr_ok :: "abk_cbor_writer \<Rightarrow> bool" where
  "wr_ok w \<longleftrightarrow> wr_pos w \<le> wr_len w \<and> wr_len w \<le> length (wr_buf w)"

definition wr_out :: "abk_cbor_writer \<Rightarrow> u8 list option" where
  "wr_out w = (if wr_err w = None then Some (take (wr_pos w) (wr_buf w)) else None)"

text \<open>The common shape of all the \<open>abk_cbor_put_*\<close>: append if it fits, else latch the error.\<close>

lemma wr_payload_out:
  assumes "wr_ok w"
  shows "wr_out (wr_payload bs w) =
      (case wr_out w of None \<Rightarrow> None
       | Some out \<Rightarrow> if length out + length bs \<le> wr_len w then Some (out @ bs) else None)"
    and "wr_ok (wr_payload bs w)" and "wr_len (wr_payload bs w) = wr_len w"
  using assms take_overwrite_end [of "wr_pos w" "wr_buf w" bs]
  by (auto simp: wr_payload_def wr_out_def wr_store_def wr_ok_def min_absorb2)

interpretation wr: byte_sink wr_out wr_len wr_ok wr_payload
  by unfold_locales (simp_all add: wr_payload_out, simp add: wr_payload_def wr_store_def)

lemma wr_store_store: "wr_pos w + length (as @ bs) \<le> length (wr_buf w) \<Longrightarrow>
    wr_store bs (wr_store as w) = wr_store (as @ bs) w"
  by (simp add: wr_store_def overwrite_end add.assoc)

lemma put_head_payload: "wr_ok w \<Longrightarrow> abk_cbor_put_head m v w = wr_payload (cbor_head m v) w"
  by (simp add: abk_cbor_put_head_def wr_payload_def cbor_head_def cbor_byte_def wr_ok_def
      wr_store_store)

text \<open>What each call appends.\<close>

definition put_item :: "cbor \<Rightarrow> abk_cbor_writer \<Rightarrow> abk_cbor_writer" where
  "put_item c = wr_payload (cbor_enc c)"

definition sint_item :: "u64 \<Rightarrow> cbor" where
  "sint_item v = (if 0 \<le> sint v then CUint v else CNeg (- 1 - v))"

lemma wr_payload_append:
  "wr_ok w \<Longrightarrow> wr_out (wr_payload bs (wr_payload as w)) = wr_out (wr_payload (as @ bs) w)"
  by (auto simp: wr_payload_out split: option.splits)

lemma put_item_out:
  "wr_ok w \<Longrightarrow> wr_out (put_item c w) =
     (case wr_out w of None \<Rightarrow> None
      | Some out \<Rightarrow> if length out + length (cbor_enc c) \<le> wr_len w then Some (out @ cbor_enc c) else None)"
  by (simp add: put_item_def wr_payload_out)

lemma put_uint_item: "wr_ok w \<Longrightarrow> abk_cbor_put_uint v w = put_item (CUint v) w"
  by (simp add: abk_cbor_put_uint_def put_head_payload put_item_def)

lemma put_int_item: "wr_ok w \<Longrightarrow> abk_cbor_put_int v w = put_item (sint_item v) w"
  by (simp add: abk_cbor_put_int_def put_head_payload put_item_def sint_item_def)

lemma put_bool_item: "wr_ok w \<Longrightarrow> abk_cbor_put_bool b w = put_item (CBool b) w"
  by (simp add: abk_cbor_put_bool_def put_head_payload put_item_def)

lemma put_bytes_out:
  assumes "wr_ok w"
  shows "wr_out (abk_cbor_put_bytes bs w) = wr_out (put_item (CBytes bs) w)"
proof (cases "wr_err w = None")
  case True
  then have "abk_cbor_put_bytes bs w = wr_payload bs (wr_payload (cbor_head 2 (word_of_nat (length bs))) w)"
    using assms by (simp add: abk_cbor_put_bytes_def put_head_payload)
  with assms show ?thesis by (simp add: put_item_def wr_payload_append)
next
  case False
  then have "abk_cbor_put_bytes bs w = w" "put_item (CBytes bs) w = w"
    by (auto simp: abk_cbor_put_bytes_def put_item_def wr_payload_def)
  then show ?thesis by simp
qed

lemma put_text_out:
  "wr_ok w \<Longrightarrow> wr_out (abk_cbor_put_text s w) = wr_out (put_item (CText (cstr s)) w)"
  by (simp add: abk_cbor_put_text_def put_head_payload put_item_def wr_payload_append Let_def)

lemma put_frame [wf_intros]:
  assumes "wr_ok w"
  shows "wr_ok (abk_cbor_put_head m v w)" "wr_len (abk_cbor_put_head m v w) = wr_len w"
    "wr_ok (abk_cbor_put_bytes bs w)" "wr_len (abk_cbor_put_bytes bs w) = wr_len w"
    "wr_ok (abk_cbor_put_text s w)" "wr_len (abk_cbor_put_text s w) = wr_len w"
    "wr_ok (put_item c w)" "wr_len (put_item c w) = wr_len w"
  using assms
  by (simp_all add: put_head_payload wr_payload_out abk_cbor_put_bytes_def abk_cbor_put_text_def
      put_item_def Let_def)

lemma put_map_payload: "wr_ok w \<Longrightarrow> abk_cbor_put_map n w = wr_payload (cbor_head 5 n) w"
  by (simp add: abk_cbor_put_map_def put_head_payload)

lemma put_array_payload: "wr_ok w \<Longrightarrow> abk_cbor_put_array n w = wr_payload (cbor_head 4 n) w"
  by (simp add: abk_cbor_put_array_def put_head_payload)

text \<open>
  The same facts in the form a reply is built with: \<open>wr_built w cap out\<close> says \<open>w\<close> holds exactly
  \<open>out\<close>, and that both the declared length and the array leave room for \<open>cap\<close> bytes.  (The
  two need not agree: the COSE key is built in a 128-byte array declared as 1536 bytes long.)
\<close>

definition wr_built :: "abk_cbor_writer \<Rightarrow> nat \<Rightarrow> u8 list \<Rightarrow> bool" where
  "wr_built w cap out \<longleftrightarrow> wr_err w = None \<and> wr_pos w = length out \<and> take (length out) (wr_buf w) = out
     \<and> cap \<le> wr_len w \<and> cap \<le> length (wr_buf w)"

lemma wr_built_init: "cap \<le> n \<Longrightarrow> cap \<le> length buf \<Longrightarrow> wr_built (abk_cbor_writer_init buf n) cap []"
  by (simp add: wr_built_def abk_cbor_writer_init_def)

lemma wr_built_payload:
  assumes "wr_built w cap out" "length out + length bs \<le> cap"
  shows "wr_built (wr_payload bs w) cap (out @ bs)"
  using assms take_overwrite_end [of "wr_pos w" "wr_buf w" bs]
  by (auto simp: wr_built_def wr_payload_def wr_store_def)

lemma wr_built_head:
  assumes "wr_built w cap out" "length out + length (cbor_head m v) \<le> cap"
  shows "wr_built (abk_cbor_put_head m v w) cap (out @ cbor_head m v)"
proof -
  have "wr_pos w + length (cbor_head m v) \<le> length (wr_buf w)"
    using assms by (simp add: wr_built_def)
  then have "abk_cbor_put_head m v w = wr_payload (cbor_head m v) w"
    by (simp add: abk_cbor_put_head_def wr_payload_def cbor_head_def cbor_byte_def wr_store_store
        split: if_splits)
  with wr_built_payload [OF assms] show ?thesis by simp
qed

lemma wr_built_uint:
  "wr_built w cap out \<Longrightarrow> length out + length (cbor_enc (CUint v)) \<le> cap \<Longrightarrow>
     wr_built (abk_cbor_put_uint v w) cap (out @ cbor_enc (CUint v))"
  by (simp add: abk_cbor_put_uint_def wr_built_head)

lemma wr_built_int:
  "wr_built w cap out \<Longrightarrow> length out + length (cbor_enc (sint_item v)) \<le> cap \<Longrightarrow>
     wr_built (abk_cbor_put_int v w) cap (out @ cbor_enc (sint_item v))"
  by (simp add: abk_cbor_put_int_def sint_item_def wr_built_head split: if_splits)

lemma wr_built_bool:
  "wr_built w cap out \<Longrightarrow> length out + length (cbor_enc (CBool b)) \<le> cap \<Longrightarrow>
     wr_built (abk_cbor_put_bool b w) cap (out @ cbor_enc (CBool b))"
  by (simp add: abk_cbor_put_bool_def wr_built_head)

lemma wr_built_string:
  assumes "wr_built w cap out"
    "length out + length (cbor_head m (word_of_nat (length bs)) @ bs) \<le> cap"
  shows "wr_built (wr_payload bs (abk_cbor_put_head m (word_of_nat (length bs)) w)) cap
    (out @ cbor_head m (word_of_nat (length bs)) @ bs)"
  using wr_built_payload [OF wr_built_head [OF assms(1)], of m "word_of_nat (length bs)" bs] assms(2)
  by simp

lemma wr_built_bytes:
  assumes "wr_built w cap out" "length out + length (cbor_enc (CBytes bs)) \<le> cap"
  shows "wr_built (abk_cbor_put_bytes bs w) cap (out @ cbor_enc (CBytes bs))"
proof -
  have "wr_err w = None" using assms(1) by (simp add: wr_built_def)
  with assms wr_built_string [of w cap out 2 bs] show ?thesis by (simp add: abk_cbor_put_bytes_def)
qed

lemma wr_built_text:
  assumes "wr_built w cap out" "length out + length (cbor_enc (CText (cstr s))) \<le> cap"
  shows "wr_built (abk_cbor_put_text s w) cap (out @ cbor_enc (CText (cstr s)))"
  using assms wr_built_string [of w cap out 3 "cstr s"] by (simp add: abk_cbor_put_text_def)

lemma wr_built_map:
  "wr_built w cap out \<Longrightarrow> length out + length (cbor_head 5 n) \<le> cap \<Longrightarrow>
     wr_built (abk_cbor_put_map n w) cap (out @ cbor_head 5 n)"
  by (simp add: abk_cbor_put_map_def wr_built_head)

lemma wr_built_array:
  "wr_built w cap out \<Longrightarrow> length out + length (cbor_head 4 n) \<le> cap \<Longrightarrow>
     wr_built (abk_cbor_put_array n w) cap (out @ cbor_head 4 n)"
  by (simp add: abk_cbor_put_array_def wr_built_head)

lemmas wr_built_intros = wr_built_init wr_built_uint wr_built_int wr_built_bool wr_built_bytes
  wr_built_text wr_built_map wr_built_array

subsection \<open>What the writer guarantees\<close>

text \<open>Appending to a bounded sink.\<close>

definition sink_after :: "u8 list \<Rightarrow> abk_cbor_writer \<Rightarrow> u8 list option" where
  "sink_after bs w =
     (case wr_out w of
        None \<Rightarrow> None
      | Some out \<Rightarrow> if length out + length bs \<le> wr_len w then Some (out @ bs) else None)"

text \<open>
  C21. Every \<open>abk_cbor_put_*\<close> call implements the canonical encoding on a bounded sink: the
  writer's contents grow by exactly the shortest encoding of the value, and when that does
  not fit in the declared length, or an earlier call has failed, the writer ends failed; it
  never stores past the declared length.
\<close>

theorem writer_refines_encoding:
  assumes "wr_ok w"
  shows "wr_out (abk_cbor_put_uint v w) = sink_after (cbor_enc (CUint v)) w
    \<and> wr_out (abk_cbor_put_int v w) = sink_after (cbor_enc (sint_item v)) w
    \<and> wr_out (abk_cbor_put_bytes bs w) = sink_after (cbor_enc (CBytes bs)) w
    \<and> wr_out (abk_cbor_put_text s w) = sink_after (cbor_enc (CText (cstr s))) w
    \<and> wr_out (abk_cbor_put_bool b w) = sink_after (cbor_enc (CBool b)) w
    \<and> wr_out (abk_cbor_put_map n w) = sink_after (cbor_head 5 n) w
    \<and> wr_out (abk_cbor_put_array n w) = sink_after (cbor_head 4 n) w
    \<and> drop (wr_len w) (wr_buf (abk_cbor_put_bytes bs w)) = drop (wr_len w) (wr_buf w)
    \<and> drop (wr_len w) (wr_buf (abk_cbor_put_text s w)) = drop (wr_len w) (wr_buf w)"
proof -
  have kept: "drop (wr_len w') (wr_buf (wr_payload bs' w')) = drop (wr_len w') (wr_buf w')"
    if "wr_ok w'" for bs' w'
    using that by (auto simp: wr_payload_def wr_store_def overwrite_def wr_ok_def)
  have kept2: "drop (wr_len w) (wr_buf (wr_payload b2 (wr_payload b1 w))) = drop (wr_len w) (wr_buf w)"
    for b1 b2
    using kept [of w b1] kept [of "wr_payload b1 w" b2] assms
    by (simp add: wr_payload_out)
  have strings:
    "drop (wr_len w) (wr_buf (abk_cbor_put_bytes bs w)) = drop (wr_len w) (wr_buf w)"
    "drop (wr_len w) (wr_buf (abk_cbor_put_text s w)) = drop (wr_len w) (wr_buf w)"
    using assms kept2
    by (simp_all only: abk_cbor_put_bytes_def abk_cbor_put_text_def put_head_payload Let_def
        if_split) auto
  show ?thesis
    unfolding put_uint_item [OF assms] put_int_item [OF assms] put_bool_item [OF assms]
      put_bytes_out [OF assms] put_text_out [OF assms] put_item_out [OF assms] sink_after_def
      put_map_payload [OF assms] put_array_payload [OF assms] wr_payload_out(1) [OF assms] strings
    by (intro conjI refl)
qed

theorem writer_refines_encoding_witness:
  "wr_out (abk_cbor_put_uint 300 (abk_cbor_writer_init [9, 9, 9, 9] 3)) = Some [0x19, 0x01, 0x2c]
   \<and> wr_out (abk_cbor_put_uint 300 (abk_cbor_writer_init [9, 9, 9, 9] 2)) = None"
proof -
  have ok: "wr_ok (abk_cbor_writer_init [9, 9, 9, 9] 3)" "wr_ok (abk_cbor_writer_init [9, 9, 9, 9] 2)"
    by (simp_all add: wr_ok_def abk_cbor_writer_init_def)
  show ?thesis
    using writer_refines_encoding [OF ok(1), THEN conjunct1, of 300]
      writer_refines_encoding [OF ok(2), THEN conjunct1, of 300]
    by (simp add: sink_after_def wr_out_def abk_cbor_writer_init_def cbor_head_def cbor_byte_def
        be_bytes_numeral)
qed

end
