(* ===== verification/Cose_Key.thy ===== *)
theory Cose_Key
  imports Cbor_Reader Cbor_Writer
begin

section \<open>COSE keys (EC2, P-256)\<close>

text \<open>
  The two routines that exchange an elliptic-curve point with the platform:
  \<open>abk_cbor_read_cose_p256_xy\<close> reads the key-agreement key of the \<open>hmac-secret\<close> extension,
  \<open>abk_fido_encode_cose_key\<close> writes a credential's (or the authenticator's) public key.
  A point is 64 bytes, x then y.  The \<open>s64\<close> map keys are the 64 bits \<open>abk_cbor_read_int\<close>
  returns; the local array of the encoder's caller has 128 bytes.
\<close>

definition ABK_FIDO_MAX_CBOR :: nat where
  "ABK_FIDO_MAX_CBOR = 1536"

definition ABK_FIDO_COSE_KTY_EC2 :: u64 where
  "ABK_FIDO_COSE_KTY_EC2 = 2"

definition ABK_FIDO_COSE_ALG_ES256 :: u64 where
  "ABK_FIDO_COSE_ALG_ES256 = -7"

definition ABK_FIDO_COSE_CRV_P256 :: u64 where
  "ABK_FIDO_COSE_CRV_P256 = 1"

lemmas cose_consts = ABK_FIDO_COSE_KTY_EC2_def ABK_FIDO_COSE_ALG_ES256_def ABK_FIDO_COSE_CRV_P256_def

subsection \<open>Reading\<close>

record cose_acc =
  ck_x :: "u8 list"
  ck_y :: "u8 list"
  ck_have_kty :: bool
  ck_have_crv :: bool
  ck_have_x :: bool
  ck_have_y :: bool

definition cose_start :: cose_acc where
  "cose_start = \<lparr>ck_x = replicate 32 0, ck_y = replicate 32 0,
     ck_have_kty = False, ck_have_crv = False, ck_have_x = False, ck_have_y = False\<rparr>"

text \<open>One round of the loop over the map; \<open>d\<close> is the stack left for \<open>abk_cbor_skip\<close>.\<close>

definition cose_member :: "nat \<Rightarrow> cose_acc \<Rightarrow> cose_acc rdm" where
  "cose_member d a =
     rbind abk_cbor_read_int (\<lambda>key.
       if key = 1 then
         rbind abk_cbor_read_int (\<lambda>kty. rreturn (a\<lparr>ck_have_kty := (kty = ABK_FIDO_COSE_KTY_EC2)\<rparr>))
       else if key = -1 then
         rbind abk_cbor_read_int (\<lambda>crv. rreturn (a\<lparr>ck_have_crv := (crv = ABK_FIDO_COSE_CRV_P256)\<rparr>))
       else if key = -2 then
         rbind abk_cbor_read_bytes (\<lambda>slice r.
           if sl_len slice \<noteq> 32 then RErr EINVAL
           else ROk (a\<lparr>ck_x := slice_bytes r slice, ck_have_x := True\<rparr>) r)
       else if key = -3 then
         rbind abk_cbor_read_bytes (\<lambda>slice r.
           if sl_len slice \<noteq> 32 then RErr EINVAL
           else ROk (a\<lparr>ck_y := slice_bytes r slice, ck_have_y := True\<rparr>) r)
       else rbind (abk_cbor_skip d) (\<lambda>_. rreturn a))"

definition abk_cbor_read_cose_p256_xy :: "nat \<Rightarrow> u8 list rdm" where
  "abk_cbor_read_cose_p256_xy d =
     rbind abk_cbor_read_map (\<lambda>count.
     rbind (rd_loop (unat count) (cose_member d) cose_start) (\<lambda>a.
       if \<not> ck_have_kty a \<or> \<not> ck_have_crv a \<or> \<not> ck_have_x a \<or> \<not> ck_have_y a
       then rfail EINVAL else rreturn (ck_x a @ ck_y a)))"

subsection \<open>Writing\<close>

text \<open>The result: the return code, the array afterwards and \<open>*out_len\<close>.\<close>

definition abk_fido_encode_cose_key :: "u8 list \<Rightarrow> u64 \<Rightarrow> u8 list \<Rightarrow> ret \<times> u8 list \<times> nat" where
  "abk_fido_encode_cose_key pub_key alg out =
     (let w = abk_cbor_writer_init out ABK_FIDO_MAX_CBOR;
          w = abk_cbor_put_map 5 w;
          w = abk_cbor_put_int 1 w;
          w = abk_cbor_put_int ABK_FIDO_COSE_KTY_EC2 w;
          w = abk_cbor_put_int 3 w;
          w = abk_cbor_put_int alg w;
          w = abk_cbor_put_int (-1) w;
          w = abk_cbor_put_int ABK_FIDO_COSE_CRV_P256 w;
          w = abk_cbor_put_int (-2) w;
          w = abk_cbor_put_bytes (field_at 0 32 pub_key) w;
          w = abk_cbor_put_int (-3) w;
          w = abk_cbor_put_bytes (field_at 32 32 pub_key) w
      in (wr_err w, wr_buf w, if wr_err w = None then wr_pos w else 0))"

subsection \<open>The bytes written\<close>

definition cose_item :: "u8 list \<Rightarrow> u64 \<Rightarrow> cbor" where
  "cose_item pub alg = CMap [(CUint 1, CUint 2), (CUint 3, sint_item alg), (CNeg 0, CUint 1),
     (CNeg 1, CBytes (take 32 pub)), (CNeg 2, CBytes (drop 32 pub))]"

lemma sint_item_small:
  "sint_item 1 = CUint 1" "sint_item 2 = CUint 2" "sint_item 3 = CUint 3"
  "sint_item (-1) = CNeg 0" "sint_item (-2) = CNeg 1" "sint_item (-3) = CNeg 2"
  "sint_item (-7) = CNeg 6"
  by (simp_all add: sint_item_def)

lemma length_sint_item: "length (cbor_enc (sint_item v)) \<le> 9"
  using cbor_head_length [of 0 v] cbor_head_length [of 1 "- 1 - v"]
  by (auto simp: sint_item_def)

lemma length_bytes_item_32:
  "length bs = 32 \<Longrightarrow> length (cbor_enc (CBytes bs)) = 34"
  by (simp add: cbor_head_def)

lemma length_small_uint: "v \<le> 23 \<Longrightarrow> length (cbor_head m v) = 1"
  by (simp add: cbor_head_def)

lemma length_head_32: "length (cbor_head m 32) = 2"
  by (simp add: cbor_head_def)

lemma length_cose_item:
  assumes "length pub = 64"
  shows "length (cbor_enc (cose_item pub alg)) \<le> 85"
    and "alg = ABK_FIDO_COSE_ALG_ES256 \<Longrightarrow> length (cbor_enc (cose_item pub alg)) = 77"
  using assms length_sint_item [of alg] length_bytes_item_32 [of "take 32 pub"]
    length_bytes_item_32 [of "drop 32 pub"]
  by (simp_all add: length_head_32 cose_item_def length_small_uint cose_consts sint_item_small)

lemma encode_cose_key_built:
  assumes "length pub = 64" "cap \<le> 1536" "cap \<le> length out"
    "length (cbor_enc (cose_item pub alg)) \<le> cap"
  shows "\<exists>buf. abk_fido_encode_cose_key pub alg out
      = (None, buf, length (cbor_enc (cose_item pub alg)))
    \<and> take (length (cbor_enc (cose_item pub alg))) buf = cbor_enc (cose_item pub alg)"
proof -
  let ?x = "take 32 pub" and ?y = "drop 32 pub"
  let ?w = "abk_cbor_put_bytes (field_at 32 32 pub) (abk_cbor_put_int (-3)
    (abk_cbor_put_bytes (field_at 0 32 pub) (abk_cbor_put_int (-2) (abk_cbor_put_int 1
    (abk_cbor_put_int (-1) (abk_cbor_put_int alg (abk_cbor_put_int 3 (abk_cbor_put_int 2
    (abk_cbor_put_int 1 (abk_cbor_put_map 5 (abk_cbor_writer_init out 1536)))))))))))"
  have xy: "field_at 0 32 pub = ?x" "field_at 32 32 pub = ?y"
    using assms(1) by (simp_all add: field_at_def)
  have len: "length (cbor_enc (CBytes ?x)) = 34" "length (cbor_enc (CBytes ?y)) = 34"
    using assms(1) by (simp_all add: length_head_32)
  have room: "69 + 8 - 1 + length (cbor_enc (sint_item alg)) \<le> cap"
    using assms(1,4) by (simp add: cose_item_def length_small_uint length_head_32)
  have "wr_built ?w cap (((((((((((([] @ cbor_head 5 5) @ cbor_enc (sint_item 1))
      @ cbor_enc (sint_item 2)) @ cbor_enc (sint_item 3)) @ cbor_enc (sint_item alg))
      @ cbor_enc (sint_item (-1))) @ cbor_enc (sint_item 1)) @ cbor_enc (sint_item (-2)))
      @ cbor_enc (CBytes ?x)) @ cbor_enc (sint_item (-3))) @ cbor_enc (CBytes ?y)))"
    unfolding xy
    apply (intro wr_built_bytes wr_built_int wr_built_map wr_built_init)
    using assms(2,3) room len
    by (simp_all add: sint_item_small length_small_uint)
  moreover have "(((((((((((([] @ cbor_head 5 5) @ cbor_enc (sint_item 1))
      @ cbor_enc (sint_item 2)) @ cbor_enc (sint_item 3)) @ cbor_enc (sint_item alg))
      @ cbor_enc (sint_item (-1))) @ cbor_enc (sint_item 1)) @ cbor_enc (sint_item (-2)))
      @ cbor_enc (CBytes ?x)) @ cbor_enc (sint_item (-3))) @ cbor_enc (CBytes ?y)))
      = cbor_enc (cose_item pub alg)"
    by (simp add: cose_item_def sint_item_small)
  ultimately have "wr_built ?w cap (cbor_enc (cose_item pub alg))" by simp
  then show ?thesis
    by (simp add: abk_fido_encode_cose_key_def Let_def cose_consts ABK_FIDO_MAX_CBOR_def wr_built_def)
qed

subsection \<open>Reading back a key\<close>

lemma read_int_at:
  "rd_at r (sint_item v) t \<Longrightarrow> abk_cbor_read_int r = ROk v (past (sint_item v) r)"
  using read_int_uint [of r v t] read_int_neg [of r "- 1 - v" t]
  by (auto simp: sint_item_def split: if_splits)

lemma rd_seq_int:
  assumes "rd_seq r (sint_item v # cs) t"
  shows "\<exists>r'. abk_cbor_read_int r = ROk v r' \<and> rd_seq r' cs t \<and> rd_buf r' = rd_buf r"
  using read_int_at rd_seq_past [OF assms] assms by (auto simp: rd_seq_Cons)

lemma rd_seq_bytes:
  assumes "rd_seq r (CBytes bs # cs) t"
  shows "\<exists>s r'. abk_cbor_read_bytes r = ROk s r' \<and> rd_seq r' cs t \<and> rd_buf r' = rd_buf r
    \<and> slice_bytes r' s = bs \<and> unat (sl_len s) = length bs"
  using read_bytes_at rd_seq_past [OF assms] assms
  by (fastforce simp: rd_seq_Cons slice_bytes_def)

lemma cose_member_int:
  assumes "rd_seq r (sint_item k # sint_item v # cs) t" "k = 1 \<or> k = -1"
  shows "\<exists>r'. cose_member d a r = ROk
      (if k = 1 then a\<lparr>ck_have_kty := (v = 2)\<rparr> else a\<lparr>ck_have_crv := (v = 1)\<rparr>) r'
    \<and> rd_seq r' cs t \<and> rd_buf r' = rd_buf r"
proof -
  obtain r1 where r1: "abk_cbor_read_int r = ROk k r1" "rd_seq r1 (sint_item v # cs) t"
    "rd_buf r1 = rd_buf r"
    using rd_seq_int [OF assms(1)] by auto
  from rd_seq_int [OF r1(2)] obtain r2
    where "abk_cbor_read_int r1 = ROk v r2" "rd_seq r2 cs t" "rd_buf r2 = rd_buf r1" by auto
  with r1 assms(2) show ?thesis by (auto simp: cose_member_def rd_monad cose_consts)
qed

lemma cose_member_point:
  assumes "rd_seq r (sint_item k # CBytes bs # cs) t" "k = -2 \<or> k = -3" "length bs = 32"
  shows "\<exists>r'. cose_member d a r = ROk
      (if k = -2 then a\<lparr>ck_x := bs, ck_have_x := True\<rparr> else a\<lparr>ck_y := bs, ck_have_y := True\<rparr>) r'
    \<and> rd_seq r' cs t \<and> rd_buf r' = rd_buf r"
proof -
  obtain r1 where r1: "abk_cbor_read_int r = ROk k r1" "rd_seq r1 (CBytes bs # cs) t"
    "rd_buf r1 = rd_buf r"
    using rd_seq_int [OF assms(1)] by auto
  from rd_seq_bytes [OF r1(2)] obtain s r2
    where r2: "abk_cbor_read_bytes r1 = ROk s r2" "rd_seq r2 cs t" "rd_buf r2 = rd_buf r1"
      "slice_bytes r2 s = bs" "unat (sl_len s) = 32" using assms(3) by auto
  then have "sl_len s = 32" by (simp add: word_unat_eq_iff)
  with r1 r2 assms(2) show ?thesis by (auto simp: cose_member_def rd_monad)
qed

lemma cose_member_skip:
  assumes "rd_seq r (sint_item k # c # cs) t" "k \<notin> {1, -1, -2, -3}" "cbor_depth c \<le> d"
  shows "\<exists>r'. cose_member d a r = ROk a r' \<and> rd_seq r' cs t \<and> rd_buf r' = rd_buf r"
proof -
  obtain r1 where r1: "abk_cbor_read_int r = ROk k r1" "rd_seq r1 (c # cs) t"
    "rd_buf r1 = rd_buf r"
    using rd_seq_int [OF assms(1)] by auto
  have "abk_cbor_skip d r1 = ROk () (past c r1)"
    using skip_item [OF assms(3)] r1(2) by (simp add: rd_seq_Cons)
  with r1 assms(2) rd_seq_past [OF r1(2)] show ?thesis
    by (auto simp: cose_member_def rd_monad)
qed

lemma cose_item_flat:
  "cose_item pub alg = CMap [(sint_item 1, sint_item 2), (sint_item 3, sint_item alg),
     (sint_item (-1), sint_item 1), (sint_item (-2), CBytes (take 32 pub)),
     (sint_item (-3), CBytes (drop 32 pub))]"
  by (simp add: cose_item_def sint_item_small)

lemma sint_item_depth [simp]: "cbor_depth (sint_item v) = 1"
  by (simp add: sint_item_def)

lemma read_cose_item:
  assumes "rd_at r (cose_item pub alg) t" "length pub = 64" "0 < d"
  shows "\<exists>r'. abk_cbor_read_cose_p256_xy d r = ROk pub r' \<and> rd_ok r' \<and> rd_rest r' = t"
proof -
  let ?x = "take 32 pub" and ?y = "drop 32 pub"
  from read_map_at [OF assms(1) [unfolded cose_item_flat]] obtain r0 where
    map: "abk_cbor_read_map r = ROk 5 r0" and
    seq: "rd_seq r0 [sint_item 1, sint_item 2, sint_item 3, sint_item alg, sint_item (-1), sint_item 1,
       sint_item (-2), CBytes ?x, sint_item (-3), CBytes ?y] t"
    by auto
  from cose_member_int [OF seq] obtain r1 where
    1: "cose_member d cose_start r0 = ROk (cose_start\<lparr>ck_have_kty := True\<rparr>) r1" and
    s1: "rd_seq r1 [sint_item 3, sint_item alg, sint_item (-1), sint_item 1,
       sint_item (-2), CBytes ?x, sint_item (-3), CBytes ?y] t" by auto
  let ?a1 = "cose_start\<lparr>ck_have_kty := True\<rparr>"
  let ?a2 = "?a1\<lparr>ck_have_crv := True\<rparr>"
  let ?a3 = "?a2\<lparr>ck_x := ?x, ck_have_x := True\<rparr>"
  let ?a4 = "?a3\<lparr>ck_y := ?y, ck_have_y := True\<rparr>"
  have skip: "(3 :: u64) \<notin> {1, - 1, - 2, - 3}" "cbor_depth (sint_item alg) \<le> d"
    using assms(3) by simp_all
  from cose_member_skip [OF s1 skip, of ?a1] obtain r2 where
    2: "cose_member d ?a1 r1 = ROk ?a1 r2" and
    s2: "rd_seq r2 [sint_item (-1), sint_item 1, sint_item (-2), CBytes ?x, sint_item (-3), CBytes ?y] t"
    by blast
  from cose_member_int [OF s2, of d ?a1] obtain r3 where
    3: "cose_member d ?a1 r2 = ROk ?a2 r3" and
    s3: "rd_seq r3 [sint_item (-2), CBytes ?x, sint_item (-3), CBytes ?y] t" by auto
  have len: "length ?x = 32" "length ?y = 32" using assms(2) by simp_all
  from cose_member_point [OF s3 _ len(1), of d ?a2] obtain r4 where
    4: "cose_member d ?a2 r3 = ROk ?a3 r4" and
    s4: "rd_seq r4 [sint_item (-3), CBytes ?y] t" by auto
  from cose_member_point [OF s4 _ len(2), of d ?a3] obtain r5 where
    5: "cose_member d ?a3 r4 = ROk ?a4 r5" and
    s5: "rd_seq r5 [] t" by auto
  have "abk_cbor_read_cose_p256_xy d r = ROk pub r5"
    by (simp add: abk_cbor_read_cose_p256_xy_def rd_monad map 1 2 3 4 5)
  with s5 show ?thesis by (auto simp: rd_seq_def)
qed

text \<open>
  C35. A key written by \<open>abk_fido_encode_cose_key\<close> reads back: for every 64-byte point the
  encoder succeeds, fills 77 bytes of the caller's 128-byte array (so the 1536 it declares is
  never reached), and \<open>abk_cbor_read_cose_p256_xy\<close> on those bytes, whatever follows them,
  returns the same point and stops right after them.
\<close>

theorem cose_key_roundtrip:
  assumes "length pub = 64" "length out = 128" "length t < 2 ^ 62" "0 < d"
  shows "\<exists>buf r'. abk_fido_encode_cose_key pub ABK_FIDO_COSE_ALG_ES256 out = (None, buf, 77)
    \<and> abk_cbor_read_cose_p256_xy d (abk_fido_reader (take 77 buf @ t)) = ROk pub r'
    \<and> rd_rest r' = t"
proof -
  let ?c = "cose_item pub ABK_FIDO_COSE_ALG_ES256"
  have len: "length (cbor_enc ?c) = 77" using length_cose_item(2) assms(1) by blast
  from encode_cose_key_built [OF assms(1), of 128 out ABK_FIDO_COSE_ALG_ES256] assms(2) len
  obtain buf where enc: "abk_fido_encode_cose_key pub ABK_FIDO_COSE_ALG_ES256 out = (None, buf, 77)"
    and buf: "take 77 buf = cbor_enc ?c" by auto
  have "rd_at (abk_fido_reader (take 77 buf @ t)) ?c t"
    unfolding rd_at_def using assms(3) len by (simp add: buf rd_ok_reader)
  from read_cose_item [OF this assms(1,4)] enc show ?thesis by blast
qed

theorem cose_key_roundtrip_witness:
  "\<exists>buf r'. abk_fido_encode_cose_key (replicate 64 7) ABK_FIDO_COSE_ALG_ES256 (replicate 128 0)
      = (None, buf, 77)
    \<and> abk_cbor_read_cose_p256_xy 1 (abk_fido_reader (take 77 buf @ [0xa0])) = ROk (replicate 64 7) r'
    \<and> rd_rest r' = [0xa0]"
  by (rule cose_key_roundtrip) simp_all

end
