(* ===== verification/Cbor_Safety.thy ===== *)
theory Cbor_Safety
  imports Cose_Key
begin

unbundle bit_operations_syntax

section \<open>What holds after every successful read\<close>

text \<open>
  For arbitrary bytes, the eight-byte string lengths included, a successful read leaves a
  well-formed reader (its position inside the buffer), and a string it returned that is
  shorter than 2^62 bytes lies inside the buffer, so copying it copies that many bytes.
  \<open>okres Q x\<close> states this of one outcome with a fact \<open>Q\<close> about the value; the rules in
  \<open>rd_safe\<close> carry it through binds and loops, for the parsers to build on.
\<close>

named_theorems rd_safe \<open>outcomes of reads\<close>

definition okres :: "('a \<Rightarrow> abk_cbor_reader \<Rightarrow> bool) \<Rightarrow> 'a rd \<Rightarrow> bool" where
  "okres Q x \<longleftrightarrow> (case x of ROk a r \<Rightarrow> rd_ok r \<and> Q a r | RErr e \<Rightarrow> True | RDeep \<Rightarrow> True)"

lemma okresD: "okres Q x \<Longrightarrow> x = ROk a r \<Longrightarrow> rd_ok r \<and> Q a r"
  by (simp add: okres_def)

lemma okres_simps [simp]:
  "okres Q (ROk a r) \<longleftrightarrow> rd_ok r \<and> Q a r" "okres Q (RErr e)" "okres Q RDeep"
  by (simp_all add: okres_def)

lemma okres_mono: "okres Q x \<Longrightarrow> (\<And>a r. rd_ok r \<Longrightarrow> Q a r \<Longrightarrow> R a r) \<Longrightarrow> okres R x"
  by (cases x) auto

lemma okres_rbind:
  "okres Q (m r) \<Longrightarrow> (\<And>a r'. rd_ok r' \<Longrightarrow> Q a r' \<Longrightarrow> okres R (f a r')) \<Longrightarrow> okres R (rbind m f r)"
  by (cases "m r") (auto simp: rbind_def)

lemma okres_loop:
  "(\<And>s r. P s \<Longrightarrow> rd_ok r \<Longrightarrow> okres (\<lambda>s' r'. P s') (f s r)) \<Longrightarrow> P s \<Longrightarrow> rd_ok r \<Longrightarrow>
     okres (\<lambda>s' r'. P s') (rd_loop n f s r)"
proof (induction n arbitrary: s r)
  case 0
  then show ?case by simp
next
  case (Suc n)
  have one: "okres (\<lambda>s' r'. P s') (f s r)" by (rule Suc.prems(1) [OF Suc.prems(2,3)])
  show ?case
  proof (cases "f s r")
    case (ROk s' r')
    with one have "rd_ok r'" "P s'" by simp_all
    with Suc.IH [OF Suc.prems(1)] ROk show ?thesis by simp
  qed simp_all
qed

lemma okres_return: "rd_ok r \<Longrightarrow> Q a r \<Longrightarrow> okres Q (rreturn a r)"
  by (simp add: rreturn_def)

lemma okres_fail: "okres Q (rfail e r)"
  by (simp add: rfail_def)

lemma rd_ok_move:
  "rd_ok r \<Longrightarrow> p \<le> rd_len r \<Longrightarrow> rd_ok (r\<lparr>rd_pos := p\<rparr>)"
  using rd_ok_len [of r] by (auto simp: rd_ok_def word_le_nat_alt)

subsection \<open>The reading routines\<close>

lemma okres_u64 [rd_safe]: "rd_ok r \<Longrightarrow> okres (\<lambda>_ _. True) (abk_cbor_read_u64 ai r)"
  by (auto simp: abk_cbor_read_u64_def not_less intro!: rd_ok_move)

lemma okres_head [rd_safe]: "rd_ok r \<Longrightarrow> okres (\<lambda>_ _. True) (abk_cbor_read_head r)"
proof -
  assume r: "rd_ok r"
  have "rd_ok (r\<lparr>rd_pos := rd_pos r + 1\<rparr>)" if "\<not> rd_pos r \<ge> rd_len r"
    using r that inc_le [of "rd_pos r" "rd_len r"] by (intro rd_ok_move) (simp_all add: not_le)
  then show ?thesis
    unfolding abk_cbor_read_head_def Let_def
    by (auto intro!: okres_rbind [OF okres_u64] okres_return)
qed

lemma okres_uint [rd_safe]: "rd_ok r \<Longrightarrow> okres (\<lambda>_ _. True) (abk_cbor_read_uint r)"
  unfolding abk_cbor_read_uint_def
  by (rule okres_rbind [OF okres_head]) (auto intro: okres_return okres_fail)

lemma okres_int [rd_safe]: "rd_ok r \<Longrightarrow> okres (\<lambda>_ _. True) (abk_cbor_read_int r)"
  unfolding abk_cbor_read_int_def
  by (rule okres_rbind [OF okres_head]) (auto intro: okres_return okres_fail)

lemma okres_bool [rd_safe]: "rd_ok r \<Longrightarrow> okres (\<lambda>_ _. True) (abk_cbor_read_bool r)"
  unfolding abk_cbor_read_bool_def
  by (rule okres_rbind [OF okres_head]) (auto intro: okres_return okres_fail)

lemma okres_map [rd_safe]: "rd_ok r \<Longrightarrow> okres (\<lambda>_ _. True) (abk_cbor_read_map r)"
  unfolding abk_cbor_read_map_def
  by (rule okres_rbind [OF okres_head]) (auto intro: okres_return okres_fail)

lemma okres_array [rd_safe]: "rd_ok r \<Longrightarrow> okres (\<lambda>_ _. True) (abk_cbor_read_array r)"
  unfolding abk_cbor_read_array_def
  by (rule okres_rbind [OF okres_head]) (auto intro: okres_return okres_fail)

text \<open>A slice of fewer than 2^62 bytes is inside the buffer.\<close>

definition slice_in :: "abk_fido_slice \<Rightarrow> abk_cbor_reader \<Rightarrow> bool" where
  "slice_in sl r \<longleftrightarrow> (unat (sl_len sl) < 2 ^ 62 \<longrightarrow> length (slice_bytes r sl) = unat (sl_len sl))"

lemma okres_slice: "rd_ok r \<Longrightarrow> okres slice_in (rd_slice m r)"
  unfolding rd_slice_def
proof (rule okres_rbind [OF okres_head], assumption, clarsimp simp: not_less)
  fix len and r' :: abk_cbor_reader
  assume ok: "rd_ok r'" and room: "rd_pos r' + len \<le> rd_len r'"
  have "slice_in \<lparr>sl_off = rd_pos r', sl_len = len\<rparr> (r'\<lparr>rd_pos := rd_pos r' + len\<rparr>)"
    unfolding slice_in_def
  proof
    assume "unat (sl_len \<lparr>sl_off = rd_pos r', sl_len = len\<rparr>) < 2 ^ 62"
    then have "unat len < 2 ^ 63" by simp
    with rd_room_iff [OF ok, of "unat len"] room have "unat len \<le> length (rd_rest r')"
      by (simp add: linorder_not_less [symmetric])
    then show "length (slice_bytes (r'\<lparr>rd_pos := rd_pos r' + len\<rparr>) \<lparr>sl_off = rd_pos r', sl_len = len\<rparr>)
        = unat (sl_len \<lparr>sl_off = rd_pos r', sl_len = len\<rparr>)"
      by (simp add: slice_bytes_def field_at_def length_rd_rest)
  qed
  with ok room show "rd_ok (r'\<lparr>rd_pos := rd_pos r' + len\<rparr>)
      \<and> slice_in \<lparr>sl_off = rd_pos r', sl_len = len\<rparr> (r'\<lparr>rd_pos := rd_pos r' + len\<rparr>)"
    by (simp add: rd_ok_move)
qed

lemma okres_bytes [rd_safe]: "rd_ok r \<Longrightarrow> okres slice_in (abk_cbor_read_bytes r)"
  by (simp add: abk_cbor_read_bytes_def okres_slice)

lemma okres_text [rd_safe]: "rd_ok r \<Longrightarrow> okres slice_in (abk_cbor_read_text r)"
  by (simp add: abk_cbor_read_text_def okres_slice)

lemma okres_skip [rd_safe]: "rd_ok r \<Longrightarrow> okres (\<lambda>_ _. True) (abk_cbor_skip d r)"
proof (induction d arbitrary: r)
  case 0
  then show ?case by simp
next
  case (Suc d)
  have two: "okres (\<lambda>_ _. True) (rbind (abk_cbor_skip d) (\<lambda>_. abk_cbor_skip d) r')"
    if "rd_ok r'" for r'
    using Suc.IH that by (blast intro: okres_rbind)
  have loops: "okres (\<lambda>_ _. True) (rd_loop n (\<lambda>_. abk_cbor_skip d) () r')"
    "okres (\<lambda>_ _. True) (rd_loop n (\<lambda>_. rbind (abk_cbor_skip d) (\<lambda>_. abk_cbor_skip d)) () r')"
    if "rd_ok r'" for n r'
    using okres_loop [of "\<lambda>_. True" _ "()" r' n] Suc.IH two that by simp_all
  show ?case
    unfolding abk_cbor_skip.simps
    by (rule okres_rbind, rule okres_head, rule Suc.prems)
      (auto simp: not_less loops intro!: okres_return okres_fail rd_ok_move)
qed

text \<open>A COSE key gives 64 bytes.\<close>

definition cose_acc_ok :: "cose_acc \<Rightarrow> bool" where
  "cose_acc_ok a \<longleftrightarrow> length (ck_x a) = 32 \<and> length (ck_y a) = 32"

lemma okres_cose_member: "cose_acc_ok a \<Longrightarrow> rd_ok r \<Longrightarrow> okres (\<lambda>a' _. cose_acc_ok a') (cose_member d a r)"
  unfolding cose_member_def
  by (rule okres_rbind [OF okres_int], assumption)
    (auto simp: cose_acc_ok_def slice_in_def
      intro!: okres_rbind [OF okres_int] okres_rbind [OF okres_bytes] okres_rbind [OF okres_skip] okres_return)

lemma okres_cose [rd_safe]:
  "rd_ok r \<Longrightarrow> okres (\<lambda>xy _. length xy = 64) (abk_cbor_read_cose_p256_xy d r)"
  unfolding abk_cbor_read_cose_p256_xy_def
proof (rule okres_rbind [OF okres_map], assumption)
  fix count and r' :: abk_cbor_reader
  assume r': "rd_ok r'"
  have "cose_acc_ok cose_start" by (simp add: cose_acc_ok_def cose_start_def)
  note loop = okres_loop [of cose_acc_ok "cose_member d", OF okres_cose_member this r']
  show "okres (\<lambda>xy _. length xy = 64)
    (rbind (rd_loop (unat count) (cose_member d) cose_start)
       (\<lambda>a. if \<not> ck_have_kty a \<or> \<not> ck_have_crv a \<or> \<not> ck_have_x a \<or> \<not> ck_have_y a
            then rfail EINVAL else rreturn (ck_x a @ ck_y a)) r')"
    by (rule okres_rbind, rule loop, assumption+) (auto simp: cose_acc_ok_def intro: okres_return okres_fail)
qed

subsection \<open>Binds over each routine\<close>

lemma okres_bind_int:
  "rd_ok r \<Longrightarrow> (\<And>a r'. rd_ok r' \<Longrightarrow> okres R (f a r')) \<Longrightarrow> okres R (rbind abk_cbor_read_int f r)"
  by (rule okres_rbind, rule okres_int) auto

lemma okres_bind_uint:
  "rd_ok r \<Longrightarrow> (\<And>a r'. rd_ok r' \<Longrightarrow> okres R (f a r')) \<Longrightarrow> okres R (rbind abk_cbor_read_uint f r)"
  by (rule okres_rbind, rule okres_uint) auto

lemma okres_bind_bool:
  "rd_ok r \<Longrightarrow> (\<And>a r'. rd_ok r' \<Longrightarrow> okres R (f a r')) \<Longrightarrow> okres R (rbind abk_cbor_read_bool f r)"
  by (rule okres_rbind, rule okres_bool) auto

lemma okres_bind_map:
  "rd_ok r \<Longrightarrow> (\<And>a r'. rd_ok r' \<Longrightarrow> okres R (f a r')) \<Longrightarrow> okres R (rbind abk_cbor_read_map f r)"
  by (rule okres_rbind, rule okres_map) auto

lemma okres_bind_array:
  "rd_ok r \<Longrightarrow> (\<And>a r'. rd_ok r' \<Longrightarrow> okres R (f a r')) \<Longrightarrow> okres R (rbind abk_cbor_read_array f r)"
  by (rule okres_rbind, rule okres_array) auto

lemma okres_bind_skip:
  "rd_ok r \<Longrightarrow> (\<And>a r'. rd_ok r' \<Longrightarrow> okres R (f a r')) \<Longrightarrow> okres R (rbind (abk_cbor_skip d) f r)"
  by (rule okres_rbind, rule okres_skip) auto

lemma okres_bind_bytes:
  "rd_ok r \<Longrightarrow> (\<And>a r'. rd_ok r' \<Longrightarrow> slice_in a r' \<Longrightarrow> okres R (f a r')) \<Longrightarrow>
     okres R (rbind abk_cbor_read_bytes f r)"
  by (rule okres_rbind, rule okres_bytes) auto

lemma okres_bind_text:
  "rd_ok r \<Longrightarrow> (\<And>a r'. rd_ok r' \<Longrightarrow> slice_in a r' \<Longrightarrow> okres R (f a r')) \<Longrightarrow>
     okres R (rbind abk_cbor_read_text f r)"
  by (rule okres_rbind, rule okres_text) auto

lemma okres_bind_cose:
  "rd_ok r \<Longrightarrow> (\<And>a r'. rd_ok r' \<Longrightarrow> length a = 64 \<Longrightarrow> okres R (f a r')) \<Longrightarrow>
     okres R (rbind (abk_cbor_read_cose_p256_xy d) f r)"
  by (rule okres_rbind, rule okres_cose) auto

lemma okres_if:
  "(c \<Longrightarrow> okres Q x) \<Longrightarrow> (\<not> c \<Longrightarrow> okres Q y) \<Longrightarrow> okres Q (if c then x else y)"
  by simp

lemma okres_if_fun:
  "(c \<Longrightarrow> okres Q (m r)) \<Longrightarrow> (\<not> c \<Longrightarrow> okres Q (n r)) \<Longrightarrow> okres Q ((if c then m else n) r)"
  by simp

lemmas okres_binds = okres_bind_int okres_bind_uint okres_bind_bool okres_bind_map okres_bind_array
  okres_bind_skip okres_bind_bytes okres_bind_text okres_bind_cose okres_if okres_if_fun
  okres_return okres_fail

end
