(* ===== verification/Kernel_Lib.thy ===== *)
theory Kernel_Lib
  imports Abk_Prelude
begin

section \<open>The kernel libraries the driver calls\<close>

text \<open>
  What the driver uses of the kernel's checksum, crypto and elliptic-curve libraries is not
  part of the repository: it is a parameter of the model, one record of functions passed to
  every definition that calls them.  Errors are the errno values those calls may return.
  The wrappers of \<open>core.c\<close> around them follow.
\<close>

record klib =
  kl_crc32_le :: "u32 \<Rightarrow> u8 list \<Rightarrow> u32"
  kl_alloc_tfm :: "string \<Rightarrow> ret"
  kl_mem_ok :: bool
  kl_shash_setkey :: "string \<Rightarrow> u8 list \<Rightarrow> ret"
  kl_shash_digest :: "string \<Rightarrow> u8 list \<Rightarrow> u8 list \<Rightarrow> errno + u8 list"
  kl_skcipher_setkey :: "u8 list \<Rightarrow> ret"
  kl_cbc_aes :: "bool \<Rightarrow> u8 list \<Rightarrow> u8 list \<Rightarrow> u8 list \<Rightarrow> errno + u8 list"
  kl_kpp_set_secret :: "u8 list \<Rightarrow> ret"
  kl_kpp_run :: "bool \<Rightarrow> u8 list \<Rightarrow> u8 list \<Rightarrow> errno + u8 list"
  kl_ecc_gen_privkey :: "nat \<Rightarrow> errno + u64 list"
  kl_ecc_make_pub_key :: "u64 list \<Rightarrow> errno + u64 list"
  kl_curve_n :: "u64 list"
  kl_vli_cmp :: "u64 list \<Rightarrow> u64 list \<Rightarrow> int"
  kl_vli_sub :: "u64 list \<Rightarrow> u64 list \<Rightarrow> u64 list"
  kl_vli_is_zero :: "u64 list \<Rightarrow> bool"
  kl_vli_mod_mult_slow :: "u64 list \<Rightarrow> u64 list \<Rightarrow> u64 list \<Rightarrow> u64 list"
  kl_vli_mod_inv :: "u64 list \<Rightarrow> u64 list \<Rightarrow> u64 list"
  kl_ecc_swap_digits :: "u8 list \<Rightarrow> nat \<Rightarrow> u64 list"
  kl_stack :: "nat \<Rightarrow> u8 list"

text \<open>
  \<open>kl_mem_ok\<close> says whether the small heap allocations of a call succeed; \<open>kl_stack n\<close> is
  what an uninitialised local array of \<open>n\<close> bytes happens to hold.
\<close>

definition SHA256_DIGEST_SIZE :: nat where
  "SHA256_DIGEST_SIZE = 32"

definition AES_BLOCK_SIZE :: nat where
  "AES_BLOCK_SIZE = 16"

definition abk_fido_shash_digest :: "klib \<Rightarrow> string \<Rightarrow> u8 list \<Rightarrow> errno + u8 list" where
  "abk_fido_shash_digest K alg data =
     (case kl_alloc_tfm K alg of
        Some e \<Rightarrow> Inl e
      | None \<Rightarrow> if \<not> kl_mem_ok K then Inl ENOMEM else kl_shash_digest K alg [] data)"

definition abk_fido_sha256 :: "klib \<Rightarrow> u8 list \<Rightarrow> errno + u8 list" where
  "abk_fido_sha256 K data = abk_fido_shash_digest K ''sha256'' data"

definition abk_fido_hmac_sha256 :: "klib \<Rightarrow> u8 list \<Rightarrow> u8 list \<Rightarrow> errno + u8 list" where
  "abk_fido_hmac_sha256 K key data =
     (case kl_alloc_tfm K ''hmac(sha256)'' of
        Some e \<Rightarrow> Inl e
      | None \<Rightarrow>
          if \<not> kl_mem_ok K then Inl ENOMEM
          else
            (case kl_shash_setkey K ''hmac(sha256)'' key of
               Some e \<Rightarrow> Inl e
             | None \<Rightarrow> kl_shash_digest K ''hmac(sha256)'' key data))"

text \<open>In place: \<open>Inr\<close> is the buffer afterwards.\<close>

definition abk_fido_aes256_cbc ::
    "klib \<Rightarrow> u8 list \<Rightarrow> u8 list \<Rightarrow> u8 list \<Rightarrow> bool \<Rightarrow> errno + u8 list" where
  "abk_fido_aes256_cbc K key iv inout encrypt =
     (if length inout = 0 \<or> length inout mod AES_BLOCK_SIZE \<noteq> 0 then Inl EINVAL
      else
        (case kl_alloc_tfm K ''cbc(aes)'' of
           Some e \<Rightarrow> Inl e
         | None \<Rightarrow>
             if \<not> kl_mem_ok K then Inl ENOMEM
             else
               (case kl_skcipher_setkey K key of
                  Some e \<Rightarrow> Inl e
                | None \<Rightarrow> kl_cbc_aes K encrypt key iv inout)))"

definition abk_fido_hmac_zero_iv :: "u8 list" where
  "abk_fido_hmac_zero_iv = replicate 16 0"

definition abk_fido_kpp_run_sync :: "klib \<Rightarrow> bool \<Rightarrow> u8 list \<Rightarrow> u8 list \<Rightarrow> errno + u8 list" where
  "abk_fido_kpp_run_sync K compute_shared priv inp =
     (if \<not> kl_mem_ok K then Inl ENOMEM else kl_kpp_run K compute_shared priv inp)"

definition abk_fido_ecdh_p256 :: "klib \<Rightarrow> u8 list \<Rightarrow> u8 list \<Rightarrow> errno + u8 list" where
  "abk_fido_ecdh_p256 K priv peer_xy =
     (case kl_alloc_tfm K ''ecdh-nist-p256'' of
        Some e \<Rightarrow> Inl e
      | None \<Rightarrow>
          (case kl_kpp_set_secret K priv of
             Some e \<Rightarrow> Inl e
           | None \<Rightarrow>
               (case abk_fido_kpp_run_sync K True priv peer_xy of
                  Inl e \<Rightarrow> Inl e
                | Inr raw_x \<Rightarrow> abk_fido_sha256 K raw_x)))"

subsection \<open>A concrete instance\<close>

text \<open>The number a digit list stands for.\<close>

fun vli_val :: "u64 list \<Rightarrow> nat" where
  "vli_val [] = 0"
| "vli_val (d # ds) = unat d + 2 ^ 64 * vli_val ds"

text \<open>The \<open>n\<close> digits of a number.\<close>

fun vli_of :: "nat \<Rightarrow> nat \<Rightarrow> u64 list" where
  "vli_of 0 v = []"
| "vli_of (Suc n) v = word_of_nat v # vli_of n (v div 2 ^ 64)"

lemma length_vli_of [simp]: "length (vli_of n v) = n"
  by (induction n arbitrary: v) simp_all

lemma vli_val_of: "vli_val (vli_of n v) = v mod 2 ^ (64 * n)"
proof (induction n arbitrary: v)
  case (Suc n)
  have "v mod 2 ^ (64 * Suc n) = 2 ^ 64 * (v div 2 ^ 64 mod 2 ^ (64 * n)) + v mod 2 ^ 64"
    using mod_mult2_eq [of v "2 ^ 64" "2 ^ (64 * n)"] by (simp add: power_add)
  with Suc show ?case by (simp add: unat_of_nat)
qed simp

text \<open>
  One total choice of the library functions, for evaluating the model on examples: checksums
  add bytes up, digests and ciphers copy, every call succeeds.
\<close>

definition sample_klib :: klib where
  "sample_klib = \<lparr>kl_crc32_le = (\<lambda>seed bs. foldl (\<lambda>a b. a + ucast b) seed bs),
     kl_alloc_tfm = (\<lambda>_. None), kl_mem_ok = True, kl_shash_setkey = (\<lambda>_ _. None),
     kl_shash_digest = (\<lambda>_ key bs. Inr (take 32 (key @ bs @ replicate 32 0))),
     kl_skcipher_setkey = (\<lambda>_. None), kl_cbc_aes = (\<lambda>_ _ _ bs. Inr bs),
     kl_kpp_set_secret = (\<lambda>_. None), kl_kpp_run = (\<lambda>_ _ peer. Inr (take 32 peer)),
     kl_ecc_gen_privkey = (\<lambda>n. Inr [1, 0, 0, 0]),
     kl_ecc_make_pub_key = (\<lambda>k. Inr (k @ k)), kl_curve_n = [-1, -1, -1, -1],
     kl_vli_cmp = (\<lambda>a b. int (vli_val a) - int (vli_val b)),
     kl_vli_sub = (\<lambda>a b. vli_of 4 (vli_val a + 2 ^ 256 - vli_val b)), kl_vli_is_zero = (\<lambda>a. \<forall>x\<in>set a. x = 0),
     kl_vli_mod_mult_slow = (\<lambda>a b n. a), kl_vli_mod_inv = (\<lambda>a n. a),
     kl_ecc_swap_digits = (\<lambda>bs n. map (\<lambda>i. word_of_nat (be_val (field_at (8 * (n - 1 - i)) 8 bs))) [0..<n]),
     kl_stack = (\<lambda>n. replicate n 0xcc)\<rparr>"

end
