(* ===== verification/Credential_Store.thy ===== *)
theory Credential_Store
  imports Kernel_Lib
begin

unbundle bit_operations_syntax

section \<open>The credential store and its on-disk image\<close>

text \<open>
  The in-memory store (\<open>struct abk_fido_store\<close>), the on-disk layouts of versions 1 and 2 and
  the conversions between them.  A layout is a record; its memory image, the byte list the
  CRC and the file see, is \<open>disk_image\<close>, and casting a buffer to the struct is \<open>disk_view\<close>.
  A field of type \<open>__le32\<close> is held as the number it encodes.
\<close>

definition ABK_FIDO_MAX_RP_ID :: nat where "ABK_FIDO_MAX_RP_ID = 128"
definition ABK_FIDO_MAX_USER_ID :: nat where "ABK_FIDO_MAX_USER_ID = 64"
definition ABK_FIDO_MAX_USER_NAME :: nat where "ABK_FIDO_MAX_USER_NAME = 64"
definition ABK_FIDO_MAX_CREDS :: nat where "ABK_FIDO_MAX_CREDS = 32"
definition ABK_FIDO_HMAC_SECRET_LEN :: nat where "ABK_FIDO_HMAC_SECRET_LEN = 32"
definition ABK_FIDO_STORE_MAGIC :: u32 where "ABK_FIDO_STORE_MAGIC = 0x41424646"
definition ABK_FIDO_STORE_VERSION :: u32 where "ABK_FIDO_STORE_VERSION = 2"
definition ABK_FIDO_STORE_VERSION_LEGACY :: u32 where "ABK_FIDO_STORE_VERSION_LEGACY = 1"
definition ABK_FIDO_PIN_RETRIES_DEFAULT :: u8 where "ABK_FIDO_PIN_RETRIES_DEFAULT = 8"

lemmas store_consts = ABK_FIDO_MAX_RP_ID_def ABK_FIDO_MAX_USER_ID_def ABK_FIDO_MAX_USER_NAME_def
  ABK_FIDO_MAX_CREDS_def ABK_FIDO_HMAC_SECRET_LEN_def ABK_FIDO_STORE_MAGIC_def
  ABK_FIDO_STORE_VERSION_def ABK_FIDO_STORE_VERSION_LEGACY_def ABK_FIDO_PIN_RETRIES_DEFAULT_def

subsection \<open>In memory\<close>

record abk_fido_credential =
  cr_in_use :: bool
  cr_resident :: bool
  cr_cred_id :: "u8 list"
  cr_user_id :: "u8 list"
  cr_user_id_len :: u8
  cr_rp_id :: "u8 list"
  cr_user_name :: "u8 list"
  cr_user_display :: "u8 list"
  cr_priv_key :: "u8 list"
  cr_pub_key :: "u8 list"
  cr_hmac_secret :: "u8 list"

record abk_fido_store =
  st_pin_set :: bool
  st_aaguid :: "u8 list"
  st_pin_hash :: "u8 list"
  st_pin_token :: "u8 list"
  st_pin_retries :: u8
  st_sign_count :: u32
  st_creds :: "abk_fido_credential list"

definition zero_credential :: abk_fido_credential where
  "zero_credential = \<lparr>cr_in_use = False, cr_resident = False, cr_cred_id = replicate 32 0,
     cr_user_id = replicate ABK_FIDO_MAX_USER_ID 0, cr_user_id_len = 0,
     cr_rp_id = replicate ABK_FIDO_MAX_RP_ID 0,
     cr_user_name = replicate ABK_FIDO_MAX_USER_NAME 0,
     cr_user_display = replicate ABK_FIDO_MAX_USER_NAME 0, cr_priv_key = replicate 32 0,
     cr_pub_key = replicate 64 0, cr_hmac_secret = replicate ABK_FIDO_HMAC_SECRET_LEN 0\<rparr>"

definition zero_store :: abk_fido_store where
  "zero_store = \<lparr>st_pin_set = False, st_aaguid = replicate 16 0, st_pin_hash = replicate 16 0,
     st_pin_token = replicate 32 0, st_pin_retries = 0, st_sign_count = 0,
     st_creds = replicate ABK_FIDO_MAX_CREDS zero_credential\<rparr>"

definition abk_fido_count_credentials_locked :: "abk_fido_store \<Rightarrow> nat" where
  "abk_fido_count_credentials_locked s =
     fold (\<lambda>i count. if cr_in_use (st_creds s ! i) then count + 1 else count)
       [0..<ABK_FIDO_MAX_CREDS] 0"

subsection \<open>On disk\<close>

record abk_fido_store_disk_cred_v1 =
  dc_in_use :: u8
  dc_resident :: u8
  dc_user_id_len :: u8
  dc_reserved0 :: u8
  dc_cred_id :: "u8 list"
  dc_user_id :: "u8 list"
  dc_rp_id :: "u8 list"
  dc_user_name :: "u8 list"
  dc_user_display :: "u8 list"
  dc_priv_key :: "u8 list"
  dc_pub_key :: "u8 list"

record abk_fido_store_disk_cred = abk_fido_store_disk_cred_v1 +
  dc_hmac_secret :: "u8 list"

record 'c store_disk_layout =
  dk_magic :: u32
  dk_version :: u32
  dk_crc32 :: u32
  dk_sign_count :: u32
  dk_aaguid :: "u8 list"
  dk_pin_set :: u8
  dk_pin_retries :: u8
  dk_reserved1 :: "u8 list"
  dk_pin_hash :: "u8 list"
  dk_pin_token :: "u8 list"
  dk_creds :: "'c list"

type_synonym abk_fido_store_disk = "abk_fido_store_disk_cred store_disk_layout"
type_synonym abk_fido_store_disk_v1 = "abk_fido_store_disk_cred_v1 store_disk_layout"

definition cred_v1_image :: "'a abk_fido_store_disk_cred_v1_scheme \<Rightarrow> u8 list" where
  "cred_v1_image dc = [dc_in_use dc, dc_resident dc, dc_user_id_len dc, dc_reserved0 dc]
     @ dc_cred_id dc @ dc_user_id dc @ dc_rp_id dc @ dc_user_name dc @ dc_user_display dc
     @ dc_priv_key dc @ dc_pub_key dc"

definition cred_image :: "abk_fido_store_disk_cred \<Rightarrow> u8 list" where
  "cred_image dc = cred_v1_image dc @ dc_hmac_secret dc"

definition cred_v1_view :: "u8 list \<Rightarrow> abk_fido_store_disk_cred_v1" where
  "cred_v1_view bs = \<lparr>dc_in_use = bs ! 0, dc_resident = bs ! 1, dc_user_id_len = bs ! 2,
     dc_reserved0 = bs ! 3, dc_cred_id = field_at 4 32 bs, dc_user_id = field_at 36 64 bs,
     dc_rp_id = field_at 100 128 bs, dc_user_name = field_at 228 64 bs,
     dc_user_display = field_at 292 64 bs, dc_priv_key = field_at 356 32 bs,
     dc_pub_key = field_at 388 64 bs\<rparr>"

definition cred_view :: "u8 list \<Rightarrow> abk_fido_store_disk_cred" where
  "cred_view bs = abk_fido_store_disk_cred_v1.extend (cred_v1_view bs)
     (abk_fido_store_disk_cred.fields (field_at 452 32 bs))"

definition disk_image :: "('c \<Rightarrow> u8 list) \<Rightarrow> 'c store_disk_layout \<Rightarrow> u8 list" where
  "disk_image ci d = le32_bytes (dk_magic d) @ le32_bytes (dk_version d) @ le32_bytes (dk_crc32 d)
     @ le32_bytes (dk_sign_count d) @ dk_aaguid d @ [dk_pin_set d, dk_pin_retries d]
     @ dk_reserved1 d @ dk_pin_hash d @ dk_pin_token d @ concat (map ci (dk_creds d))"

definition disk_view :: "(u8 list \<Rightarrow> 'c) \<Rightarrow> nat \<Rightarrow> u8 list \<Rightarrow> 'c store_disk_layout" where
  "disk_view cv w bs = \<lparr>dk_magic = le32_val (field_at 0 4 bs), dk_version = le32_val (field_at 4 4 bs),
     dk_crc32 = le32_val (field_at 8 4 bs), dk_sign_count = le32_val (field_at 12 4 bs),
     dk_aaguid = field_at 16 16 bs, dk_pin_set = bs ! 32, dk_pin_retries = bs ! 33,
     dk_reserved1 = field_at 34 2 bs, dk_pin_hash = field_at 36 16 bs,
     dk_pin_token = field_at 52 32 bs,
     dk_creds = map (\<lambda>i. cv (field_at (i * w) w (drop 84 bs))) [0..<ABK_FIDO_MAX_CREDS]\<rparr>"

definition SIZEOF_STORE_DISK :: nat where
  "SIZEOF_STORE_DISK = 84 + 32 * 484"

definition SIZEOF_STORE_DISK_V1 :: nat where
  "SIZEOF_STORE_DISK_V1 = 84 + 32 * 452"

definition OFFSETOF_SIGN_COUNT :: nat where
  "OFFSETOF_SIGN_COUNT = 12"

definition store_disk_bytes :: "abk_fido_store_disk \<Rightarrow> u8 list" where
  "store_disk_bytes = disk_image cred_image"

definition store_disk_of :: "u8 list \<Rightarrow> abk_fido_store_disk" where
  "store_disk_of = disk_view cred_view 484"

definition store_disk_v1_bytes :: "abk_fido_store_disk_v1 \<Rightarrow> u8 list" where
  "store_disk_v1_bytes = disk_image cred_v1_image"

definition store_disk_v1_of :: "u8 list \<Rightarrow> abk_fido_store_disk_v1" where
  "store_disk_v1_of = disk_view cred_v1_view 452"

subsection \<open>Checksums\<close>

definition abk_fido_store_crc32_range :: "klib \<Rightarrow> u8 list \<Rightarrow> u32" where
  "abk_fido_store_crc32_range K base =
     NOT (kl_crc32_le K (NOT 0) (drop OFFSETOF_SIGN_COUNT base))"

definition abk_fido_store_crc32 :: "klib \<Rightarrow> abk_fido_store_disk \<Rightarrow> u32" where
  "abk_fido_store_crc32 K disk = abk_fido_store_crc32_range K (store_disk_bytes disk)"

definition legacy_crc32 :: "klib \<Rightarrow> u8 list \<Rightarrow> u32" where
  "legacy_crc32 K base = kl_crc32_le K 0 (drop OFFSETOF_SIGN_COUNT base)"

subsection \<open>From disk\<close>

text \<open>
  The result: the return code, the store afterwards and the text left in the 96-byte
  \<open>reason\<close> buffer (empty on success).
\<close>

definition terminate_at :: "nat \<Rightarrow> u8 list \<Rightarrow> u8 list" where
  "terminate_at n a = a[n - 1 := 0]"

definition cred_from_disk :: "'a abk_fido_store_disk_cred_v1_scheme \<Rightarrow> u8 list \<Rightarrow> abk_fido_credential" where
  "cred_from_disk dc secret =
     \<lparr>cr_in_use = (dc_in_use dc \<noteq> 0), cr_resident = (dc_resident dc \<noteq> 0),
      cr_cred_id = dc_cred_id dc, cr_user_id = dc_user_id dc,
      cr_user_id_len = min (dc_user_id_len dc) (word_of_nat ABK_FIDO_MAX_USER_ID),
      cr_rp_id = terminate_at ABK_FIDO_MAX_RP_ID (dc_rp_id dc),
      cr_user_name = terminate_at ABK_FIDO_MAX_USER_NAME (dc_user_name dc),
      cr_user_display = terminate_at ABK_FIDO_MAX_USER_NAME (dc_user_display dc),
      cr_priv_key = dc_priv_key dc, cr_pub_key = dc_pub_key dc, cr_hmac_secret = secret\<rparr>"

definition store_from_layout ::
    "('c \<Rightarrow> abk_fido_credential) \<Rightarrow> 'c store_disk_layout \<Rightarrow> abk_fido_store" where
  "store_from_layout cf disk = \<lparr>st_pin_set = (dk_pin_set disk \<noteq> 0), st_aaguid = dk_aaguid disk,
     st_pin_hash = dk_pin_hash disk, st_pin_token = dk_pin_token disk,
     st_pin_retries = dk_pin_retries disk, st_sign_count = dk_sign_count disk,
     st_creds = map cf (dk_creds disk)\<rparr>"

definition bad_magic_reason :: "u32 \<Rightarrow> string" where
  "bad_magic_reason m = snprintf_to 96 (''invalid store magic 0x'' @ hex_str (unat m))"

definition bad_version_reason :: "u32 \<Rightarrow> string" where
  "bad_version_reason v = snprintf_to 96 (''invalid store version '' @ dec_str (unat v))"

definition bad_crc_reason :: "u32 \<Rightarrow> u32 \<Rightarrow> u32 \<Rightarrow> string" where
  "bad_crc_reason stored calc legacy = snprintf_to 96
     (''invalid store crc stored=0x'' @ hex_pad 8 (unat stored) @ '' calc=0x'' @ hex_pad 8 (unat calc)
      @ '' legacy=0x'' @ hex_pad 8 (unat legacy))"

definition abk_fido_store_from_disk_into ::
    "klib \<Rightarrow> abk_fido_store_disk \<Rightarrow> abk_fido_store \<Rightarrow> ret \<times> abk_fido_store \<times> string" where
  "abk_fido_store_from_disk_into K disk store =
     (if dk_magic disk \<noteq> ABK_FIDO_STORE_MAGIC then
        (Some EINVAL, store, bad_magic_reason (dk_magic disk))
      else if dk_version disk \<noteq> ABK_FIDO_STORE_VERSION then
        (Some EINVAL, store, bad_version_reason (dk_version disk))
      else
        (let crc = abk_fido_store_crc32 K disk;
             legacy = legacy_crc32 K (store_disk_bytes disk)
         in
           if crc \<noteq> dk_crc32 disk \<and> legacy \<noteq> dk_crc32 disk then
             (Some EILSEQ, store, bad_crc_reason (dk_crc32 disk) crc legacy)
           else
             (None, store_from_layout (\<lambda>dc. cred_from_disk dc (dc_hmac_secret dc)) disk, '''')))"

definition abk_fido_store_from_disk_v1_into ::
    "klib \<Rightarrow> abk_fido_store_disk_v1 \<Rightarrow> abk_fido_store \<Rightarrow> ret \<times> abk_fido_store \<times> string" where
  "abk_fido_store_from_disk_v1_into K disk store =
     (if dk_magic disk \<noteq> ABK_FIDO_STORE_MAGIC then
        (Some EINVAL, store, bad_magic_reason (dk_magic disk))
      else if dk_version disk \<noteq> ABK_FIDO_STORE_VERSION_LEGACY then
        (Some EINVAL, store, bad_version_reason (dk_version disk))
      else
        (let crc = abk_fido_store_crc32_range K (store_disk_v1_bytes disk);
             legacy = legacy_crc32 K (store_disk_v1_bytes disk)
         in
           if crc \<noteq> dk_crc32 disk \<and> legacy \<noteq> dk_crc32 disk then
             (Some EILSEQ, store, bad_crc_reason (dk_crc32 disk) crc legacy)
           else
             (None, store_from_layout
                (\<lambda>dc. cred_from_disk dc (replicate ABK_FIDO_HMAC_SECRET_LEN 0)) disk, '''')))"

subsection \<open>To disk\<close>

definition cred_to_disk :: "abk_fido_credential \<Rightarrow> abk_fido_store_disk_cred" where
  "cred_to_disk sc =
     \<lparr>dc_in_use = (if cr_in_use sc then 1 else 0), dc_resident = (if cr_resident sc then 1 else 0),
      dc_user_id_len = cr_user_id_len sc, dc_reserved0 = 0, dc_cred_id = cr_cred_id sc,
      dc_user_id = cr_user_id sc,
      dc_rp_id = strscpy (replicate ABK_FIDO_MAX_RP_ID 0) (cr_rp_id sc),
      dc_user_name = strscpy (replicate ABK_FIDO_MAX_USER_NAME 0) (cr_user_name sc),
      dc_user_display = strscpy (replicate ABK_FIDO_MAX_USER_NAME 0) (cr_user_display sc),
      dc_priv_key = cr_priv_key sc, dc_pub_key = cr_pub_key sc, dc_hmac_secret = cr_hmac_secret sc\<rparr>"

definition abk_fido_store_to_disk :: "klib \<Rightarrow> abk_fido_store \<Rightarrow> abk_fido_store_disk" where
  "abk_fido_store_to_disk K s =
     (let disk = \<lparr>dk_magic = ABK_FIDO_STORE_MAGIC, dk_version = ABK_FIDO_STORE_VERSION, dk_crc32 = 0,
            dk_sign_count = st_sign_count s, dk_aaguid = st_aaguid s,
            dk_pin_set = (if st_pin_set s then 1 else 0), dk_pin_retries = st_pin_retries s,
            dk_reserved1 = [0, 0], dk_pin_hash = st_pin_hash s, dk_pin_token = st_pin_token s,
            dk_creds = map cred_to_disk (st_creds s)\<rparr>
      in disk\<lparr>dk_crc32 := abk_fido_store_crc32 K disk\<rparr>)"

subsection \<open>Well-formed stores\<close>

definition cred_ok :: "abk_fido_credential \<Rightarrow> bool" where
  "cred_ok c \<longleftrightarrow> length (cr_cred_id c) = 32 \<and> length (cr_user_id c) = 64
     \<and> cr_user_id_len c \<le> 64
     \<and> length (cr_rp_id c) = 128 \<and> has_nul (cr_rp_id c)
     \<and> length (cr_user_name c) = 64 \<and> has_nul (cr_user_name c)
     \<and> length (cr_user_display c) = 64 \<and> has_nul (cr_user_display c)
     \<and> length (cr_priv_key c) = 32 \<and> length (cr_pub_key c) = 64 \<and> length (cr_hmac_secret c) = 32"

definition store_ok :: "abk_fido_store \<Rightarrow> bool" where
  "store_ok s \<longleftrightarrow> length (st_aaguid s) = 16 \<and> length (st_pin_hash s) = 16
     \<and> length (st_pin_token s) = 32 \<and> length (st_creds s) = 32 \<and> list_all cred_ok (st_creds s)"

definition disk_cred_v1_ok :: "'a abk_fido_store_disk_cred_v1_scheme \<Rightarrow> bool" where
  "disk_cred_v1_ok dc \<longleftrightarrow> length (dc_cred_id dc) = 32 \<and> length (dc_user_id dc) = 64
     \<and> length (dc_rp_id dc) = 128 \<and> length (dc_user_name dc) = 64
     \<and> length (dc_user_display dc) = 64 \<and> length (dc_priv_key dc) = 32
     \<and> length (dc_pub_key dc) = 64"

definition disk_cred_ok :: "abk_fido_store_disk_cred \<Rightarrow> bool" where
  "disk_cred_ok dc \<longleftrightarrow> disk_cred_v1_ok dc \<and> length (dc_hmac_secret dc) = 32"

definition layout_ok :: "('c \<Rightarrow> bool) \<Rightarrow> 'c store_disk_layout \<Rightarrow> bool" where
  "layout_ok ok d \<longleftrightarrow> length (dk_aaguid d) = 16 \<and> length (dk_reserved1 d) = 2
     \<and> length (dk_pin_hash d) = 16 \<and> length (dk_pin_token d) = 32
     \<and> length (dk_creds d) = 32 \<and> list_all ok (dk_creds d)"

subsection \<open>Images and views\<close>

lemma length_cred_v1_image: "disk_cred_v1_ok dc \<Longrightarrow> length (cred_v1_image dc) = 452"
  by (simp add: cred_v1_image_def disk_cred_v1_ok_def)

lemma length_cred_image: "disk_cred_ok dc \<Longrightarrow> length (cred_image dc) = 484"
  by (simp add: cred_image_def disk_cred_ok_def length_cred_v1_image)

lemma cred_v1_view_image:
  "disk_cred_v1_ok dc \<Longrightarrow> cred_v1_view (cred_v1_image dc @ t) = abk_fido_store_disk_cred_v1.truncate dc"
  by (simp add: cred_v1_view_def cred_v1_image_def disk_cred_v1_ok_def
      abk_fido_store_disk_cred_v1.defs nth_append)

lemma cred_v1_view_whole:
  fixes dc :: abk_fido_store_disk_cred_v1
  assumes "disk_cred_v1_ok dc"
  shows "cred_v1_view (cred_v1_image dc) = dc"
  using cred_v1_view_image [OF assms, of "[]"]
  by (cases dc) (simp add: abk_fido_store_disk_cred_v1.defs)

lemma cred_view_image: "disk_cred_ok dc \<Longrightarrow> cred_view (cred_image dc) = dc"
  using cred_v1_view_image [of dc "dc_hmac_secret dc"] length_cred_v1_image [of dc]
  by (simp add: cred_view_def cred_image_def disk_cred_ok_def abk_fido_store_disk_cred_v1.defs
      abk_fido_store_disk_cred.defs)

lemma disk_view_image:
  assumes "layout_ok ok d" "\<And>c. ok c \<Longrightarrow> length (ci c) = w" "\<And>c. ok c \<Longrightarrow> cv (ci c) = c"
  shows "disk_view cv w (disk_image ci d) = d"
proof -
  have len: "\<And>c. c \<in> set (dk_creds d) \<Longrightarrow> length (ci c) = w"
    and restored: "\<And>c. c \<in> set (dk_creds d) \<Longrightarrow> cv (ci c) = c"
    using assms by (auto simp: layout_ok_def list_all_iff)
  have n: "length (dk_creds d) = 32" using assms(1) by (simp add: layout_ok_def)
  have "map (\<lambda>i. cv (field_at (i * w) w (concat (map ci (dk_creds d))))) [0..<32] = dk_creds d"
    using n by (intro nth_equalityI) (simp_all add: concat_map_chunk [OF len] restored)
  then show ?thesis
    using assms(1)
    by (simp add: disk_view_def disk_image_def layout_ok_def store_consts nth_append)
qed

lemma store_disk_of_bytes: "layout_ok disk_cred_ok d \<Longrightarrow> store_disk_of (store_disk_bytes d) = d"
  unfolding store_disk_of_def store_disk_bytes_def
  by (erule disk_view_image) (simp_all add: length_cred_image cred_view_image)

lemma store_disk_v1_of_bytes:
  "layout_ok disk_cred_v1_ok d \<Longrightarrow> store_disk_v1_of (store_disk_v1_bytes d) = d"
  unfolding store_disk_v1_of_def store_disk_v1_bytes_def
  by (erule disk_view_image) (simp_all add: length_cred_v1_image cred_v1_view_whole)

lemma length_disk_image:
  "layout_ok ok d \<Longrightarrow> (\<And>c. ok c \<Longrightarrow> length (ci c) = w) \<Longrightarrow> length (disk_image ci d) = 84 + 32 * w"
  using length_concat_map_const [of "dk_creds d" ci w]
  by (auto simp: disk_image_def layout_ok_def list_all_iff)

lemma length_store_disk_bytes:
  "layout_ok disk_cred_ok d \<Longrightarrow> length (store_disk_bytes d) = SIZEOF_STORE_DISK"
  unfolding store_disk_bytes_def SIZEOF_STORE_DISK_def
  by (erule length_disk_image) (rule length_cred_image)

subsection \<open>Saving and restoring\<close>

text \<open>
  \<open>store_canon\<close> is the store with the bytes after the first NUL of every name array cleared:
  the part of those arrays no code reads.  Every other field survives as it is.
\<close>

definition pad_str :: "nat \<Rightarrow> u8 list \<Rightarrow> u8 list" where
  "pad_str n a = cstr a @ replicate (n - length (cstr a)) 0"

definition cred_canon :: "abk_fido_credential \<Rightarrow> abk_fido_credential" where
  "cred_canon c = c\<lparr>cr_rp_id := pad_str ABK_FIDO_MAX_RP_ID (cr_rp_id c),
     cr_user_name := pad_str ABK_FIDO_MAX_USER_NAME (cr_user_name c),
     cr_user_display := pad_str ABK_FIDO_MAX_USER_NAME (cr_user_display c)\<rparr>"

definition store_canon :: "abk_fido_store \<Rightarrow> abk_fido_store" where
  "store_canon s = s\<lparr>st_creds := map cred_canon (st_creds s)\<rparr>"

lemma strscpy_pad: "length a = n \<Longrightarrow> has_nul a \<Longrightarrow> strscpy (replicate n 0) a = pad_str n a"
  using length_cstr_less [of a] by (simp add: strscpy_zero pad_str_def)

lemma terminate_pad:
  assumes "length a = n" "has_nul a"
  shows "terminate_at n (pad_str n a) = pad_str n a"
proof -
  have lt: "length (cstr a) < n" using assms length_cstr_less by blast
  then have "\<not> n - 1 < length (cstr a)" "n - 1 - length (cstr a) < n - length (cstr a)" by linarith+
  then have "pad_str n a ! (n - 1) = 0"
    by (simp add: pad_str_def nth_append)
  then show ?thesis by (metis list_update_id terminate_at_def)
qed

lemma cred_to_disk_ok: "cred_ok c \<Longrightarrow> disk_cred_ok (cred_to_disk c)"
  by (simp add: cred_ok_def disk_cred_ok_def disk_cred_v1_ok_def cred_to_disk_def store_consts)

lemma cred_back:
  assumes "cred_ok c"
  shows "cred_from_disk (cred_to_disk c) (dc_hmac_secret (cred_to_disk c)) = cred_canon c"
  using assms
  by (simp add: cred_ok_def cred_from_disk_def cred_to_disk_def cred_canon_def store_consts
      strscpy_pad terminate_pad min_def)

lemma to_disk_layout_ok: "store_ok s \<Longrightarrow> layout_ok disk_cred_ok (abk_fido_store_to_disk K s)"
  by (auto simp: store_ok_def layout_ok_def abk_fido_store_to_disk_def Let_def list_all_iff
      cred_to_disk_ok)

lemma crc_ignores_crc_field:
  "abk_fido_store_crc32 K (d\<lparr>dk_crc32 := x\<rparr>) = abk_fido_store_crc32 K d"
  by (simp add: abk_fido_store_crc32_def abk_fido_store_crc32_range_def store_disk_bytes_def
      disk_image_def OFFSETOF_SIGN_COUNT_def)

lemma to_disk_sealed:
  "dk_crc32 (abk_fido_store_to_disk K s) = abk_fido_store_crc32 K (abk_fido_store_to_disk K s)"
  unfolding abk_fido_store_to_disk_def Let_def crc_ignores_crc_field by simp

lemma store_back:
  assumes "store_ok s"
  shows "store_from_layout (\<lambda>dc. cred_from_disk dc (dc_hmac_secret dc)) (abk_fido_store_to_disk K s)
    = store_canon s"
proof -
  have "map (\<lambda>c. cred_from_disk (cred_to_disk c) (dc_hmac_secret (cred_to_disk c))) (st_creds s)
      = map cred_canon (st_creds s)"
    using assms by (intro map_cong refl cred_back) (simp add: store_ok_def list_all_iff)
  then show ?thesis
    by (simp add: store_from_layout_def abk_fido_store_to_disk_def Let_def store_canon_def o_def)
qed

lemma from_disk_to_disk:
  "store_ok s \<Longrightarrow>
     abk_fido_store_from_disk_into K (abk_fido_store_to_disk K s) s0 = (None, store_canon s, '''')"
  using to_disk_sealed [of K s] store_back [of s K]
  by (simp add: abk_fido_store_from_disk_into_def Let_def)
    (simp add: abk_fido_store_to_disk_def Let_def)

lemma pad_str_pad: "has_nul a \<Longrightarrow> length a = n \<Longrightarrow> cstr (pad_str n a) = cstr a"
  using length_cstr_less [of a] by (cases "n - length (cstr a)") (simp_all add: pad_str_def)

lemma length_pad_str: "length a = n \<Longrightarrow> length (pad_str n a) = n"
  using length_cstr_le [of a] by (simp add: pad_str_def)

lemma has_nul_pad: "length a = n \<Longrightarrow> has_nul a \<Longrightarrow> has_nul (pad_str n a)"
  using length_cstr_less [of a] by (auto simp: pad_str_def has_nul_def)

lemma cred_ok_canon [wf_intros]: "cred_ok c \<Longrightarrow> cred_ok (cred_canon c)"
  by (simp add: cred_ok_def cred_canon_def store_consts length_pad_str has_nul_pad)

lemma store_ok_canon [wf_intros]: "store_ok s \<Longrightarrow> store_ok (store_canon s)"
  by (auto simp: store_ok_def store_canon_def list_all_iff cred_ok_canon)

lemma has_nul_terminate: "length a = n \<Longrightarrow> 0 < n \<Longrightarrow> has_nul (terminate_at n a)"
  unfolding has_nul_def terminate_at_def by (rule set_update_memI) simp

lemma cred_from_disk_ok [wf_intros]:
  "disk_cred_v1_ok dc \<Longrightarrow> length secret = 32 \<Longrightarrow> cred_ok (cred_from_disk dc secret)"
  by (simp add: cred_ok_def disk_cred_v1_ok_def cred_from_disk_def store_consts has_nul_terminate
      terminate_at_def [THEN arg_cong [where f = length]] min_le_iff_disj)

lemma store_ok_zero [wf_intros]: "store_ok zero_store"
  by (simp add: store_ok_def zero_store_def zero_credential_def cred_ok_def store_consts has_nul_def
      list_all_iff)

lemma store_from_layout_ok:
  assumes "layout_ok ok d" "\<And>c. ok c \<Longrightarrow> cred_ok (cf c)"
  shows "store_ok (store_from_layout cf d)"
  using assms by (auto simp: store_ok_def layout_ok_def store_from_layout_def list_all_iff)

subsection \<open>A codec for stores\<close>

text \<open>
  What persistence relies on: decoding what was encoded gives the state back up to a
  normalisation that a second round trip no longer changes.
\<close>

locale blob_codec =
  fixes enc :: "'s \<Rightarrow> 'b"
    and dec :: "'b \<Rightarrow> 's option"
    and good :: "'s \<Rightarrow> bool"
    and norm :: "'s \<Rightarrow> 's"
  assumes dec_enc: "good s \<Longrightarrow> dec (enc s) = Some (norm s)"
    and good_norm: "good s \<Longrightarrow> good (norm s)"
    and norm_norm: "good s \<Longrightarrow> norm (norm s) = norm s"
begin

fun cycles :: "nat \<Rightarrow> 's \<Rightarrow> 's option" where
  "cycles 0 s = Some s"
| "cycles (Suc n) s = (case dec (enc s) of None \<Rightarrow> None | Some s' \<Rightarrow> cycles n s')"

lemma cycles_norm: "good s \<Longrightarrow> norm s = s \<Longrightarrow> cycles n s = Some s"
  by (induction n) (simp_all add: dec_enc)

text \<open>However often the state is saved and restored, it does not drift.\<close>

lemma cycles_stable: "good s \<Longrightarrow> cycles (Suc n) s = Some (norm s)"
  by (simp add: dec_enc cycles_norm good_norm norm_norm)

end

definition store_blob :: "klib \<Rightarrow> abk_fido_store \<Rightarrow> u8 list" where
  "store_blob K s = store_disk_bytes (abk_fido_store_to_disk K s)"

definition store_of_blob :: "klib \<Rightarrow> u8 list \<Rightarrow> abk_fido_store option" where
  "store_of_blob K blob =
     (case abk_fido_store_from_disk_into K (store_disk_of blob) zero_store of
        (None, s, reason) \<Rightarrow> Some s
      | (Some e, s, reason) \<Rightarrow> None)"

lemma store_disk_of_blob: "store_ok s \<Longrightarrow> store_disk_of (store_blob K s) = abk_fido_store_to_disk K s"
  by (simp add: store_blob_def store_disk_of_bytes to_disk_layout_ok)

lemma length_store_blob: "store_ok s \<Longrightarrow> length (store_blob K s) = SIZEOF_STORE_DISK"
  by (simp add: store_blob_def length_store_disk_bytes to_disk_layout_ok)

lemma pad_str_idem: "has_nul a \<Longrightarrow> length a = n \<Longrightarrow> pad_str n (pad_str n a) = pad_str n a"
  using pad_str_pad [of a n] by (simp add: pad_str_def)

lemma cred_canon_idem: "cred_ok c \<Longrightarrow> cred_canon (cred_canon c) = cred_canon c"
  by (simp add: cred_canon_def cred_ok_def store_consts pad_str_idem)

lemma store_canon_idem: "store_ok s \<Longrightarrow> store_canon (store_canon s) = store_canon s"
  by (simp add: store_canon_def store_ok_def list_all_iff cred_canon_idem)

interpretation sc: blob_codec "store_blob K" "store_of_blob K" store_ok store_canon for K
  by unfold_locales
    (simp_all add: store_of_blob_def store_disk_of_blob from_disk_to_disk store_ok_canon store_canon_idem)

subsection \<open>What the store format guarantees\<close>

text \<open>
  C13. The store survives the disk format: the image of every well-formed store is 15572
  bytes long, and reading it back, in any number of save and restore cycles, gives the same
  store up to the unread bytes behind the terminators of its names.
\<close>

theorem store_blob_roundtrip:
  assumes "store_ok s"
  shows "length (store_disk_bytes (abk_fido_store_to_disk K s)) = 15572
    \<and> abk_fido_store_from_disk_into K
        (store_disk_of (store_disk_bytes (abk_fido_store_to_disk K s))) s0 = (None, store_canon s, '''')
    \<and> sc.cycles K (Suc n) s = Some (store_canon s)"
  using assms length_store_blob [of s K] sc.cycles_stable [of s K n]
  by (simp add: store_blob_def SIZEOF_STORE_DISK_def store_disk_of_bytes to_disk_layout_ok
      from_disk_to_disk del: sc.cycles.simps)

theorem store_blob_roundtrip_witness:
  "abk_fido_store_from_disk_into sample_klib
     (store_disk_of (store_disk_bytes (abk_fido_store_to_disk sample_klib zero_store))) zero_store
   = (None, store_canon zero_store, '''')"
  using store_blob_roundtrip [OF store_ok_zero, of sample_klib zero_store 0] by blast

text \<open>
  C33. A blob is accepted exactly when magic, version and one of the two checksums match, and
  a rejected blob leaves the store as it was: whatever comes from disk or from userspace, no
  partially restored store is ever seen.
\<close>

theorem store_rejects_untouched:
  "(case abk_fido_store_from_disk_into K disk s of
      (ret, s', reason) \<Rightarrow>
        (ret = None) = (dk_magic disk = ABK_FIDO_STORE_MAGIC \<and> dk_version disk = ABK_FIDO_STORE_VERSION
          \<and> dk_crc32 disk \<in> {abk_fido_store_crc32 K disk, legacy_crc32 K (store_disk_bytes disk)})
        \<and> s' = (if ret = None
             then store_from_layout (\<lambda>dc. cred_from_disk dc (dc_hmac_secret dc)) disk else s)
        \<and> ret \<in> {None, Some EINVAL, Some EILSEQ})"
  by (auto simp: abk_fido_store_from_disk_into_def Let_def)

subsection \<open>Version 1 blobs\<close>

text \<open>
  The blob an older driver writes for a store: the same layout without the secrets, version 1,
  sealed by \<open>seal\<close>, one of the two checksum forms that were in use.
\<close>

definition store_to_disk_v1 :: "(u8 list \<Rightarrow> u32) \<Rightarrow> abk_fido_store \<Rightarrow> abk_fido_store_disk_v1" where
  "store_to_disk_v1 seal s =
     (let disk = \<lparr>dk_magic = ABK_FIDO_STORE_MAGIC, dk_version = ABK_FIDO_STORE_VERSION_LEGACY,
            dk_crc32 = 0, dk_sign_count = st_sign_count s, dk_aaguid = st_aaguid s,
            dk_pin_set = (if st_pin_set s then 1 else 0), dk_pin_retries = st_pin_retries s,
            dk_reserved1 = [0, 0], dk_pin_hash = st_pin_hash s, dk_pin_token = st_pin_token s,
            dk_creds = map (\<lambda>c. abk_fido_store_disk_cred_v1.truncate (cred_to_disk c)) (st_creds s)\<rparr>
      in disk\<lparr>dk_crc32 := seal (store_disk_v1_bytes disk)\<rparr>)"

definition without_secrets :: "abk_fido_store \<Rightarrow> abk_fido_store" where
  "without_secrets s = s\<lparr>st_creds :=
     map (\<lambda>c. c\<lparr>cr_hmac_secret := replicate 32 0\<rparr>) (st_creds s)\<rparr>"

lemma cred_back_v1:
  assumes "cred_ok c"
  shows "cred_from_disk (abk_fido_store_disk_cred_v1.truncate (cred_to_disk c)) secret
    = (cred_canon c)\<lparr>cr_hmac_secret := secret\<rparr>"
proof -
  have "cred_from_disk (abk_fido_store_disk_cred_v1.truncate dc) secret
      = (cred_from_disk dc old)\<lparr>cr_hmac_secret := secret\<rparr>"
    for dc :: abk_fido_store_disk_cred and old
    by (simp add: cred_from_disk_def abk_fido_store_disk_cred_v1.defs)
  then show ?thesis using cred_back [OF assms] by metis
qed

lemma drop_crc_v1:
  "drop OFFSETOF_SIGN_COUNT (store_disk_v1_bytes (d\<lparr>dk_crc32 := x\<rparr>))
     = drop OFFSETOF_SIGN_COUNT (store_disk_v1_bytes d)"
  by (simp add: store_disk_v1_bytes_def disk_image_def OFFSETOF_SIGN_COUNT_def)

lemma to_disk_v1_layout_ok: "store_ok s \<Longrightarrow> layout_ok disk_cred_v1_ok (store_to_disk_v1 seal s)"
  using cred_to_disk_ok
  by (auto simp: store_ok_def layout_ok_def store_to_disk_v1_def Let_def list_all_iff
      disk_cred_ok_def disk_cred_v1_ok_def abk_fido_store_disk_cred_v1.defs)

lemma from_disk_v1_to_disk:
  assumes "store_ok s" "seal = abk_fido_store_crc32_range K \<or> seal = legacy_crc32 K"
  shows "abk_fido_store_from_disk_v1_into K (store_to_disk_v1 seal s) s0
    = (None, without_secrets (store_canon s), '''')"
proof -
  have seal: "seal (store_disk_v1_bytes (d\<lparr>dk_crc32 := x\<rparr>)) = seal (store_disk_v1_bytes d)" for d x
    using assms(2) by (auto simp: abk_fido_store_crc32_range_def legacy_crc32_def drop_crc_v1)
  then have "dk_crc32 (store_to_disk_v1 seal s) = seal (store_disk_v1_bytes (store_to_disk_v1 seal s))"
    unfolding store_to_disk_v1_def Let_def seal by (simp only: store_disk_layout.simps)
  moreover have "map (\<lambda>c. cred_from_disk (abk_fido_store_disk_cred_v1.truncate (cred_to_disk c))
        (replicate 32 0)) (st_creds s)
      = map (\<lambda>c. (cred_canon c)\<lparr>cr_hmac_secret := replicate 32 0\<rparr>) (st_creds s)"
    using assms(1) by (intro map_cong refl cred_back_v1) (simp add: store_ok_def list_all_iff)
  then have "store_from_layout (\<lambda>dc. cred_from_disk dc (replicate ABK_FIDO_HMAC_SECRET_LEN 0))
      (store_to_disk_v1 seal s) = without_secrets (store_canon s)"
    by (simp add: store_from_layout_def store_to_disk_v1_def Let_def without_secrets_def
        store_canon_def o_def store_consts)
  moreover have "dk_magic (store_to_disk_v1 seal s) = ABK_FIDO_STORE_MAGIC"
    "dk_version (store_to_disk_v1 seal s) = ABK_FIDO_STORE_VERSION_LEGACY"
    by (simp_all add: store_to_disk_v1_def Let_def)
  ultimately show ?thesis
    using assms(2) by (auto simp: abk_fido_store_from_disk_v1_into_def Let_def)
qed

text \<open>
  C36. A version 1 blob upgrades without loss: whichever of the two checksum forms sealed it,
  the version 1 loader accepts the image of every well-formed store and restores every field,
  with the \<open>hmac-secret\<close> of each credential all zero.
\<close>

theorem v1_blob_upgrade:
  assumes "store_ok s" "seal = abk_fido_store_crc32_range K \<or> seal = legacy_crc32 K"
  shows "abk_fido_store_from_disk_v1_into K
      (store_disk_v1_of (store_disk_v1_bytes (store_to_disk_v1 seal s))) s0
    = (None, without_secrets (store_canon s), '''')"
  using from_disk_v1_to_disk [OF assms] store_disk_v1_of_bytes [OF to_disk_v1_layout_ok [OF assms(1)]]
  by simp

theorem v1_blob_upgrade_witness:
  "abk_fido_store_from_disk_v1_into sample_klib (store_disk_v1_of (store_disk_v1_bytes
      (store_to_disk_v1 (legacy_crc32 sample_klib) zero_store))) zero_store
    = (None, without_secrets (store_canon zero_store), '''')"
  by (rule v1_blob_upgrade [OF store_ok_zero]) simp

end
