(* ===== verification/Device_State.thy ===== *)
theory Device_State
  imports Credential_Store
begin

section \<open>The device (\<open>struct abk_fido_device\<close>) and its surroundings\<close>

text \<open>
  The driver keeps one global \<open>abk_fido_dev\<close> behind a mutex.  It is the record \<open>abk_fido_device\<close>
  here, and an operation that runs with the mutex held takes it and returns it updated.  Not
  part of the record: the mutex and the wait queue (an operation is one step), the kobject
  and the function instances.  The text fields \<open>last_error\<close>, \<open>last_trace\<close>, \<open>attach_state\<close>,
  \<open>hid_name\<close> and \<open>udc_name\<close> are strings; everything the code does with them is printing.  A
  transport (\<open>struct abk_fido_usb *\<close>) is either the bound gadget function or the
  character-device transport.
\<close>

definition ABK_FIDO_MAX_MSG :: nat where "ABK_FIDO_MAX_MSG = 2048"
definition ABK_FIDO_MAX_CHANNELS :: nat where "ABK_FIDO_MAX_CHANNELS = 4"
definition ABK_FIDO_AUTH_CACHE_MS :: nat where "ABK_FIDO_AUTH_CACHE_MS = 3000"
definition ABK_FIDO_AUTH_DENY_MS :: nat where "ABK_FIDO_AUTH_DENY_MS = 3000"
definition ABK_FIDO_ASSERT_WINDOW_MS :: nat where "ABK_FIDO_ASSERT_WINDOW_MS = 30000"
definition ABK_FIDO_STORE_PATH :: string where "ABK_FIDO_STORE_PATH = ''/metadata/abk_fido_store.bin''"

record abk_fido_channel =
  ch_in_use :: bool
  ch_cancelled :: bool
  ch_cid :: u32
  ch_cmd :: u8
  ch_next_seq :: u8
  ch_expected_len :: u16
  ch_received_len :: u16
  ch_msg :: "u8 list"

definition zero_channel :: abk_fido_channel where
  "zero_channel = \<lparr>ch_in_use = False, ch_cancelled = False, ch_cid = 0, ch_cmd = 0, ch_next_seq = 0,
     ch_expected_len = 0, ch_received_len = 0, ch_msg = replicate ABK_FIDO_MAX_MSG 0\<rparr>"

datatype usb_ref = UsbGadget | UsbUser

record abk_fido_device =
  dv_store :: abk_fido_store
  dv_channels :: "abk_fido_channel list"
  dv_store_loaded :: bool
  dv_store_dirty :: bool
  dv_bound :: bool
  dv_next_cid :: u32
  dv_store_generation :: u32
  dv_hid_name :: string
  dv_udc_name :: string
  dv_last_error :: string
  dv_last_trace :: string
  dv_attach_state :: string
  dv_auth_usb :: "usb_ref option"
  dv_auth_cid :: u32
  dv_auth_keepalive_armed :: bool
  dv_auth_pending :: bool
  dv_auth_decided :: bool
  dv_auth_allowed :: bool
  dv_auth_request_id :: u32
  dv_auth_pending_ctap_cmd :: u8
  dv_auth_pending_uv :: bool
  dv_auth_pending_rk :: bool
  dv_auth_pending_rp_id :: "u8 list"
  dv_auth_cache_valid :: bool
  dv_auth_cache_expires :: u64
  dv_auth_deny_valid :: bool
  dv_auth_deny_expires :: u64
  dv_assert_valid :: bool
  dv_assert_expires :: u64
  dv_assert_count :: nat
  dv_assert_next :: nat
  dv_assert_slots :: "nat list"
  dv_assert_client_data_hash :: "u8 list"
  dv_assert_rp_id :: "u8 list"
  dv_store_blob_staging :: "u8 list option"
  dv_store_blob_staging_len :: nat
  dv_usb :: "usb_ref option"

text \<open>The static initialiser: everything zero, the first channel id 1.\<close>

definition abk_fido_dev_initial :: abk_fido_device where
  "abk_fido_dev_initial =
     \<lparr>dv_store = zero_store, dv_channels = replicate ABK_FIDO_MAX_CHANNELS zero_channel,
      dv_store_loaded = False, dv_store_dirty = False, dv_bound = False, dv_next_cid = 1,
      dv_store_generation = 0, dv_hid_name = '''', dv_udc_name = '''', dv_last_error = '''',
      dv_last_trace = '''', dv_attach_state = ''not_configured'', dv_auth_usb = None, dv_auth_cid = 0,
      dv_auth_keepalive_armed = False, dv_auth_pending = False, dv_auth_decided = False,
      dv_auth_allowed = False, dv_auth_request_id = 0, dv_auth_pending_ctap_cmd = 0,
      dv_auth_pending_uv = False, dv_auth_pending_rk = False,
      dv_auth_pending_rp_id = replicate ABK_FIDO_MAX_RP_ID 0, dv_auth_cache_valid = False,
      dv_auth_cache_expires = 0, dv_auth_deny_valid = False, dv_auth_deny_expires = 0,
      dv_assert_valid = False, dv_assert_expires = 0, dv_assert_count = 0, dv_assert_next = 0,
      dv_assert_slots = replicate ABK_FIDO_MAX_CREDS 0, dv_assert_client_data_hash = replicate 32 0,
      dv_assert_rp_id = replicate ABK_FIDO_MAX_RP_ID 0, dv_store_blob_staging = None,
      dv_store_blob_staging_len = 0, dv_usb = None\<rparr>"

subsection \<open>What a call finds around it\<close>

text \<open>
  \<open>kenv\<close> fixes what the kernel answers during one operation: the build option for
  persistence, \<open>jiffies\<close>, the bytes \<open>get_random_bytes\<close> puts in the named buffer, whether
  the allocations of the store code and of a request record and the
  credentials are to be had, and how file operations fail, if they do.
\<close>

record kenv =
  env_persist :: bool
  env_now :: u64
  env_msecs :: "nat \<Rightarrow> u64"
  env_random :: "string \<Rightarrow> nat \<Rightarrow> u8 list"
  env_alloc_ok :: bool
  env_req_ok :: bool
  env_cred_ok :: bool
  env_open_err :: ret
  env_read_err :: ret
  env_write :: "errno + nat"

text \<open>An instance for examples: time 1000, one tick per millisecond, nothing fails.\<close>

definition sample_env :: kenv where
  "sample_env = \<lparr>env_persist = True, env_now = 1000, env_msecs = word_of_nat,
     env_random = (\<lambda>name n. replicate n 0x5a), env_alloc_ok = True, env_req_ok = True, env_cred_ok = True,
     env_open_err = None, env_read_err = None, env_write = Inr SIZEOF_STORE_DISK\<rparr>"

text \<open>\<open>time_before(a, b)\<close> compares by the sign of the wrapped difference.\<close>

definition time_before :: "u64 \<Rightarrow> u64 \<Rightarrow> bool" where
  "time_before a b \<longleftrightarrow> sint (a - b) < 0"

definition time_after_eq :: "u64 \<Rightarrow> u64 \<Rightarrow> bool" where
  "time_after_eq a b \<longleftrightarrow> 0 \<le> sint (a - b)"

definition abk_fido_set_last_trace_locked :: "string \<Rightarrow> abk_fido_device \<Rightarrow> abk_fido_device" where
  "abk_fido_set_last_trace_locked s d = d\<lparr>dv_last_trace := snprintf_to 256 s\<rparr>"

definition abk_fido_set_attach_state_locked :: "string \<Rightarrow> abk_fido_device \<Rightarrow> abk_fido_device" where
  "abk_fido_set_attach_state_locked s d = d\<lparr>dv_attach_state := snprintf_to 64 s\<rparr>"

definition set_last_error :: "string \<Rightarrow> abk_fido_device \<Rightarrow> abk_fido_device" where
  "set_last_error s d = d\<lparr>dv_last_error := snprintf_to 160 s\<rparr>"

text \<open>\<open>x[0] ? x : y\<close> on strings.\<close>

definition str_or :: "string \<Rightarrow> string \<Rightarrow> string" where
  "str_or x y = (if x = '''' then y else x)"

text \<open>
  Setting a trace or an error touches nothing else; the simplifier sees through both with
  these projections.
\<close>

lemma set_last_trace_simps [simp]:
  "dv_store (abk_fido_set_last_trace_locked s d) = dv_store d"
  "dv_store_dirty (abk_fido_set_last_trace_locked s d) = dv_store_dirty d"
  "dv_store_loaded (abk_fido_set_last_trace_locked s d) = dv_store_loaded d"
  "dv_store_generation (abk_fido_set_last_trace_locked s d) = dv_store_generation d"
  "dv_last_error (abk_fido_set_last_trace_locked s d) = dv_last_error d"
  "dv_auth_pending (abk_fido_set_last_trace_locked s d) = dv_auth_pending d"
  "dv_auth_decided (abk_fido_set_last_trace_locked s d) = dv_auth_decided d"
  "dv_auth_allowed (abk_fido_set_last_trace_locked s d) = dv_auth_allowed d"
  "dv_auth_request_id (abk_fido_set_last_trace_locked s d) = dv_auth_request_id d"
  "dv_auth_cache_valid (abk_fido_set_last_trace_locked s d) = dv_auth_cache_valid d"
  "dv_auth_cache_expires (abk_fido_set_last_trace_locked s d) = dv_auth_cache_expires d"
  "dv_auth_deny_valid (abk_fido_set_last_trace_locked s d) = dv_auth_deny_valid d"
  "dv_auth_deny_expires (abk_fido_set_last_trace_locked s d) = dv_auth_deny_expires d"
  "dv_last_trace (abk_fido_set_last_trace_locked s d) = snprintf_to 256 s"
  by (simp_all add: abk_fido_set_last_trace_locked_def)

lemma set_last_error_simps [simp]:
  "dv_store (set_last_error s d) = dv_store d"
  "dv_store_dirty (set_last_error s d) = dv_store_dirty d"
  "dv_store_loaded (set_last_error s d) = dv_store_loaded d"
  "dv_store_generation (set_last_error s d) = dv_store_generation d"
  "dv_auth_pending (set_last_error s d) = dv_auth_pending d"
  "dv_auth_decided (set_last_error s d) = dv_auth_decided d"
  "dv_auth_allowed (set_last_error s d) = dv_auth_allowed d"
  "dv_auth_request_id (set_last_error s d) = dv_auth_request_id d"
  "dv_auth_cache_valid (set_last_error s d) = dv_auth_cache_valid d"
  "dv_auth_cache_expires (set_last_error s d) = dv_auth_cache_expires d"
  "dv_auth_deny_valid (set_last_error s d) = dv_auth_deny_valid d"
  "dv_auth_deny_expires (set_last_error s d) = dv_auth_deny_expires d"
  "dv_last_error (set_last_error s d) = snprintf_to 160 s"
  "dv_last_trace (set_last_error s d) = dv_last_trace d"
  by (simp_all add: set_last_error_def)

end
