(* ===== verification/Store_Persistence.thy ===== *)
theory Store_Persistence
  imports Device_State
begin

section \<open>Loading and persisting the store\<close>

text \<open>
  The store file of the driver is a byte list, or \<open>None\<close> when it does not exist.  The file
  helpers run with kernel credentials; opening for writing truncates, and a write may fail
  or stop short.  On top of them: reading and validating the blob, the first load, the
  deferred persist, the reload and the sysfs access to the blob.
\<close>

type_synonym store_file = "u8 list option"

datatype open_flags = O_RDONLY | O_WRONLY_CREAT_TRUNC

definition abk_fido_filp_open_kernel ::
    "kenv \<Rightarrow> open_flags \<Rightarrow> store_file \<Rightarrow> (errno + u8 list) \<times> store_file" where
  "abk_fido_filp_open_kernel E flags f =
     (if \<not> env_cred_ok E then (Inl ENOMEM, f)
      else
        (case env_open_err E of
           Some e \<Rightarrow> (Inl e, f)
         | None \<Rightarrow>
             (case flags of
                O_WRONLY_CREAT_TRUNC \<Rightarrow> (Inr [], Some [])
              | O_RDONLY \<Rightarrow> (case f of None \<Rightarrow> (Inl ENOENT, f) | Some bytes \<Rightarrow> (Inr bytes, f)))))"

definition abk_fido_kernel_read :: "kenv \<Rightarrow> u8 list \<Rightarrow> nat \<Rightarrow> errno + u8 list" where
  "abk_fido_kernel_read E file len =
     (if \<not> env_cred_ok E then Inl ENOMEM
      else (case env_read_err E of Some e \<Rightarrow> Inl e | None \<Rightarrow> Inr (take len file)))"

text \<open>The number of bytes that reached the file, or the error; the file afterwards.\<close>

definition abk_fido_kernel_write :: "kenv \<Rightarrow> u8 list \<Rightarrow> (errno + nat) \<times> u8 list" where
  "abk_fido_kernel_write E data =
     (if \<not> env_cred_ok E then (Inl ENOMEM, [])
      else
        (case env_write E of
           Inl e \<Rightarrow> (Inl e, [])
         | Inr n \<Rightarrow> (Inr (min n (length data)), take n data)))"

subsection \<open>Reading and writing the blob\<close>

definition validation_text :: "string \<Rightarrow> string" where
  "validation_text reason =
     snprintf_to 96 (str_or reason ''restore validation failed'' @ '' ('' @ ABK_FIDO_STORE_PATH @ '')'')"

text \<open>
  \<open>abk_fido_read_store_from_path_locked\<close>: the return code, the device (its dirty flag and
  trace are touched when a version 1 blob is read), the target store and the reason.
\<close>

definition abk_fido_read_store_from_path_locked ::
    "klib \<Rightarrow> kenv \<Rightarrow> store_file \<Rightarrow> abk_fido_store \<Rightarrow> abk_fido_device
     \<Rightarrow> ret \<times> abk_fido_store \<times> string \<times> abk_fido_device" where
  "abk_fido_read_store_from_path_locked K E f store d =
     (case fst (abk_fido_filp_open_kernel E O_RDONLY f) of
        Inl e \<Rightarrow> (Some e, store,
          snprintf_to 96 (''restore open '' @ ABK_FIDO_STORE_PATH @ '' failed: '' @ err_str e), d)
      | Inr bytes \<Rightarrow>
          if \<not> env_alloc_ok E then
            (Some ENOMEM, store,
             snprintf_to 96 (''restore alloc failed for '' @ ABK_FIDO_STORE_PATH @ '': '' @ err_str ENOMEM), d)
          else
            (case abk_fido_kernel_read E bytes SIZEOF_STORE_DISK of
               Inl e \<Rightarrow> (Some e, store,
                 snprintf_to 96 (''restore read '' @ ABK_FIDO_STORE_PATH @ '' failed: '' @ err_str e), d)
             | Inr buf \<Rightarrow>
                 if length buf \<noteq> SIZEOF_STORE_DISK \<and> length buf \<noteq> SIZEOF_STORE_DISK_V1 then
                   (Some EIO, store,
                    snprintf_to 96 (''restore read '' @ ABK_FIDO_STORE_PATH @ '' failed: '' @ err_str EIO), d)
                 else if length buf = SIZEOF_STORE_DISK_V1 then
                   (case abk_fido_store_from_disk_v1_into K (store_disk_v1_of buf) store of
                      (None, store', reason) \<Rightarrow>
                        (None, store', '''',
                         abk_fido_set_last_trace_locked
                           ''v1 store upgraded in memory; next persist writes v2''
                           (d\<lparr>dv_store_dirty := True\<rparr>))
                    | (Some e, store', reason) \<Rightarrow> (Some e, store', validation_text reason, d))
                 else
                   (case abk_fido_store_from_disk_into K (store_disk_of buf) store of
                      (None, store', reason) \<Rightarrow> (None, store', '''', d)
                    | (Some e, store', reason) \<Rightarrow> (Some e, store', validation_text reason, d))))"

definition abk_fido_write_store_to_path_locked ::
    "kenv \<Rightarrow> u8 list \<Rightarrow> store_file \<Rightarrow> ret \<times> string \<times> store_file" where
  "abk_fido_write_store_to_path_locked E blob f =
     (case abk_fido_filp_open_kernel E O_WRONLY_CREAT_TRUNC f of
        (Inl e, f') \<Rightarrow>
          (Some e, snprintf_to 96 (''persist open '' @ ABK_FIDO_STORE_PATH @ '' failed: '' @ err_str e), f')
      | (Inr _, _) \<Rightarrow>
          (case abk_fido_kernel_write E blob of
             (Inl e, bytes) \<Rightarrow>
               (Some e, snprintf_to 96 (''persist write '' @ ABK_FIDO_STORE_PATH @ '' failed: '' @ err_str e),
                Some bytes)
           | (Inr written, bytes) \<Rightarrow>
               if written \<noteq> length blob then
                 (Some EIO, snprintf_to 96 (''persist write '' @ ABK_FIDO_STORE_PATH @ '' failed: '' @ err_str EIO),
                  Some bytes)
               else (None, '''', Some bytes)))"

subsection \<open>Load, persist, restore\<close>

definition abk_fido_finalize_restored_store_locked :: "string \<Rightarrow> abk_fido_device \<Rightarrow> abk_fido_device" where
  "abk_fido_finalize_restored_store_locked success_trace d =
     (let d = d\<lparr>dv_store_dirty := False, dv_last_error := ''''\<rparr> in
      if st_pin_set (dv_store d) then
        abk_fido_set_last_trace_locked (success_trace @ ''; dropped legacy pin state'')
          (d\<lparr>dv_store := (dv_store d)\<lparr>st_pin_set := False, st_pin_hash := replicate 16 0,
               st_pin_retries := ABK_FIDO_PIN_RETRIES_DEFAULT\<rparr>,
             dv_store_dirty := True\<rparr>)
      else abk_fido_set_last_trace_locked success_trace d)"

definition abk_fido_init_new_store_locked :: "kenv \<Rightarrow> abk_fido_device \<Rightarrow> ret \<times> abk_fido_device" where
  "abk_fido_init_new_store_locked E d =
     (None, d\<lparr>dv_store := zero_store\<lparr>st_aaguid := env_random E ''aaguid'' 16,
                st_pin_token := env_random E ''pin_token'' 32,
                st_pin_retries := ABK_FIDO_PIN_RETRIES_DEFAULT\<rparr>,
              dv_store_dirty := True\<rparr>)"

text \<open>
  The second test of \<open>ret\<close> is the code's own: by then \<open>ret\<close> holds the result of
  \<open>abk_fido_init_new_store_locked\<close>.
\<close>

definition abk_fido_load_store_locked ::
    "klib \<Rightarrow> kenv \<Rightarrow> store_file \<Rightarrow> abk_fido_device \<Rightarrow> ret \<times> abk_fido_device" where
  "abk_fido_load_store_locked K E f d =
     (if dv_store_loaded d then (None, d)
      else if \<not> env_persist E then
        abk_fido_init_new_store_locked E (d\<lparr>dv_store_loaded := True\<rparr>)
      else
        (case abk_fido_read_store_from_path_locked K E f (dv_store d) d of
           (None, store, reason, d) \<Rightarrow>
             (let d = abk_fido_finalize_restored_store_locked
                    ''store loaded from /metadata/abk_fido_store.bin'' (d\<lparr>dv_store := store\<rparr>)
              in (None, d\<lparr>dv_store_loaded := True,
                   dv_store_generation := dv_store_generation d + 1\<rparr>))
         | (Some _, store, reason, d) \<Rightarrow>
             (case abk_fido_init_new_store_locked E (d\<lparr>dv_store := store, dv_store_loaded := True\<rparr>) of
                (Some e, d) \<Rightarrow> (Some e, d)
              | (None, d) \<Rightarrow>
                  (let ret = None :: ret;
                       d = (if ret = Some ENOENT then
                              abk_fido_set_last_trace_locked
                                ''no persisted store found, initialized new store''
                                (d\<lparr>dv_last_error := ''''\<rparr>)
                            else
                              abk_fido_set_last_trace_locked
                                (''store load failed: '' @ str_or reason ''store blob invalid'')
                                (set_last_error (str_or reason ''store blob invalid'' @ '', reinitialized'') d))
                   in (None, d\<lparr>dv_store_generation := dv_store_generation d + 1\<rparr>)))))"

definition persist_deferred :: "string \<Rightarrow> abk_fido_device \<Rightarrow> abk_fido_device" where
  "persist_deferred reason d =
     (let d = d\<lparr>dv_store_generation := dv_store_generation d + 1\<rparr> in
      if reason \<noteq> '''' then
        abk_fido_set_last_trace_locked (''persist deferred (will retry): '' @ reason)
          (set_last_error reason d)
      else abk_fido_set_last_trace_locked ''persist deferred: no store path available'' d)"

definition abk_fido_maybe_persist_locked ::
    "klib \<Rightarrow> kenv \<Rightarrow> store_file \<Rightarrow> abk_fido_device \<Rightarrow> ret \<times> store_file \<times> abk_fido_device" where
  "abk_fido_maybe_persist_locked K E f d =
     (if \<not> dv_store_dirty d then (None, f, d)
      else if \<not> env_persist E then (None, f, d\<lparr>dv_store_dirty := False\<rparr>)
      else if \<not> env_alloc_ok E then (None, f, persist_deferred '''' d)
      else
        (case abk_fido_write_store_to_path_locked E
                (store_disk_bytes (abk_fido_store_to_disk K (dv_store d))) f of
           (None, reason, f') \<Rightarrow>
             (None, f', abk_fido_set_last_trace_locked (''persisted store to '' @ ABK_FIDO_STORE_PATH)
                (d\<lparr>dv_store_dirty := False, dv_store_generation := dv_store_generation d + 1,
                   dv_last_error := ''''\<rparr>))
         | (Some e, reason, f') \<Rightarrow> (None, f', persist_deferred reason d)))"

definition abk_fido_restore_persisted_store_locked ::
    "klib \<Rightarrow> kenv \<Rightarrow> store_file \<Rightarrow> string \<Rightarrow> abk_fido_device \<Rightarrow> ret \<times> abk_fido_device" where
  "abk_fido_restore_persisted_store_locked K E f source d =
     (if \<not> env_alloc_ok E then
        (Some ENOMEM,
         abk_fido_set_last_trace_locked (source @ '' restore alloc failed'')
           (set_last_error (''restore alloc failed: '' @ err_str ENOMEM) d))
      else
        (case abk_fido_read_store_from_path_locked K E f zero_store d of
           (None, new_store, reason, d) \<Rightarrow>
             (let d = abk_fido_finalize_restored_store_locked
                    (snprintf_to 160 (''store restored from '' @ ABK_FIDO_STORE_PATH @ '' via '' @ source))
                    (d\<lparr>dv_store := new_store, dv_store_loaded := True\<rparr>)
              in (None, d\<lparr>dv_store_generation := dv_store_generation d + 1\<rparr>))
         | (Some e, _, reason, d) \<Rightarrow>
             (Some e,
              abk_fido_set_last_trace_locked
                (source @ '' restore failed: '' @ str_or reason ''no persisted store available'')
                (set_last_error (str_or reason ''no persisted store available'') d))))"

definition abk_fido_reload_store_locked ::
    "klib \<Rightarrow> kenv \<Rightarrow> store_file \<Rightarrow> abk_fido_device \<Rightarrow> ret \<times> abk_fido_device" where
  "abk_fido_reload_store_locked K E f d =
     abk_fido_restore_persisted_store_locked K E f ''reload_store'' d"

subsection \<open>The blob over sysfs\<close>

text \<open>Reading: the bytes handed out; \<open>Inr []\<close> is the end of the file.\<close>

definition abk_fido_store_blob_read ::
    "klib \<Rightarrow> kenv \<Rightarrow> store_file \<Rightarrow> nat \<Rightarrow> nat \<Rightarrow> abk_fido_device
     \<Rightarrow> (errno + u8 list) \<times> abk_fido_device" where
  "abk_fido_store_blob_read K E f off count d =
     (if off \<ge> SIZEOF_STORE_DISK then (Inr [], d)
      else
        (let count = min count (SIZEOF_STORE_DISK - off) in
         if \<not> env_alloc_ok E then (Inl ENOMEM, d)
         else
           (case abk_fido_load_store_locked K E f d of
              (Some e, d) \<Rightarrow>
                if e \<noteq> ENOENT then (Inl e, d)
                else (Inr (field_at off count (store_disk_bytes (abk_fido_store_to_disk K (dv_store d)))), d)
            | (None, d) \<Rightarrow>
                (Inr (field_at off count (store_disk_bytes (abk_fido_store_to_disk K (dv_store d)))), d))))"

text \<open>Writing: chunks gather in the staging buffer until one of the two blob sizes is reached.\<close>

definition blob_staged :: "kenv \<Rightarrow> abk_fido_device \<Rightarrow> abk_fido_device" where
  "blob_staged E d =
     (if dv_store_blob_staging d = None then
        d\<lparr>dv_store_blob_staging :=
            (if env_alloc_ok E then Some (replicate SIZEOF_STORE_DISK 0) else None),
          dv_store_blob_staging_len := 0\<rparr>
      else d)"

definition blob_refused :: "string \<Rightarrow> abk_fido_device \<Rightarrow> abk_fido_device" where
  "blob_refused reason d =
     abk_fido_set_last_trace_locked (''store blob restore failed: '' @ str_or reason ''validation failed'')
       (set_last_error (str_or reason ''store blob restore failed'') d)"

definition blob_commit :: "klib \<Rightarrow> u8 list \<Rightarrow> nat \<Rightarrow> abk_fido_device \<Rightarrow> ret \<times> abk_fido_device" where
  "blob_commit K staging len d =
     (if len = SIZEOF_STORE_DISK_V1 then
        (Some EINVAL,
         blob_refused ''''
           (abk_fido_set_last_trace_locked ''v1 blob refused from userspace (update the companion app)''
             (set_last_error ''v1 blob refused from userspace (update the companion app)'' d)))
      else
        (case abk_fido_store_from_disk_into K (store_disk_of staging) (dv_store d) of
           (None, store, reason) \<Rightarrow>
             (None, abk_fido_finalize_restored_store_locked ''store blob restored from userspace''
                (d\<lparr>dv_store := store, dv_store_loaded := True,
                   dv_store_generation := dv_store_generation d + 1\<rparr>))
         | (Some e, store, reason) \<Rightarrow> (Some e, blob_refused reason (d\<lparr>dv_store := store\<rparr>))))"

definition abk_fido_store_blob_write ::
    "klib \<Rightarrow> kenv \<Rightarrow> u8 list \<Rightarrow> int \<Rightarrow> abk_fido_device \<Rightarrow> (errno + nat) \<times> abk_fido_device" where
  "abk_fido_store_blob_write K E buf off d =
     (if off < 0 \<or> off \<ge> int SIZEOF_STORE_DISK \<or> int (length buf) > int SIZEOF_STORE_DISK - off then
        (Inl EINVAL, d)
      else
        (let d = blob_staged E d in
         case dv_store_blob_staging d of
           None \<Rightarrow> (Inl ENOMEM, d)
         | Some old \<Rightarrow>
             (let staging = overwrite (nat off) buf old;
                  len = max (dv_store_blob_staging_len d) (nat off + length buf);
                  d = d\<lparr>dv_store_blob_staging := Some staging, dv_store_blob_staging_len := len\<rparr>
              in
                if len = SIZEOF_STORE_DISK \<or> len = SIZEOF_STORE_DISK_V1 then
                  (case blob_commit K staging len d of
                     (ret, d) \<Rightarrow>
                       (case ret of Some e \<Rightarrow> Inl e | None \<Rightarrow> Inr (length buf),
                        d\<lparr>dv_store_blob_staging := None, dv_store_blob_staging_len := 0\<rparr>))
                else (Inr (length buf), d))))"

subsection \<open>What load and persist do\<close>

definition dropped_pin :: "abk_fido_store \<Rightarrow> abk_fido_store" where
  "dropped_pin s =
     (if st_pin_set s then s\<lparr>st_pin_set := False, st_pin_hash := replicate 16 0,
        st_pin_retries := ABK_FIDO_PIN_RETRIES_DEFAULT\<rparr> else s)"

definition env_ok :: "kenv \<Rightarrow> bool" where
  "env_ok E \<longleftrightarrow> env_persist E \<and> env_alloc_ok E \<and> env_cred_ok E \<and> env_open_err E = None
     \<and> env_read_err E = None \<and> (\<exists>n \<ge> SIZEOF_STORE_DISK. env_write E = Inr n)"

lemma finalize_simps [simp]:
  "dv_store (abk_fido_finalize_restored_store_locked t d) = dropped_pin (dv_store d)"
  "dv_store_dirty (abk_fido_finalize_restored_store_locked t d) = st_pin_set (dv_store d)"
  "dv_store_loaded (abk_fido_finalize_restored_store_locked t d) = dv_store_loaded d"
  "dv_last_error (abk_fido_finalize_restored_store_locked t d) = ''''"
  by (simp_all add: abk_fido_finalize_restored_store_locked_def dropped_pin_def Let_def)

lemma store_ok_dropped_pin [wf_intros]: "store_ok s \<Longrightarrow> store_ok (dropped_pin s)"
  by (simp add: dropped_pin_def store_ok_def)

lemma write_complete:
  "env_ok E \<Longrightarrow> length blob = SIZEOF_STORE_DISK \<Longrightarrow>
     abk_fido_write_store_to_path_locked E blob f = (None, '''', Some blob)"
  by (auto simp: abk_fido_write_store_to_path_locked_def abk_fido_filp_open_kernel_def
      abk_fido_kernel_write_def env_ok_def)

lemma write_success_whole:
  "abk_fido_write_store_to_path_locked E blob f = (None, reason, f') \<Longrightarrow> f' = Some blob"
  by (auto simp: abk_fido_write_store_to_path_locked_def abk_fido_filp_open_kernel_def
      abk_fido_kernel_write_def min_def split: if_splits option.splits sum.splits)

lemma sizes_differ [simp]: "SIZEOF_STORE_DISK \<noteq> SIZEOF_STORE_DISK_V1" "SIZEOF_STORE_DISK_V1 < SIZEOF_STORE_DISK"
  "\<not> SIZEOF_STORE_DISK \<le> SIZEOF_STORE_DISK_V1" "SIZEOF_STORE_DISK_V1 \<le> SIZEOF_STORE_DISK"
  by (simp_all add: SIZEOF_STORE_DISK_def SIZEOF_STORE_DISK_V1_def)

lemma read_blob:
  assumes "env_ok E" "store_ok s"
  shows "abk_fido_read_store_from_path_locked K E (Some (store_blob K s)) target d
    = (None, store_canon s, '''', d)"
  using assms length_store_blob [OF assms(2), of K]
  by (auto simp: abk_fido_read_store_from_path_locked_def abk_fido_filp_open_kernel_def
      abk_fido_kernel_read_def env_ok_def store_disk_of_blob from_disk_to_disk)

lemma load_blob:
  assumes "env_ok E" "store_ok s" "\<not> dv_store_loaded d"
  shows "\<exists>d'. abk_fido_load_store_locked K E (Some (store_blob K s)) d = (None, d')
    \<and> dv_store d' = dropped_pin (store_canon s) \<and> dv_store_loaded d'"
  using assms read_blob [OF assms(1,2)]
  by (simp add: abk_fido_load_store_locked_def env_ok_def Let_def)

lemma persist_ok:
  assumes "env_ok E" "store_ok (dv_store d)" "dv_store_dirty d"
  shows "\<exists>d'. abk_fido_maybe_persist_locked K E f d = (None, Some (store_blob K (dv_store d)), d')
    \<and> dv_store d' = dv_store d \<and> \<not> dv_store_dirty d'"
  using assms write_complete [OF assms(1) length_store_blob [OF assms(2)], of K f]
  by (simp add: abk_fido_maybe_persist_locked_def env_ok_def store_blob_def)

text \<open>
  C11. What is persisted comes back: with a working file system, persisting a changed store
  clears the dirty flag, and the first load after a reboot finds the same credentials,
  counter and identity (client PIN state is dropped, as the key is biometric only).
\<close>

theorem persist_then_load:
  assumes "env_ok E" "env_ok E'" "store_ok (dv_store d)" "dv_store_dirty d" "\<not> dv_store_loaded d2"
  shows "\<exists>f' d' d2'. abk_fido_maybe_persist_locked K E f d = (None, f', d') \<and> \<not> dv_store_dirty d'
    \<and> dv_store d' = dv_store d
    \<and> abk_fido_load_store_locked K E' f' d2 = (None, d2') \<and> dv_store_loaded d2'
    \<and> dv_store d2' = dropped_pin (store_canon (dv_store d))"
  using persist_ok [OF assms(1,3,4), of K f] load_blob [OF assms(2,3,5), of K] by blast

lemma sample_env_ok: "env_ok sample_env"
  by (simp add: env_ok_def sample_env_def)

theorem persist_then_load_witness:
  "\<exists>f' d' d2'. abk_fido_maybe_persist_locked sample_klib sample_env None
        (abk_fido_dev_initial\<lparr>dv_store_dirty := True\<rparr>) = (None, f', d') \<and> \<not> dv_store_dirty d'
    \<and> dv_store d' = zero_store
    \<and> abk_fido_load_store_locked sample_klib sample_env f' abk_fido_dev_initial = (None, d2')
    \<and> dv_store_loaded d2' \<and> dv_store d2' = dropped_pin (store_canon zero_store)"
proof -
  have zs: "dv_store (abk_fido_dev_initial\<lparr>dv_store_dirty := True\<rparr>) = zero_store"
    "\<not> dv_store_loaded abk_fido_dev_initial"
    by (simp_all add: abk_fido_dev_initial_def)
  have "store_ok (dv_store (abk_fido_dev_initial\<lparr>dv_store_dirty := True\<rparr>))"
    unfolding zs by (rule store_ok_zero)
  from persist_then_load [OF sample_env_ok sample_env_ok this _ zs(2), of sample_klib None] zs
  show ?thesis by simp
qed

text \<open>
  C16. The dirty flag is only cleared when the whole blob is in the file: whatever fails
  (credentials, open, allocation, a short or failing write), persisting reports success to
  its caller, keeps the store in memory, and either the file is exactly the store's image or
  the flag still asks for a retry.
\<close>

theorem persist_never_forgets:
  "(case abk_fido_maybe_persist_locked K E f d of
      (ret, f', d') \<Rightarrow> ret = None \<and> dv_store d' = dv_store d
        \<and> (dv_store_dirty d' \<or> \<not> env_persist E \<or> \<not> dv_store_dirty d
           \<or> f' = Some (store_disk_bytes (abk_fido_store_to_disk K (dv_store d))))
        \<and> (dv_store_dirty d \<or> \<not> dv_store_dirty d' \<and> f' = f))"
proof -
  let ?blob = "store_disk_bytes (abk_fido_store_to_disk K (dv_store d))"
  obtain ret reason f' where w: "abk_fido_write_store_to_path_locked E ?blob f = (ret, reason, f')"
    by (metis prod_cases3)
  show ?thesis
  proof (cases ret)
    case None
    with w write_success_whole [of E ?blob f reason f'] show ?thesis
      by (simp add: abk_fido_maybe_persist_locked_def persist_deferred_def Let_def)
  next
    case (Some e)
    with w show ?thesis
      by (simp add: abk_fido_maybe_persist_locked_def persist_deferred_def Let_def)
  qed
qed

theorem persist_never_forgets_witness:
  "case abk_fido_maybe_persist_locked sample_klib (sample_env\<lparr>env_write := Inr 100\<rparr>) None
      (abk_fido_dev_initial\<lparr>dv_store_dirty := True\<rparr>) of
     (ret, f', d') \<Rightarrow> ret = None \<and> (dv_store_dirty d'
       \<or> f' = Some (store_disk_bytes (abk_fido_store_to_disk sample_klib zero_store)))"
  using persist_never_forgets [where K = sample_klib and E = "sample_env\<lparr>env_write := Inr 100\<rparr>"
      and f = None and d = "abk_fido_dev_initial\<lparr>dv_store_dirty := True\<rparr>"]
  by (auto simp: sample_env_def abk_fido_dev_initial_def split: prod.splits)

subsection \<open>A failed write\<close>

lemma v1_prefix_rejected:
  assumes "store_ok s"
  shows "\<exists>e reason. abk_fido_store_from_disk_v1_into K
      (store_disk_v1_of (take SIZEOF_STORE_DISK_V1 (store_blob K s))) t = (Some e, t, reason)"
proof -
  have "field_at 4 4 (take SIZEOF_STORE_DISK_V1 (store_blob K s)) = le32_bytes 2"
    by (simp add: field_at_def store_blob_def store_disk_bytes_def disk_image_def drop_take
        abk_fido_store_to_disk_def Let_def store_consts SIZEOF_STORE_DISK_V1_def take_Cons')
  then have "dk_version (store_disk_v1_of (take SIZEOF_STORE_DISK_V1 (store_blob K s))) = 2"
    by (simp add: store_disk_v1_of_def disk_view_def)
  then show ?thesis
    by (auto simp: abk_fido_store_from_disk_v1_into_def store_consts)
qed

lemma load_reinitialises:
  assumes "env_persist E" "\<not> dv_store_loaded d"
    "abk_fido_read_store_from_path_locked K E f (dv_store d) d = (Some e, dv_store d, reason, d)"
  shows "\<exists>d'. abk_fido_load_store_locked K E f d = (None, d')
    \<and> st_creds (dv_store d') = replicate 32 zero_credential
    \<and> dv_last_error d' = snprintf_to 160 (str_or reason ''store blob invalid'' @ '', reinitialized'')"
  using assms
  by (simp add: abk_fido_load_store_locked_def abk_fido_init_new_store_locked_def Let_def
      zero_store_def store_consts)

lemma read_torn_blob:
  assumes "env_ok E" "store_ok s" "n < SIZEOF_STORE_DISK"
  shows "\<exists>e reason. abk_fido_read_store_from_path_locked K E (Some (take n (store_blob K s))) t d
    = (Some e, t, reason, d)"
proof (cases "n = SIZEOF_STORE_DISK_V1")
  case True
  from v1_prefix_rejected [OF assms(2), of K t] obtain e reason where
    "abk_fido_store_from_disk_v1_into K
      (store_disk_v1_of (take SIZEOF_STORE_DISK_V1 (store_blob K s))) t = (Some e, t, reason)"
    by blast
  with True assms(1) length_store_blob [OF assms(2), of K] show ?thesis
    by (simp add: abk_fido_read_store_from_path_locked_def abk_fido_filp_open_kernel_def
        abk_fido_kernel_read_def env_ok_def min_def)
next
  case False
  with assms length_store_blob [OF assms(2), of K] show ?thesis
    by (simp add: abk_fido_read_store_from_path_locked_def abk_fido_filp_open_kernel_def
        abk_fido_kernel_read_def env_ok_def min_def)
qed

text \<open>
  A write that stops short destroys what was persisted before: the file is truncated on
  open, so after a short write of \<open>n\<close> bytes, whatever the file held, a reboot finds no
  valid blob and starts with an empty store (only the copy in memory, if the device stays
  up, can still be written).
\<close>

theorem short_write_loses_old_blob:
  assumes "env_ok E" "n < SIZEOF_STORE_DISK" "env_ok E'" "store_ok (dv_store d)" "dv_store_dirty d"
    "\<not> dv_store_loaded d2"
  shows "\<exists>f' d' d2'. abk_fido_maybe_persist_locked K (E\<lparr>env_write := Inr n\<rparr>) (Some old) d = (None, f', d')
    \<and> dv_store_dirty d' \<and> abk_fido_load_store_locked K E' f' d2 = (None, d2')
    \<and> st_creds (dv_store d2') = replicate 32 zero_credential"
proof -
  let ?blob = "store_blob K (dv_store d)"
  have len: "length ?blob = SIZEOF_STORE_DISK" using assms(4) by (rule length_store_blob)
  have "\<exists>reason. abk_fido_write_store_to_path_locked (E\<lparr>env_write := Inr n\<rparr>) ?blob (Some old)
      = (Some EIO, reason, Some (take n ?blob))"
    using assms(1,2) len
    by (auto simp: abk_fido_write_store_to_path_locked_def abk_fido_filp_open_kernel_def
        abk_fido_kernel_write_def env_ok_def)
  then have "\<exists>d'. abk_fido_maybe_persist_locked K (E\<lparr>env_write := Inr n\<rparr>) (Some old) d
      = (None, Some (take n ?blob), d') \<and> dv_store_dirty d'"
    using assms(1,5)
    by (auto simp: abk_fido_maybe_persist_locked_def env_ok_def store_blob_def persist_deferred_def Let_def)
  moreover obtain e reason where
    "abk_fido_read_store_from_path_locked K E' (Some (take n ?blob)) (dv_store d2) d2
      = (Some e, dv_store d2, reason, d2)"
    using read_torn_blob [OF assms(3,4,2)] by blast
  ultimately show ?thesis
    using load_reinitialises [of E' d2 K "Some (take n ?blob)"] assms(3,6)
    by (fastforce simp: env_ok_def)
qed

theorem short_write_loses_old_blob_witness:
  "\<exists>f' d' d2'. abk_fido_maybe_persist_locked sample_klib (sample_env\<lparr>env_write := Inr 0\<rparr>)
        (Some (store_blob sample_klib zero_store)) (abk_fido_dev_initial\<lparr>dv_store_dirty := True\<rparr>)
      = (None, f', d')
    \<and> dv_store_dirty d' \<and> abk_fido_load_store_locked sample_klib sample_env f' abk_fido_dev_initial
      = (None, d2')
    \<and> st_creds (dv_store d2') = replicate 32 zero_credential"
proof -
  have zs: "dv_store (abk_fido_dev_initial\<lparr>dv_store_dirty := True\<rparr>) = zero_store"
    "dv_store_dirty (abk_fido_dev_initial\<lparr>dv_store_dirty := True\<rparr>)"
    "\<not> dv_store_loaded abk_fido_dev_initial"
    by (simp_all add: abk_fido_dev_initial_def)
  have ok: "store_ok (dv_store (abk_fido_dev_initial\<lparr>dv_store_dirty := True\<rparr>))"
    unfolding zs by (rule store_ok_zero)
  have "(0 :: nat) < SIZEOF_STORE_DISK" by (simp add: SIZEOF_STORE_DISK_def)
  from short_write_loses_old_blob [OF sample_env_ok this sample_env_ok ok zs(2,3)]
  show ?thesis by blast
qed

subsection \<open>Version 1 files\<close>

lemma length_store_disk_v1_bytes:
  "layout_ok disk_cred_v1_ok d \<Longrightarrow> length (store_disk_v1_bytes d) = SIZEOF_STORE_DISK_V1"
  unfolding store_disk_v1_bytes_def SIZEOF_STORE_DISK_V1_def
  by (erule length_disk_image) (rule length_cred_v1_image)

text \<open>
  Loading a version 1 file restores everything but leaves the store clean: the dirty
  flag the reader sets is cleared again before the load returns (unless client PIN state had
  to be dropped), so the announced rewrite as version 2 does not happen; persisting right
  after the load changes neither the file nor the device.
\<close>

theorem v1_load_leaves_clean:
  assumes "env_ok E" "store_ok s" "\<not> st_pin_set s"
    "seal = abk_fido_store_crc32_range K \<or> seal = legacy_crc32 K" "\<not> dv_store_loaded d"
  shows "\<exists>d'. abk_fido_load_store_locked K E (Some (store_disk_v1_bytes (store_to_disk_v1 seal s))) d
      = (None, d')
    \<and> dv_store d' = without_secrets (store_canon s) \<and> \<not> dv_store_dirty d'
    \<and> abk_fido_maybe_persist_locked K E (Some (store_disk_v1_bytes (store_to_disk_v1 seal s))) d'
      = (None, Some (store_disk_v1_bytes (store_to_disk_v1 seal s)), d')"
proof -
  let ?file = "store_disk_v1_bytes (store_to_disk_v1 seal s)"
  let ?d = "abk_fido_set_last_trace_locked ''v1 store upgraded in memory; next persist writes v2''
    (d\<lparr>dv_store_dirty := True\<rparr>)"
  have ok: "layout_ok disk_cred_v1_ok (store_to_disk_v1 seal s)"
    using assms(2) by (rule to_disk_v1_layout_ok)
  have len: "length ?file = SIZEOF_STORE_DISK_V1" using ok by (rule length_store_disk_v1_bytes)
  have "abk_fido_read_store_from_path_locked K E (Some ?file) (dv_store d) d
      = (None, without_secrets (store_canon s), '''', ?d)"
    using assms(1) len from_disk_v1_to_disk [OF assms(2,4)] store_disk_v1_of_bytes [OF ok]
    by (simp add: abk_fido_read_store_from_path_locked_def abk_fido_filp_open_kernel_def
        abk_fido_kernel_read_def env_ok_def)
  moreover have "\<not> st_pin_set (without_secrets (store_canon s))"
    using assms(3) by (simp add: without_secrets_def store_canon_def)
  ultimately show ?thesis
    using assms(1,5)
    by (simp add: abk_fido_load_store_locked_def env_ok_def Let_def dropped_pin_def
        abk_fido_maybe_persist_locked_def)
qed

theorem v1_load_leaves_clean_witness:
  "\<exists>d'. abk_fido_load_store_locked sample_klib sample_env
      (Some (store_disk_v1_bytes (store_to_disk_v1 (legacy_crc32 sample_klib) zero_store)))
      abk_fido_dev_initial = (None, d') \<and> \<not> dv_store_dirty d'"
proof -
  have "\<not> st_pin_set zero_store" "\<not> dv_store_loaded abk_fido_dev_initial"
    by (simp_all add: zero_store_def abk_fido_dev_initial_def)
  from v1_load_leaves_clean [OF sample_env_ok store_ok_zero this(1) _ this(2),
      of "legacy_crc32 sample_klib" sample_klib]
  show ?thesis by blast
qed

subsection \<open>Uploading a blob in chunks\<close>

fun upload :: "klib \<Rightarrow> kenv \<Rightarrow> u8 list list \<Rightarrow> nat \<Rightarrow> abk_fido_device \<Rightarrow> abk_fido_device" where
  "upload K E [] off d = d"
| "upload K E (c # cs) off d =
     upload K E cs (off + length c) (snd (abk_fido_store_blob_write K E c (int off) d))"

definition staged :: "u8 list \<Rightarrow> abk_fido_device \<Rightarrow> abk_fido_device" where
  "staged bs d = (if bs = [] then d else d\<lparr>
     dv_store_blob_staging := Some (overwrite 0 bs (replicate SIZEOF_STORE_DISK 0)),
     dv_store_blob_staging_len := length bs\<rparr>)"

lemma blob_write_staged:
  assumes "env_alloc_ok E" "dv_store_blob_staging d = None" "c \<noteq> []"
    "length bs + length c \<le> SIZEOF_STORE_DISK"
  shows "abk_fido_store_blob_write K E c (int (length bs)) (staged bs d) =
    (if length (bs @ c) = SIZEOF_STORE_DISK \<or> length (bs @ c) = SIZEOF_STORE_DISK_V1 then
       (case blob_commit K (overwrite 0 (bs @ c) (replicate SIZEOF_STORE_DISK 0)) (length (bs @ c))
          (staged (bs @ c) d) of
          (ret, d') \<Rightarrow> (case ret of Some e \<Rightarrow> Inl e | None \<Rightarrow> Inr (length c),
             d'\<lparr>dv_store_blob_staging := None, dv_store_blob_staging_len := 0\<rparr>))
     else (Inr (length c), staged (bs @ c) d))"
proof -
  have over: "overwrite (length bs) c (overwrite 0 bs (replicate SIZEOF_STORE_DISK 0))
      = overwrite 0 (bs @ c) (replicate SIZEOF_STORE_DISK (0 :: u8))"
    using assms(4) overwrite_end [of 0 bs "replicate SIZEOF_STORE_DISK 0" c] by simp
  have in_range: "length bs < SIZEOF_STORE_DISK" using assms(3,4) by (cases c) auto
  have staging: "(blob_staged E (staged bs d))\<lparr>
        dv_store_blob_staging := Some (overwrite 0 (bs @ c) (replicate SIZEOF_STORE_DISK 0)),
        dv_store_blob_staging_len := length (bs @ c)\<rparr> = staged (bs @ c) d"
    "dv_store_blob_staging (blob_staged E (staged bs d))
      = Some (overwrite 0 bs (replicate SIZEOF_STORE_DISK 0))"
    "max (dv_store_blob_staging_len (blob_staged E (staged bs d))) (length bs + length c)
      = length (bs @ c)"
    using assms(1,2,3) by (auto simp: staged_def blob_staged_def)
  show ?thesis
    unfolding abk_fido_store_blob_write_def Let_def nat_int staging option.case over
    using in_range assms(4) by (subst if_not_P) auto
qed

lemma blob_commit_whole:
  assumes "store_ok s"
  shows "\<exists>d'. blob_commit K (store_blob K s) SIZEOF_STORE_DISK d = (None, d')
    \<and> dv_store d' = dropped_pin (store_canon s) \<and> dv_store_loaded d'
    \<and> dv_store_dirty d' = st_pin_set s"
  using assms
  by (simp add: blob_commit_def store_disk_of_blob from_disk_to_disk store_canon_def)

lemma upload_rest:
  assumes "env_alloc_ok E" "dv_store_blob_staging d = None" "store_ok s"
    "bs @ concat cs = store_blob K s" "cs \<noteq> []" "[] \<notin> set cs"
    "\<forall>n<length cs. length bs + length (concat (take n cs)) \<noteq> SIZEOF_STORE_DISK_V1"
  shows "\<exists>d'. upload K E cs (length bs) (staged bs d) = d'
    \<and> dv_store d' = dropped_pin (store_canon s) \<and> dv_store_loaded d'
    \<and> dv_store_blob_staging d' = None \<and> dv_store_dirty d' = st_pin_set s"
  using assms
proof (induction cs arbitrary: bs)
  case (Cons c cs)
  have len: "length (bs @ c @ concat cs) = SIZEOF_STORE_DISK"
    using Cons.prems(4) length_store_blob [OF Cons.prems(3), of K] by simp
  have "c \<noteq> []" "length bs + length c \<le> SIZEOF_STORE_DISK" using Cons.prems(6) len by auto
  note step = blob_write_staged [OF Cons.prems(1,2) this, of K]
  show ?case
  proof (cases "cs = []")
    case True
    then have blob: "bs @ c = store_blob K s" using Cons.prems(4) by simp
    have full: "length (bs @ c) = SIZEOF_STORE_DISK" using len True by simp
    have "overwrite 0 (bs @ c) (replicate SIZEOF_STORE_DISK 0) = bs @ c"
      using full by (simp add: overwrite_all)
    with step full blob blob_commit_whole [OF Cons.prems(3), of K "staged (bs @ c) d"] True
    show ?thesis by auto
  next
    case False
    have "concat cs \<noteq> []" using False Cons.prems(6) by (cases cs) auto
    then have short: "length (bs @ c) < SIZEOF_STORE_DISK" using len by (cases "concat cs") auto
    have "0 < length cs" using False by simp
    then have "length (bs @ c) \<noteq> SIZEOF_STORE_DISK_V1"
      using Cons.prems(7) [rule_format, of 1] by (simp add: take_Cons')
    with step short have snext: "snd (abk_fido_store_blob_write K E c (int (length bs)) (staged bs d))
        = staged (bs @ c) d" by auto
    have "\<forall>n<length cs. length (bs @ c) + length (concat (take n cs)) \<noteq> SIZEOF_STORE_DISK_V1"
      using Cons.prems(7) by (metis (no_types, lifting) Suc_less_eq add.assoc concat.simps(2)
          length_Cons length_append take_Suc_Cons)
    with Cons.IH [of "bs @ c"] Cons.prems False snext show ?thesis by simp
  qed
qed simp

text \<open>
  C32. A blob uploaded from userspace in chunks is restored as a whole: as long as no chunk
  boundary falls on the size of a version 1 blob, writing the chunks one after the other
  makes the uploaded store the current one and releases the staging buffer; nothing of it is
  visible before the last chunk.
\<close>

theorem chunked_upload_restores:
  assumes "env_alloc_ok E" "dv_store_blob_staging d = None" "store_ok s"
    "concat cs = store_blob K s" "[] \<notin> set cs"
    "\<forall>n<length cs. length (concat (take n cs)) \<noteq> SIZEOF_STORE_DISK_V1"
  shows "dv_store (upload K E cs 0 d) = dropped_pin (store_canon s)
    \<and> dv_store_loaded (upload K E cs 0 d) \<and> dv_store_blob_staging (upload K E cs 0 d) = None
    \<and> dv_store_dirty (upload K E cs 0 d) = st_pin_set s"
proof -
  have "cs \<noteq> []"
    using assms(4) length_store_blob [OF assms(3), of K] by (auto simp: SIZEOF_STORE_DISK_def)
  then show ?thesis
    using upload_rest [of E d s "[]" cs K] assms by (simp add: staged_def)
qed

theorem chunked_upload_restores_witness:
  "dv_store (upload sample_klib sample_env
      [take 4096 (store_blob sample_klib zero_store), drop 4096 (store_blob sample_klib zero_store)]
      0 abk_fido_dev_initial) = dropped_pin (store_canon zero_store)"
proof -
  let ?b = "store_blob sample_klib zero_store"
  have len: "length ?b = 15572"
    using length_store_blob [OF store_ok_zero] by (simp add: SIZEOF_STORE_DISK_def)
  have "env_alloc_ok sample_env" "dv_store_blob_staging abk_fido_dev_initial = None"
    by (simp_all add: sample_env_def abk_fido_dev_initial_def)
  moreover have "[] \<notin> set [take 4096 ?b, drop 4096 ?b]"
    using len by (auto simp flip: length_0_conv)
  moreover have "\<forall>n<length [take 4096 ?b, drop 4096 ?b].
      length (concat (take n [take 4096 ?b, drop 4096 ?b])) \<noteq> SIZEOF_STORE_DISK_V1"
    using len by (simp add: SIZEOF_STORE_DISK_V1_def less_Suc_eq all_conj_distrib)
  ultimately show ?thesis
    using chunked_upload_restores [OF _ _ store_ok_zero, of sample_env abk_fido_dev_initial
        "[take 4096 ?b, drop 4096 ?b]" sample_klib] by simp
qed

end
