(* ===== verification/Local_Auth.thy ===== *)
theory Local_Auth
  imports Device_State
begin

section \<open>Local approval\<close>

text \<open>
  Every operation that can release key material asks the phone's user first.  A refusal opens
  a cooldown, an approval a short window in which further requests pass without a prompt.
  \<open>abk_fido_auth_begin_locked\<close> gives up the device mutex while it waits, so it is three steps
  here: what it does before the wait (\<open>auth_check\<close>, \<open>auth_post\<close>) and after it (\<open>auth_conclude\<close>).
  As one call, it takes what happens during the wait as an argument; as a system, the steps
  of any number of waiting requests and of the user's decisions interleave (\<open>auth_step\<close>).
\<close>

definition ABK_FIDO_CTAP_MAKE_CREDENTIAL :: u8 where "ABK_FIDO_CTAP_MAKE_CREDENTIAL = 0x01"
definition ABK_FIDO_CTAP_GET_ASSERTION :: u8 where "ABK_FIDO_CTAP_GET_ASSERTION = 0x02"
definition ABK_FIDO_CTAP_GET_INFO :: u8 where "ABK_FIDO_CTAP_GET_INFO = 0x04"
definition ABK_FIDO_CTAP_CLIENT_PIN :: u8 where "ABK_FIDO_CTAP_CLIENT_PIN = 0x06"
definition ABK_FIDO_CTAP_RESET :: u8 where "ABK_FIDO_CTAP_RESET = 0x07"
definition ABK_FIDO_CTAP_GET_NEXT_ASSERTION :: u8 where "ABK_FIDO_CTAP_GET_NEXT_ASSERTION = 0x08"
definition ABK_FIDO_CTAP_SELECTION :: u8 where "ABK_FIDO_CTAP_SELECTION = 0x0b"

lemmas ctap_codes = ABK_FIDO_CTAP_MAKE_CREDENTIAL_def ABK_FIDO_CTAP_GET_ASSERTION_def
  ABK_FIDO_CTAP_GET_INFO_def ABK_FIDO_CTAP_CLIENT_PIN_def ABK_FIDO_CTAP_RESET_def
  ABK_FIDO_CTAP_GET_NEXT_ASSERTION_def ABK_FIDO_CTAP_SELECTION_def

definition abk_fido_ctap_name :: "u8 \<Rightarrow> string" where
  "abk_fido_ctap_name cmd =
     (if cmd = ABK_FIDO_CTAP_MAKE_CREDENTIAL then ''makeCredential''
      else if cmd = ABK_FIDO_CTAP_GET_ASSERTION then ''getAssertion''
      else if cmd = ABK_FIDO_CTAP_GET_INFO then ''getInfo''
      else if cmd = ABK_FIDO_CTAP_CLIENT_PIN then ''clientPIN''
      else if cmd = ABK_FIDO_CTAP_RESET then ''reset''
      else if cmd = ABK_FIDO_CTAP_SELECTION then ''selection''
      else ''unknown'')"

definition abk_fido_auth_start_cooldown_locked :: "kenv \<Rightarrow> abk_fido_device \<Rightarrow> abk_fido_device" where
  "abk_fido_auth_start_cooldown_locked E d =
     d\<lparr>dv_auth_cache_valid := False, dv_auth_deny_valid := True,
       dv_auth_deny_expires := env_now E + env_msecs E ABK_FIDO_AUTH_DENY_MS\<rparr>"

text \<open>Before the wait: \<open>Some r\<close> returns \<open>r\<close> at once, \<open>None\<close> goes on to the prompt.\<close>

definition auth_check :: "kenv \<Rightarrow> u8 \<Rightarrow> u8 list \<Rightarrow> abk_fido_device \<Rightarrow> ret option \<times> abk_fido_device" where
  "auth_check E ctap_cmd rp_id d =
     (if dv_auth_deny_valid d \<and> time_before (env_now E) (dv_auth_deny_expires d) then
        (Some (Some EPERM),
         set_last_error ''auth cooldown active''
           (abk_fido_set_last_trace_locked
             (''auth cooldown reject cmd='' @ abk_fido_ctap_name ctap_cmd @ '' rp='' @ bytes_str rp_id) d))
      else
        (let d = (if dv_auth_deny_valid d then d\<lparr>dv_auth_deny_valid := False\<rparr> else d) in
         if dv_auth_cache_valid d \<and> time_before (env_now E) (dv_auth_cache_expires d) then
           (Some None,
            abk_fido_set_last_trace_locked
              (''auth cache hit cmd='' @ abk_fido_ctap_name ctap_cmd @ '' rp='' @ bytes_str rp_id) d)
         else (None, d\<lparr>dv_auth_cache_valid := False\<rparr>)))"

definition auth_post ::
    "u8 \<Rightarrow> u8 list \<Rightarrow> bool \<Rightarrow> bool \<Rightarrow> abk_fido_device \<Rightarrow> u32 \<times> abk_fido_device" where
  "auth_post ctap_cmd rp_id uv rk d =
     (let request_id = dv_auth_request_id d + 1;
          d = d\<lparr>dv_auth_request_id := request_id, dv_auth_pending := True, dv_auth_decided := False,
            dv_auth_allowed := False, dv_auth_pending_ctap_cmd := ctap_cmd,
            dv_auth_pending_uv := uv, dv_auth_pending_rk := rk,
            dv_auth_pending_rp_id := strscpy (dv_auth_pending_rp_id d) rp_id\<rparr>;
          d = set_last_error (''awaiting local auth req='' @ dec_str (unat request_id)) d;
          d = abk_fido_set_last_trace_locked
            (''auth pending req='' @ dec_str (unat request_id) @ '' cmd='' @ abk_fido_ctap_name ctap_cmd
             @ '' rp='' @ bytes_str rp_id @ '' uv='' @ flag_str uv @ '' rk='' @ flag_str rk) d
      in (request_id, d\<lparr>dv_auth_keepalive_armed := True\<rparr>))"

text \<open>\<open>wait_ret\<close>: negative when interrupted, 0 on timeout, positive when decided in time.\<close>

definition req_text :: "string \<Rightarrow> u32 \<Rightarrow> u8 \<Rightarrow> string" where
  "req_text what request_id ctap_cmd =
     what @ '' req='' @ dec_str (unat request_id) @ '' cmd='' @ abk_fido_ctap_name ctap_cmd"

definition auth_conclude ::
    "kenv \<Rightarrow> u8 \<Rightarrow> u32 \<Rightarrow> int \<Rightarrow> abk_fido_device \<Rightarrow> ret \<times> abk_fido_device" where
  "auth_conclude E ctap_cmd request_id wait_ret d =
     (if wait_ret < 0 then
        (Some EPERM,
         abk_fido_set_last_trace_locked (req_text ''auth interrupted'' request_id ctap_cmd)
           (d\<lparr>dv_auth_pending := False\<rparr>))
      else if wait_ret = 0 then
        (let d = abk_fido_auth_start_cooldown_locked E (d\<lparr>dv_auth_pending := False, dv_auth_decided := False\<rparr>);
             d = abk_fido_set_last_trace_locked (req_text ''auth timeout'' request_id ctap_cmd) d
         in (Some EPERM, set_last_error (''auth timeout req='' @ dec_str (unat request_id)) d))
      else
        (let d = d\<lparr>dv_auth_pending := False, dv_auth_decided := False\<rparr> in
         if \<not> dv_auth_allowed d then
           (let d = abk_fido_auth_start_cooldown_locked E d;
                d = abk_fido_set_last_trace_locked (req_text ''auth denied'' request_id ctap_cmd) d
            in (Some EPERM, set_last_error (''auth denied req='' @ dec_str (unat request_id)) d))
         else
           (let d = abk_fido_set_last_trace_locked (req_text ''auth allowed'' request_id ctap_cmd) d
            in (None, d\<lparr>dv_auth_deny_valid := False, dv_auth_cache_valid := True,
                  dv_auth_cache_expires := env_now E + env_msecs E ABK_FIDO_AUTH_CACHE_MS\<rparr>))))"

text \<open>
  The whole call.  \<open>wait d\<close> is what happens while the mutex is released: the result of
  \<open>wait_event_interruptible_timeout\<close>, \<open>jiffies\<close> after it, and the device as the other
  operations have left it.
\<close>

type_synonym auth_wait = "abk_fido_device \<Rightarrow> int \<times> u64 \<times> abk_fido_device"

definition abk_fido_auth_begin_locked ::
    "kenv \<Rightarrow> auth_wait \<Rightarrow> u8 \<Rightarrow> u8 list \<Rightarrow> bool \<Rightarrow> bool \<Rightarrow> abk_fido_device
     \<Rightarrow> ret \<times> kenv \<times> abk_fido_device" where
  "abk_fido_auth_begin_locked E wait ctap_cmd rp_id uv rk d =
     (case auth_check E ctap_cmd rp_id d of
        (Some ret, d) \<Rightarrow> (ret, E, d)
      | (None, d) \<Rightarrow>
          (case auth_post ctap_cmd rp_id uv rk d of
             (request_id, d) \<Rightarrow>
               (case wait d of
                  (wait_ret, now, d) \<Rightarrow>
                    (case auth_conclude (E\<lparr>env_now := now\<rparr>) ctap_cmd request_id wait_ret d of
                       (ret, d) \<Rightarrow> (ret, E\<lparr>env_now := now\<rparr>, d)))))"

definition abk_fido_auth_decide_locked ::
    "bool \<Rightarrow> u32 \<Rightarrow> bool \<Rightarrow> abk_fido_device \<Rightarrow> ret \<times> abk_fido_device" where
  "abk_fido_auth_decide_locked allow request_id check_id d =
     (if \<not> dv_auth_pending d then (Some ENOENT, d)
      else if check_id \<and> request_id \<noteq> dv_auth_request_id d then (Some ESTALE, d)
      else
        (let d = d\<lparr>dv_auth_allowed := allow, dv_auth_decided := True\<rparr>
         in (None, if allow then d else d\<lparr>dv_auth_cache_valid := False\<rparr>)))"

subsection \<open>The windows\<close>

definition in_cooldown :: "kenv \<Rightarrow> abk_fido_device \<Rightarrow> bool" where
  "in_cooldown E d \<longleftrightarrow> dv_auth_deny_valid d \<and> time_before (env_now E) (dv_auth_deny_expires d)"

definition in_grant :: "kenv \<Rightarrow> abk_fido_device \<Rightarrow> bool" where
  "in_grant E d \<longleftrightarrow> dv_auth_cache_valid d \<and> time_before (env_now E) (dv_auth_cache_expires d)"

lemma auth_check_cases:
  "fst (auth_check E cmd rp d) =
     (if in_cooldown E d then Some (Some EPERM) else if in_grant E d then Some None else None)"
  by (simp add: auth_check_def in_cooldown_def in_grant_def Let_def)

lemma auth_check_frame [simp]:
  "dv_auth_allowed (snd (auth_check E cmd rp d)) = dv_auth_allowed d"
  "dv_auth_decided (snd (auth_check E cmd rp d)) = dv_auth_decided d"
  "dv_auth_pending (snd (auth_check E cmd rp d)) = dv_auth_pending d"
  "dv_auth_request_id (snd (auth_check E cmd rp d)) = dv_auth_request_id d"
  "dv_store (snd (auth_check E cmd rp d)) = dv_store d"
  by (simp_all add: auth_check_def Let_def)

lemma auth_check_windows:
  "dv_auth_cache_valid (snd (auth_check E cmd rp d)) \<Longrightarrow> dv_auth_cache_valid d"
  "dv_auth_cache_expires (snd (auth_check E cmd rp d)) = dv_auth_cache_expires d"
  "dv_auth_deny_expires (snd (auth_check E cmd rp d)) = dv_auth_deny_expires d"
  by (auto simp: auth_check_def Let_def split: if_splits)

lemma auth_post_simps [simp]:
  "fst (auth_post cmd rp uv rk d) = dv_auth_request_id d + 1"
  "dv_auth_request_id (snd (auth_post cmd rp uv rk d)) = dv_auth_request_id d + 1"
  "dv_auth_pending (snd (auth_post cmd rp uv rk d))"
  "\<not> dv_auth_decided (snd (auth_post cmd rp uv rk d))"
  "\<not> dv_auth_allowed (snd (auth_post cmd rp uv rk d))"
  "dv_auth_cache_valid (snd (auth_post cmd rp uv rk d)) = dv_auth_cache_valid d"
  "dv_auth_cache_expires (snd (auth_post cmd rp uv rk d)) = dv_auth_cache_expires d"
  "dv_auth_deny_valid (snd (auth_post cmd rp uv rk d)) = dv_auth_deny_valid d"
  "dv_auth_deny_expires (snd (auth_post cmd rp uv rk d)) = dv_auth_deny_expires d"
  "dv_store (snd (auth_post cmd rp uv rk d)) = dv_store d"
  by (simp_all add: auth_post_def Let_def)

lemma auth_conclude_ret:
  "fst (auth_conclude E cmd rid w d) = (if 0 < w \<and> dv_auth_allowed d then None else Some EPERM)"
  by (simp add: auth_conclude_def Let_def)

lemma auth_conclude_simps [simp]:
  "dv_auth_allowed (snd (auth_conclude E cmd rid w d)) = dv_auth_allowed d"
  "dv_store (snd (auth_conclude E cmd rid w d)) = dv_store d"
  "\<not> dv_auth_pending (snd (auth_conclude E cmd rid w d))"
  "dv_auth_request_id (snd (auth_conclude E cmd rid w d)) = dv_auth_request_id d"
  by (simp_all add: auth_conclude_def Let_def abk_fido_auth_start_cooldown_locked_def)

lemma auth_conclude_cache:
  "dv_auth_cache_valid (snd (auth_conclude E cmd rid w d)) =
     (if w < 0 then dv_auth_cache_valid d else w \<noteq> 0 \<and> dv_auth_allowed d)"
  "dv_auth_cache_expires (snd (auth_conclude E cmd rid w d)) =
     (if 0 < w \<and> dv_auth_allowed d then env_now E + env_msecs E ABK_FIDO_AUTH_CACHE_MS
      else dv_auth_cache_expires d)"
  by (auto simp: auth_conclude_def Let_def abk_fido_auth_start_cooldown_locked_def)

lemma auth_conclude_deny:
  "0 \<le> w \<Longrightarrow> dv_auth_deny_valid (snd (auth_conclude E cmd rid w d)) = (w = 0 \<or> \<not> dv_auth_allowed d)"
  "w = 0 \<or> 0 < w \<and> \<not> dv_auth_allowed d \<Longrightarrow> dv_auth_deny_expires (snd (auth_conclude E cmd rid w d))
     = env_now E + env_msecs E ABK_FIDO_AUTH_DENY_MS"
  by (auto simp: auth_conclude_def Let_def abk_fido_auth_start_cooldown_locked_def)

text \<open>The device a request waits with: its prompt is posted, nothing is decided yet.\<close>

definition auth_posted ::
    "kenv \<Rightarrow> u8 \<Rightarrow> u8 list \<Rightarrow> bool \<Rightarrow> bool \<Rightarrow> abk_fido_device \<Rightarrow> abk_fido_device" where
  "auth_posted E cmd rp uv rk d = snd (auth_post cmd rp uv rk (snd (auth_check E cmd rp d)))"

lemma auth_begin_prompt:
  assumes "\<not> in_cooldown E d" "\<not> in_grant E d"
    "wait (auth_posted E cmd rp uv rk d) = (w, now, d')"
  shows "abk_fido_auth_begin_locked E wait cmd rp uv rk d =
    (case auth_conclude (E\<lparr>env_now := now\<rparr>) cmd (dv_auth_request_id d + 1) w d' of
       (ret, d'') \<Rightarrow> (ret, E\<lparr>env_now := now\<rparr>, d''))"
proof -
  obtain dc where dc: "auth_check E cmd rp d = (None, dc)"
    using auth_check_cases [of E cmd rp d] assms(1,2) by (metis prod.collapse)
  obtain dp where dp: "auth_post cmd rp uv rk dc = (dv_auth_request_id dc + 1, dp)"
    by (metis auth_post_simps(1) prod.collapse)
  have "dv_auth_request_id dc = dv_auth_request_id d"
    using auth_check_frame(4) [of E cmd rp d] dc by simp
  with dc dp assms(3) show ?thesis
    by (simp add: abk_fido_auth_begin_locked_def auth_posted_def)
qed

lemma auth_begin_early:
  assumes "in_cooldown E d \<or> in_grant E d"
  shows "abk_fido_auth_begin_locked E wait cmd rp uv rk d =
    (if in_cooldown E d then Some EPERM else None, E, snd (auth_check E cmd rp d))"
proof -
  obtain dc where "auth_check E cmd rp d = (Some (if in_cooldown E d then Some EPERM else None), dc)"
    using auth_check_cases [of E cmd rp d] assms by (metis prod.collapse)
  then show ?thesis by (simp add: abk_fido_auth_begin_locked_def)
qed

subsection \<open>What one request may expect\<close>

text \<open>
  C12. A request is granted exactly when no cooldown is running and either the grant window
  is open or, after the prompt it posts, the wait ends with a decision and the last decision
  is an approval.  Every other outcome is \<open>-EPERM\<close>.
\<close>

theorem auth_granted_iff:
  "fst (abk_fido_auth_begin_locked E wait cmd rp uv rk d) =
     (if \<not> in_cooldown E d
         \<and> (in_grant E d
            \<or> (case wait (auth_posted E cmd rp uv rk d) of
                 (w, now, d') \<Rightarrow> 0 < w \<and> dv_auth_allowed d'))
      then None else Some EPERM)"
proof (cases "in_cooldown E d \<or> in_grant E d")
  case True
  then show ?thesis by (auto simp: auth_begin_early)
next
  case False
  obtain w now d' where w:
    "wait (auth_posted E cmd rp uv rk d) = (w, now, d')"
    by (metis prod_cases3)
  show ?thesis
    using auth_begin_prompt [of E d wait cmd rp uv rk w now d'] False w
      auth_conclude_ret [of "E\<lparr>env_now := now\<rparr>" cmd "dv_auth_request_id d + 1" w d']
    by (simp split: prod.splits)
qed



text \<open>
  The grant window is shared: once a prompt is approved at time \<open>now\<close>, every request in the
  following \<open>ABK_FIDO_AUTH_CACHE_MS\<close> passes without a prompt, whatever its command (a reset
  included) and whatever relying party it names, not only a repetition of the approved one.
\<close>

theorem approval_opens_shared_window:
  assumes "\<not> in_cooldown E d" "\<not> in_grant E d"
    "wait (auth_posted E cmd rp uv rk d) = (w, now, d')"
    "0 < w" "dv_auth_allowed d'"
    "abk_fido_auth_begin_locked E wait cmd rp uv rk d = (ret, E1, d1)"
    "time_before (env_now E2) (now + env_msecs E ABK_FIDO_AUTH_CACHE_MS)"
  shows "ret = None
    \<and> fst (abk_fido_auth_begin_locked E2 wait2 cmd2 rp2 uv2 rk2 d1) = None
    \<and> dv_auth_request_id (snd (snd (abk_fido_auth_begin_locked E2 wait2 cmd2 rp2 uv2 rk2 d1)))
      = dv_auth_request_id d1"
proof -
  let ?c = "auth_conclude (E\<lparr>env_now := now\<rparr>) cmd (dv_auth_request_id d + 1) w d'"
  have c: "ret = fst ?c" "d1 = snd ?c"
    using auth_begin_prompt [of E d wait cmd rp uv rk w now d'] assms(1-3) assms(6) by (simp_all split: prod.splits)
  have "dv_auth_cache_valid d1" "dv_auth_cache_expires d1 = now + env_msecs E ABK_FIDO_AUTH_CACHE_MS"
    "\<not> dv_auth_deny_valid d1"
    unfolding c(2) using assms(4,5) by (simp_all add: auth_conclude_cache auth_conclude_deny)
  with assms(7) have "in_grant E2 d1" "\<not> in_cooldown E2 d1"
    by (simp_all add: in_grant_def in_cooldown_def)
  moreover have "ret = None"
    unfolding c(1) auth_conclude_ret using assms(4,5) by auto
  ultimately show ?thesis by (simp add: auth_begin_early)
qed

theorem approval_opens_shared_window_witness:
  "fst (abk_fido_auth_begin_locked (sample_env\<lparr>env_now := 7000\<rparr>) (\<lambda>d. (0, 7001, d))
     ABK_FIDO_CTAP_RESET [] False False
     (snd (snd (abk_fido_auth_begin_locked sample_env (\<lambda>d. (1, 5000, d\<lparr>dv_auth_allowed := True\<rparr>))
        ABK_FIDO_CTAP_GET_ASSERTION [] False False abk_fido_dev_initial)))) = None"
proof -
  have idle: "\<not> in_cooldown sample_env abk_fido_dev_initial" "\<not> in_grant sample_env abk_fido_dev_initial"
    by (simp_all add: in_cooldown_def in_grant_def abk_fido_dev_initial_def)
  have soon: "time_before (env_now (sample_env\<lparr>env_now := 7000\<rparr>))
      (5000 + env_msecs sample_env ABK_FIDO_AUTH_CACHE_MS)"
    by (simp add: time_before_def sample_env_def ABK_FIDO_AUTH_CACHE_MS_def)
  let ?a = "abk_fido_auth_begin_locked sample_env (\<lambda>d. (1, 5000, d\<lparr>dv_auth_allowed := True\<rparr>))
    ABK_FIDO_CTAP_GET_ASSERTION [] False False abk_fido_dev_initial"
  have "?a = (fst ?a, fst (snd ?a), snd (snd ?a))" by simp
  from approval_opens_shared_window [OF idle refl _ _ this soon] show ?thesis by simp
qed

subsection \<open>Any number of requests\<close>

text \<open>
  The steps of concurrent requests, of the user and of time.  Every step runs with the mutex
  held, in an environment \<open>E\<close> that gives the time; \<open>m\<close> converts milliseconds to ticks.  A
  request that has posted its prompt waits; the wait ends with 1 once it sees a decision,
  with 0 on timeout and with -1 when interrupted, and the request goes on later, when it gets
  the mutex back, with the device as it then is.
\<close>

datatype waiter = Waiting u32 u8 | Woken u32 u8 int

record auth_sys =
  as_dev :: abk_fido_device
  as_waiters :: "waiter list"

datatype auth_event =
    Prompted u32 u8
  | Decided bool "u32 option"
  | GrantedByPrompt u64 u32 u8
  | GrantedByWindow u64 u8
  | Refused u8
  | Quiet

inductive auth_step :: "(nat \<Rightarrow> u64) \<Rightarrow> auth_sys \<Rightarrow> auth_event \<Rightarrow> auth_sys \<Rightarrow> bool"
  for m :: "nat \<Rightarrow> u64"
where
  early: "env_msecs E = m \<Longrightarrow> auth_check E cmd rp (as_dev s) = (Some ret, d) \<Longrightarrow>
     ev = (if ret = None then GrantedByWindow (env_now E) cmd else Refused cmd) \<Longrightarrow>
     auth_step m s ev (s\<lparr>as_dev := d\<rparr>)"
| prompt: "env_msecs E = m \<Longrightarrow> auth_check E cmd rp (as_dev s) = (None, d) \<Longrightarrow>
     auth_post cmd rp uv rk d = (req, d') \<Longrightarrow>
     auth_step m s (Prompted req cmd) \<lparr>as_dev = d', as_waiters = Waiting req cmd # as_waiters s\<rparr>"
| decide: "abk_fido_auth_decide_locked allow req check (as_dev s) = (None, d) \<Longrightarrow>
     auth_step m s (Decided allow (if check then Some req else None)) (s\<lparr>as_dev := d\<rparr>)"
| decide_fails: "abk_fido_auth_decide_locked allow req check (as_dev s) = (Some e, d) \<Longrightarrow>
     auth_step m s Quiet (s\<lparr>as_dev := d\<rparr>)"
| wake: "as_waiters s = as @ Waiting req cmd # bs \<Longrightarrow>
     w = (if dv_auth_decided (as_dev s) then 1 else 0) \<or> w = -1 \<Longrightarrow>
     auth_step m s Quiet (s\<lparr>as_waiters := as @ Woken req cmd w # bs\<rparr>)"
| resume: "env_msecs E = m \<Longrightarrow> as_waiters s = as @ Woken req cmd w # bs \<Longrightarrow>
     auth_conclude E cmd req w (as_dev s) = (ret, d) \<Longrightarrow>
     ev = (if ret = None then GrantedByPrompt (env_now E) req cmd else Refused cmd) \<Longrightarrow>
     auth_step m s ev \<lparr>as_dev = d, as_waiters = as @ bs\<rparr>"

inductive_cases auth_stepE: "auth_step m s ev s'"

text \<open>Runs from boot, with the events so far, the latest first.\<close>

inductive auth_run :: "(nat \<Rightarrow> u64) \<Rightarrow> auth_event list \<Rightarrow> auth_sys \<Rightarrow> bool"
  for m :: "nat \<Rightarrow> u64"
where
  boot: "auth_run m [] \<lparr>as_dev = abk_fido_dev_initial, as_waiters = []\<rparr>"
| step: "auth_run m tr s \<Longrightarrow> auth_step m s ev s' \<Longrightarrow> auth_run m (ev # tr) s'"

definition is_prompt :: "auth_event \<Rightarrow> bool" where
  "is_prompt ev = (case ev of Prompted req cmd \<Rightarrow> True | _ \<Rightarrow> False)"

text \<open>The events since the last prompt was posted.\<close>

definition since_prompt :: "auth_event list \<Rightarrow> auth_event list" where
  "since_prompt tr = takeWhile (\<lambda>ev. \<not> is_prompt ev) tr"

lemma since_prompt_simps [simp]:
  "since_prompt (Prompted req cmd # tr) = []"
  "since_prompt (Decided a i # tr) = Decided a i # since_prompt tr"
  "since_prompt (GrantedByPrompt t req cmd # tr) = GrantedByPrompt t req cmd # since_prompt tr"
  "since_prompt (GrantedByWindow t cmd # tr) = GrantedByWindow t cmd # since_prompt tr"
  "since_prompt (Refused cmd # tr) = Refused cmd # since_prompt tr"
  "since_prompt (Quiet # tr) = Quiet # since_prompt tr"
  by (simp_all add: since_prompt_def is_prompt_def)

definition auth_inv :: "(nat \<Rightarrow> u64) \<Rightarrow> auth_event list \<Rightarrow> auth_sys \<Rightarrow> bool" where
  "auth_inv m tr s \<longleftrightarrow>
     (dv_auth_allowed (as_dev s) \<longrightarrow> (\<exists>i. Decided True i \<in> set (since_prompt tr)))
     \<and> (dv_auth_cache_valid (as_dev s) \<longrightarrow>
          (\<exists>t req cmd. GrantedByPrompt t req cmd \<in> set tr
             \<and> dv_auth_cache_expires (as_dev s) = t + m ABK_FIDO_AUTH_CACHE_MS))"

lemma auth_inv_frame:
  assumes "auth_inv m tr s" "dv_auth_allowed d \<longrightarrow> dv_auth_allowed (as_dev s)"
    "dv_auth_cache_valid d \<longrightarrow> dv_auth_cache_valid (as_dev s)"
    "dv_auth_cache_expires d = dv_auth_cache_expires (as_dev s)" "\<not> is_prompt ev"
    "as_dev s' = d"
  shows "auth_inv m (ev # tr) s'"
  using assms by (fastforce simp: auth_inv_def since_prompt_def)

lemma decide_simps:
  assumes "abk_fido_auth_decide_locked allow req check d = (ret, d')"
  shows "dv_auth_cache_expires d' = dv_auth_cache_expires d"
    "dv_auth_cache_valid d' \<longrightarrow> dv_auth_cache_valid d"
    "ret = None \<Longrightarrow> dv_auth_allowed d' = allow \<and> dv_auth_decided d'"
    "ret \<noteq> None \<Longrightarrow> d' = d"
  using assms by (auto simp: abk_fido_auth_decide_locked_def Let_def split: if_splits)

lemma auth_inv_step:
  assumes "auth_inv m tr s" "auth_step m s ev s'"
  shows "auth_inv m (ev # tr) s'"
  using assms(2)
proof (cases rule: auth_step.cases)
  case (early E cmd rp ret d)
  with auth_check_frame(1) [of E cmd rp "as_dev s"] auth_check_windows [of E cmd rp "as_dev s"]
  show ?thesis by (intro auth_inv_frame [OF assms(1), where d = d]) (auto simp: is_prompt_def)
next
  case (prompt E cmd rp d uv rk req d')
  have "dv_auth_cache_valid d \<longrightarrow> dv_auth_cache_valid (as_dev s)"
    "dv_auth_cache_expires d = dv_auth_cache_expires (as_dev s)"
    using auth_check_windows [of E cmd rp "as_dev s"] prompt(4) by auto
  moreover have "\<not> dv_auth_allowed d'" "dv_auth_cache_valid d' = dv_auth_cache_valid d"
    "dv_auth_cache_expires d' = dv_auth_cache_expires d"
    using auth_post_simps [of cmd rp uv rk d] prompt(5) by auto
  ultimately show ?thesis using assms(1) prompt(1,2) by (fastforce simp: auth_inv_def)
next
  case (decide allow req check d)
  with decide_simps [OF decide(3)] assms(1) show ?thesis by (fastforce simp: auth_inv_def)
next
  case (decide_fails allow req check e d)
  with decide_simps(4) [OF decide_fails(3)] show ?thesis
    by (intro auth_inv_frame [OF assms(1), where d = d]) (auto simp: is_prompt_def)
next
  case (wake as req cmd bs w)
  then show ?thesis
    by (intro auth_inv_frame [OF assms(1), where d = "as_dev s"]) (auto simp: is_prompt_def)
next
  case (resume E as req cmd w bs ret d)
  note c = auth_conclude_ret [of E cmd req w "as_dev s"] auth_conclude_cache [of E cmd req w "as_dev s"]
    auth_conclude_simps(1) [of E cmd req w "as_dev s"]
  show ?thesis
  proof (cases "0 < w \<and> dv_auth_allowed (as_dev s)")
    case True
    then show ?thesis using resume c assms(1) by (auto simp: auth_inv_def)
  next
    case False
    then show ?thesis using resume c
      by (intro auth_inv_frame [OF assms(1), where d = d]) (auto simp: is_prompt_def split: if_splits)
  qed
qed

lemma auth_inv_run: "auth_run m tr s \<Longrightarrow> auth_inv m tr s"
proof (induction rule: auth_run.induct)
  case boot
  then show ?case by (simp add: auth_inv_def abk_fido_dev_initial_def)
next
  case (step tr s ev s')
  then show ?case by (blast intro: auth_inv_step)
qed

lemma auth_run_split:
  "auth_run m tr s \<Longrightarrow> tr = later @ ev # earlier \<Longrightarrow>
     \<exists>s1 s2. auth_run m earlier s1 \<and> auth_step m s1 ev s2"
proof (induction arbitrary: later rule: auth_run.induct)
  case boot
  then show ?case by simp
next
  case (step tr s ev' s')
  then show ?case by (cases later) auto
qed

text \<open>
  C6. No grant without an approval: in every run from boot, however many requests wait at
  the same time and however their steps interleave with decisions, timeouts and signals, a
  request is granted after a prompt only if the user approved since the last prompt was
  posted, and granted without one only within \<open>ABK_FIDO_AUTH_CACHE_MS\<close> of such a grant.
\<close>

theorem grants_are_approved:
  assumes "auth_run m (later @ ev # earlier) s"
  shows "(\<forall>t req cmd. ev = GrantedByPrompt t req cmd \<longrightarrow>
            (\<exists>i. Decided True i \<in> set (since_prompt earlier)))
    \<and> (\<forall>t cmd. ev = GrantedByWindow t cmd \<longrightarrow>
          (\<exists>t0 req0 cmd0. GrantedByPrompt t0 req0 cmd0 \<in> set earlier
             \<and> time_before t (t0 + m ABK_FIDO_AUTH_CACHE_MS)))"
proof -
  from auth_run_split [OF assms refl] obtain s1 s2
    where run: "auth_run m earlier s1" and step: "auth_step m s1 ev s2" by blast
  have inv: "auth_inv m earlier s1" using run by (rule auth_inv_run)
  from step show ?thesis
  proof (cases rule: auth_step.cases)
    case (early E cmd rp ret d)
    with auth_check_cases [of E cmd rp "as_dev s1"] inv show ?thesis
      by (auto simp: in_grant_def auth_inv_def split: if_splits) blast+
  next
    case (resume E as req cmd w bs ret d)
    with auth_conclude_ret [of E cmd req w "as_dev s1"] inv show ?thesis
      by (auto simp: auth_inv_def split: if_splits)
  qed simp_all
qed

subsection \<open>Two prompts at once\<close>

text \<open>
  The two transports have workers of their own, so a second request may post its prompt while
  the first one waits.  \<open>confused_run\<close> follows one such run, event by event.
\<close>

definition first_prompt :: abk_fido_device where
  "first_prompt = snd (auth_post ABK_FIDO_CTAP_MAKE_CREDENTIAL [] False False
     (abk_fido_dev_initial\<lparr>dv_auth_cache_valid := False\<rparr>))"

definition second_prompt :: abk_fido_device where
  "second_prompt = snd (auth_post ABK_FIDO_CTAP_GET_ASSERTION [] False False
     (first_prompt\<lparr>dv_auth_cache_valid := False\<rparr>))"

definition approved_second :: abk_fido_device where
  "approved_second = snd (abk_fido_auth_decide_locked True 2 True second_prompt)"

lemma confused_prompts:
  "auth_run (env_msecs sample_env)
     [Prompted 2 ABK_FIDO_CTAP_GET_ASSERTION, Prompted 1 ABK_FIDO_CTAP_MAKE_CREDENTIAL]
     \<lparr>as_dev = second_prompt, as_waiters =
        [Waiting 2 ABK_FIDO_CTAP_GET_ASSERTION, Waiting 1 ABK_FIDO_CTAP_MAKE_CREDENTIAL]\<rparr>"
proof -
  have "auth_check sample_env ABK_FIDO_CTAP_MAKE_CREDENTIAL [] abk_fido_dev_initial
      = (None, abk_fido_dev_initial\<lparr>dv_auth_cache_valid := False\<rparr>)"
    by (simp add: auth_check_def abk_fido_dev_initial_def)
  moreover have "auth_post ABK_FIDO_CTAP_MAKE_CREDENTIAL [] False False
      (abk_fido_dev_initial\<lparr>dv_auth_cache_valid := False\<rparr>) = (1, first_prompt)"
    by (simp add: first_prompt_def prod_eq_iff) (simp add: abk_fido_dev_initial_def)
  ultimately have "auth_run (env_msecs sample_env) [Prompted 1 ABK_FIDO_CTAP_MAKE_CREDENTIAL]
      \<lparr>as_dev = first_prompt, as_waiters = [Waiting 1 ABK_FIDO_CTAP_MAKE_CREDENTIAL]\<rparr>"
    using auth_run.step [OF auth_run.boot auth_step.prompt, of sample_env "env_msecs sample_env"] by simp
  moreover have first: "\<not> dv_auth_deny_valid first_prompt" "\<not> dv_auth_cache_valid first_prompt"
    "dv_auth_request_id first_prompt = 1"
    by (simp_all add: first_prompt_def) (simp_all add: abk_fido_dev_initial_def)
  then have "auth_check sample_env ABK_FIDO_CTAP_GET_ASSERTION [] first_prompt
      = (None, first_prompt\<lparr>dv_auth_cache_valid := False\<rparr>)"
    by (simp add: auth_check_def)
  moreover have "auth_post ABK_FIDO_CTAP_GET_ASSERTION [] False False
      (first_prompt\<lparr>dv_auth_cache_valid := False\<rparr>) = (2, second_prompt)"
    using first by (simp add: second_prompt_def prod_eq_iff)
  ultimately show ?thesis
    using auth_run.step [OF _ auth_step.prompt, of "env_msecs sample_env" _ _ sample_env] by fastforce
qed

lemma second_prompt_state:
  "dv_auth_pending second_prompt" "\<not> dv_auth_decided second_prompt"
  "dv_auth_request_id second_prompt = 2"
proof -
  show "dv_auth_pending second_prompt" "\<not> dv_auth_decided second_prompt"
    by (simp_all add: second_prompt_def)
  have "dv_auth_request_id first_prompt = 1"
    by (simp add: first_prompt_def) (simp add: abk_fido_dev_initial_def)
  then show "dv_auth_request_id second_prompt = 2" by (simp add: second_prompt_def)
qed

lemma approved_second_state:
  "abk_fido_auth_decide_locked True 2 True second_prompt = (None, approved_second)"
  "dv_auth_decided approved_second" "dv_auth_allowed approved_second"
  using second_prompt_state
  by (simp_all add: approved_second_def abk_fido_auth_decide_locked_def Let_def)

lemma auth_conclude_undecided: "0 \<le> w \<Longrightarrow> \<not> dv_auth_decided (snd (auth_conclude E cmd rid w d))"
  by (simp add: auth_conclude_def Let_def abk_fido_auth_start_cooldown_locked_def)

lemma confused_run:
  "\<exists>s. auth_run (env_msecs sample_env)
     [Refused ABK_FIDO_CTAP_GET_ASSERTION, Quiet,
      GrantedByPrompt 1000 1 ABK_FIDO_CTAP_MAKE_CREDENTIAL, Quiet, Decided True (Some 2),
      Prompted 2 ABK_FIDO_CTAP_GET_ASSERTION, Prompted 1 ABK_FIDO_CTAP_MAKE_CREDENTIAL] s"
proof -
  let ?m = "env_msecs sample_env"
  let ?mc = ABK_FIDO_CTAP_MAKE_CREDENTIAL and ?ga = ABK_FIDO_CTAP_GET_ASSERTION
  let ?after = "snd (auth_conclude sample_env ?mc 1 1 approved_second)"
  have now: "env_now sample_env = 1000" by (simp add: sample_env_def)
  have "auth_step ?m \<lparr>as_dev = second_prompt, as_waiters = [Waiting 2 ?ga, Waiting 1 ?mc]\<rparr>
      (Decided True (Some 2)) \<lparr>as_dev = approved_second, as_waiters = [Waiting 2 ?ga, Waiting 1 ?mc]\<rparr>"
    using auth_step.decide [of True 2 True "\<lparr>as_dev = second_prompt, as_waiters = [Waiting 2 ?ga, Waiting 1 ?mc]\<rparr>"]
      approved_second_state(1) by simp
  note r1 = auth_run.step [OF confused_prompts this]
  have "auth_step ?m \<lparr>as_dev = approved_second, as_waiters = [Waiting 2 ?ga, Waiting 1 ?mc]\<rparr>
      Quiet \<lparr>as_dev = approved_second, as_waiters = [Waiting 2 ?ga, Woken 1 ?mc 1]\<rparr>"
    using auth_step.wake [of "\<lparr>as_dev = approved_second, as_waiters = [Waiting 2 ?ga, Waiting 1 ?mc]\<rparr>"
        "[Waiting 2 ?ga]" 1 ?mc "[]" 1 ?m] approved_second_state(2) by simp
  note r2 = auth_run.step [OF r1 this]
  have "fst (auth_conclude sample_env ?mc 1 1 approved_second) = None"
    by (simp add: auth_conclude_ret approved_second_state)
  then have "auth_conclude sample_env ?mc 1 1 approved_second = (None, ?after)"
    by (metis prod.collapse)
  then have "auth_step ?m \<lparr>as_dev = approved_second, as_waiters = [Waiting 2 ?ga, Woken 1 ?mc 1]\<rparr>
      (GrantedByPrompt 1000 1 ?mc) \<lparr>as_dev = ?after, as_waiters = [Waiting 2 ?ga]\<rparr>"
    using auth_step.resume [of sample_env ?m
        "\<lparr>as_dev = approved_second, as_waiters = [Waiting 2 ?ga, Woken 1 ?mc 1]\<rparr>"
        "[Waiting 2 ?ga]" 1 ?mc 1 "[]" None ?after "GrantedByPrompt 1000 1 ?mc"] now by simp
  note r3 = auth_run.step [OF r2 this]
  have "auth_step ?m \<lparr>as_dev = ?after, as_waiters = [Waiting 2 ?ga]\<rparr>
      Quiet \<lparr>as_dev = ?after, as_waiters = [Woken 2 ?ga 0]\<rparr>"
    using auth_step.wake [of "\<lparr>as_dev = ?after, as_waiters = [Waiting 2 ?ga]\<rparr>" "[]" 2 ?ga "[]" 0 ?m]
      auth_conclude_undecided [of 1 sample_env ?mc 1 approved_second] by simp
  note r4 = auth_run.step [OF r3 this]
  obtain d where "auth_conclude sample_env ?ga 2 0 ?after = (Some EPERM, d)"
    using auth_conclude_ret [of sample_env ?ga 2 0 ?after] by (metis less_irrefl prod.collapse)
  then have "auth_step ?m \<lparr>as_dev = ?after, as_waiters = [Woken 2 ?ga 0]\<rparr>
      (Refused ?ga) \<lparr>as_dev = d, as_waiters = []\<rparr>"
    using auth_step.resume [of sample_env ?m "\<lparr>as_dev = ?after, as_waiters = [Woken 2 ?ga 0]\<rparr>"
        "[]" 2 ?ga 0 "[]" "Some EPERM" d "Refused ?ga"] by simp
  from auth_run.step [OF r4 this] show ?thesis by blast
qed

text \<open>
  An approval can release the wrong request: in a run from boot a credential creation
  (request 1) and an assertion (request 2) wait at the same time, the user approves request 2
  by its number, and it is request 1 that is granted; request 2 then runs into its timeout.
\<close>

theorem approval_reaches_other_request:
  "\<exists>s. auth_run (env_msecs sample_env)
     [Refused ABK_FIDO_CTAP_GET_ASSERTION, Quiet,
      GrantedByPrompt 1000 1 ABK_FIDO_CTAP_MAKE_CREDENTIAL, Quiet, Decided True (Some 2),
      Prompted 2 ABK_FIDO_CTAP_GET_ASSERTION, Prompted 1 ABK_FIDO_CTAP_MAKE_CREDENTIAL] s"
  by (rule confused_run)

theorem grants_are_approved_witness:
  "\<exists>i. Decided True i \<in> set (since_prompt [Quiet, Decided True (Some 2),
      Prompted 2 ABK_FIDO_CTAP_GET_ASSERTION, Prompted 1 ABK_FIDO_CTAP_MAKE_CREDENTIAL])"
proof -
  let ?earlier = "[Quiet, Decided True (Some 2),
      Prompted 2 ABK_FIDO_CTAP_GET_ASSERTION, Prompted 1 ABK_FIDO_CTAP_MAKE_CREDENTIAL]"
  obtain s where "auth_run (env_msecs sample_env)
     ([Refused ABK_FIDO_CTAP_GET_ASSERTION, Quiet]
      @ GrantedByPrompt 1000 1 ABK_FIDO_CTAP_MAKE_CREDENTIAL # ?earlier) s"
    using confused_run by auto
  from grants_are_approved [OF this] show ?thesis by blast
qed

end
