(* ===== verification/Ecdsa_Sign.thy ===== *)
theory Ecdsa_Sign
  imports Kernel_Lib
begin

unbundle bit_operations_syntax

section \<open>Signatures: multi-word arithmetic and DER\<close>

text \<open>
  The part of signing that is the driver's own: conversions between byte strings and 64-bit
  digits (least significant first), carry propagation (\<open>abk_fido_vli_add\<close>,
  \<open>abk_fido_vli_mod_add\<close>), the retry loop of \<open>abk_fido_ecdsa_sign_p256\<close> and the DER encoding of
  its result.  The point and modular operations are the kernel's (\<open>klib\<close>).
\<close>

definition ECC_CURVE_NIST_P256_DIGITS :: nat where
  "ECC_CURVE_NIST_P256_DIGITS = 4"

definition ABK_FIDO_MAX_SIG_DER :: nat where
  "ABK_FIDO_MAX_SIG_DER = 80"

text \<open>
  \<open>len\<close> bytes into \<open>digits\<close>.  The \<open>memset\<close> of the short-input case starts at
  \<open>digits[ndigits - 1]\<close> of the already reduced \<open>ndigits\<close>, as written.
\<close>

definition abk_fido_digits_from_bytes ::
    "klib \<Rightarrow> u8 list \<Rightarrow> nat \<Rightarrow> u64 list \<Rightarrow> nat \<Rightarrow> u64 list" where
  "abk_fido_digits_from_bytes K bytes len digits ndigits =
     (let diff = int ndigits - int ((len + 7) div 8);
          rem = len mod 8;
          (digits, ndigits) =
            (if diff > 0 then
               (let nd = ndigits - nat diff
                in (overwrite (nd - 1) (replicate (nat diff) 0) digits, nd))
             else (digits, ndigits));
          (digits, ndigits, bytes) =
            (if rem \<noteq> 0 then
               (digits[ndigits - 1 := word_of_nat (be_val (take rem bytes))], ndigits - 1, drop rem bytes)
             else (digits, ndigits, bytes))
      in overwrite 0 (kl_ecc_swap_digits K bytes ndigits) digits)"

definition abk_fido_digits_to_bytes :: "u64 list \<Rightarrow> nat \<Rightarrow> nat \<Rightarrow> u8 list" where
  "abk_fido_digits_to_bytes digits ndigits out_len =
     fold (\<lambda>i out. overwrite (i * 8) (be_bytes 8 (unat (digits ! (ndigits - 1 - i)))) out)
       [0..<ndigits] (replicate out_len 0)"

fun vli_add_loop :: "u64 \<Rightarrow> u64 list \<Rightarrow> u64 list \<Rightarrow> u64 list \<times> u64" where
  "vli_add_loop carry (l # ls) (r # rs) =
     (let prev = l + carry;
          sum = prev + r;
          carry' = (if prev < l \<or> sum < prev then 1 else 0);
          (rest, out) = vli_add_loop carry' ls rs
      in (sum # rest, out))"
| "vli_add_loop carry _ _ = ([], carry)"

text \<open>The sum's digits and the carry out.\<close>

definition abk_fido_vli_add :: "u64 list \<Rightarrow> u64 list \<Rightarrow> nat \<Rightarrow> u64 list \<times> u64" where
  "abk_fido_vli_add left right ndigits = vli_add_loop 0 (take ndigits left) (take ndigits right)"

definition abk_fido_vli_mod_add :: "klib \<Rightarrow> u64 list \<Rightarrow> u64 list \<Rightarrow> u64 list \<Rightarrow> nat \<Rightarrow> u64 list" where
  "abk_fido_vli_mod_add K left right modulus ndigits =
     (case abk_fido_vli_add left right ndigits of
        (result, carry) \<Rightarrow>
          if carry \<noteq> 0 \<or> kl_vli_cmp K result modulus \<ge> 0
          then kl_vli_sub K result modulus else result)"

subsection \<open>DER\<close>

text \<open>The 32 bytes of \<open>r\<close> or \<open>s\<close> with a sign byte where the top bit is set, then trimmed.\<close>

function der_trim :: "u8 list \<Rightarrow> u8 list" where
  "der_trim e =
     (if 1 < length e \<and> e ! 0 = 0 \<and> e ! 1 AND 0x80 = 0 then der_trim (tl e) else e)"
  by pat_completeness auto
termination by (relation "measure length") auto

declare der_trim.simps [simp del]

definition der_int :: "u8 list \<Rightarrow> u8 list" where
  "der_int bytes = der_trim (if bytes ! 0 AND 0x80 \<noteq> 0 then 0 # bytes else bytes)"

definition der_signature :: "u8 list \<Rightarrow> u8 list \<Rightarrow> errno + u8 list" where
  "der_signature r_bytes s_bytes =
     (let enc_r = der_int r_bytes;
          enc_s = der_int s_bytes;
          r_len = length enc_r;
          s_len = length enc_s
      in if 6 + r_len + s_len > ABK_FIDO_MAX_SIG_DER then Inl EOVERFLOW
         else Inr ([0x30, word_of_nat (4 + r_len + s_len), 0x02, word_of_nat r_len] @ enc_r
                   @ [0x02, word_of_nat s_len] @ enc_s))"

subsection \<open>The signing loop\<close>

text \<open>\<open>while (vli_cmp(r, n) >= 0) vli_sub(r, r, n)\<close>, \<open>None\<close> when the fuel is used up.\<close>

fun vli_reduce :: "klib \<Rightarrow> nat \<Rightarrow> u64 list \<Rightarrow> u64 list option" where
  "vli_reduce K 0 r = None"
| "vli_reduce K (Suc fuel) r =
     (if kl_vli_cmp K r (kl_curve_n K) \<ge> 0 then vli_reduce K fuel (kl_vli_sub K r (kl_curve_n K))
      else Some r)"

text \<open>
  A 256-bit number is less than twice the order of P-256, so one subtraction is enough;
  \<open>reduce_fuel\<close> allows for one and the final test.
\<close>

definition reduce_fuel :: nat where
  "reduce_fuel = 2"

definition digits_bytes :: "u64 list \<Rightarrow> u8 list" where
  "digits_bytes ds = concat (map (\<lambda>d. le_bytes 8 (unat d)) ds)"

datatype sign_try = SignError errno | SignRetry | SignDone "u64 list" "u64 list"

definition ecdsa_try :: "klib \<Rightarrow> nat \<Rightarrow> u64 list \<Rightarrow> u64 list \<Rightarrow> sign_try" where
  "ecdsa_try K tries d z =
     (case kl_ecc_gen_privkey K tries of
        Inl e \<Rightarrow> SignError e
      | Inr k \<Rightarrow>
          (case kl_ecc_make_pub_key K k of
             Inl _ \<Rightarrow> SignRetry
           | Inr pub \<Rightarrow>
               (case vli_reduce K reduce_fuel
                       (abk_fido_digits_from_bytes K (take 32 (digits_bytes pub)) 32 (replicate 4 0) 4) of
                  None \<Rightarrow> SignRetry
                | Some r \<Rightarrow>
                    if kl_vli_is_zero K r then SignRetry
                    else
                      (let rd = kl_vli_mod_mult_slow K r d (kl_curve_n K);
                           sum = abk_fido_vli_mod_add K z rd (kl_curve_n K) 4
                       in if kl_vli_is_zero K sum then SignRetry
                          else
                            (let k_int = abk_fido_digits_from_bytes K (digits_bytes k) 32 (replicate 4 0) 4;
                                 kinv = kl_vli_mod_inv K k_int (kl_curve_n K);
                                 s = kl_vli_mod_mult_slow K kinv sum (kl_curve_n K)
                             in if kl_vli_is_zero K s then SignRetry else SignDone r s)))))"

fun sign_loop :: "klib \<Rightarrow> nat \<Rightarrow> nat \<Rightarrow> u64 list \<Rightarrow> u64 list \<Rightarrow> errno + (u64 list \<times> u64 list)" where
  "sign_loop K 0 tries d z = Inl EAGAIN"
| "sign_loop K (Suc left) tries d z =
     (case ecdsa_try K tries d z of
        SignError e \<Rightarrow> Inl e
      | SignRetry \<Rightarrow> sign_loop K left (Suc tries) d z
      | SignDone r s \<Rightarrow> Inr (r, s))"

definition abk_fido_ecdsa_sign_p256 :: "klib \<Rightarrow> u8 list \<Rightarrow> u8 list \<Rightarrow> errno + u8 list" where
  "abk_fido_ecdsa_sign_p256 K priv_bytes hash_bytes =
     (let d = abk_fido_digits_from_bytes K priv_bytes 32 (replicate 4 0) ECC_CURVE_NIST_P256_DIGITS;
          z = abk_fido_digits_from_bytes K hash_bytes 32 (replicate 4 0) ECC_CURVE_NIST_P256_DIGITS
      in case sign_loop K 16 0 d z of
           Inl e \<Rightarrow> Inl e
         | Inr (r, s) \<Rightarrow>
             der_signature (abk_fido_digits_to_bytes r ECC_CURVE_NIST_P256_DIGITS 32)
               (abk_fido_digits_to_bytes s ECC_CURVE_NIST_P256_DIGITS 32))"

subsection \<open>Carries\<close>

lemma vli_val_less: "vli_val ds < 2 ^ (64 * length ds)"
proof (induction ds)
  case (Cons d ds)
  have "unat d < 2 ^ 64" using unsigned_less [of d] by simp
  moreover from Cons have "Suc (vli_val ds) \<le> 2 ^ (64 * length ds)" by simp
  then have "2 ^ 64 * Suc (vli_val ds) \<le> 2 ^ 64 * 2 ^ (64 * length ds)" by (rule mult_le_mono2)
  ultimately have "unat d + 2 ^ 64 * vli_val ds < 2 ^ 64 * 2 ^ (64 * length ds)"
    unfolding mult_Suc_right by linarith
  then show ?case by (simp add: power_add)
qed simp

lemma add_carry_digit:
  fixes l r c :: u64
  assumes "c = 0 \<or> c = 1"
  shows "unat (l + c + r) + 2 ^ 64 * (if l + c < l \<or> l + c + r < l + c then 1 else 0)
    = unat l + unat c + unat r"
proof -
  have b: "unat l < 2 ^ 64" "unat r < 2 ^ 64" using unsigned_less [of l] unsigned_less [of r] by simp_all
  have c: "unat c \<le> 1" using assms by auto
  have s1: "unat (l + c) = (unat l + unat c) mod 2 ^ 64" by (simp add: unat_word_ariths)
  have s2: "unat (l + c + r) = (unat (l + c) + unat r) mod 2 ^ 64" by (simp add: unat_word_ariths)
  show ?thesis
  proof (cases "unat l + unat c < 2 ^ 64")
    case True
    then have lc: "unat (l + c) = unat l + unat c" using s1 by simp
    then have nl: "\<not> l + c < l" by (simp add: word_less_nat_alt)
    show ?thesis
    proof (cases "unat l + unat c + unat r < 2 ^ 64")
      case True
      then show ?thesis using lc s2 nl by (simp add: word_less_nat_alt)
    next
      case False
      then have "unat (l + c + r) = unat l + unat c + unat r - 2 ^ 64"
        using lc s2 b c by (simp add: mod_if)
      moreover from this have "unat (l + c + r) < unat (l + c)" using lc False b by linarith
      then have "l + c + r < l + c" by (simp add: word_less_nat_alt)
      ultimately show ?thesis using False by simp
    qed
  next
    case False
    then have "unat l = 2 ^ 64 - 1" "unat c = 1" using b c by linarith+
    then have "unat (l + c) = 0" using s1 by simp
    then show ?thesis using s2 b \<open>unat l = 2 ^ 64 - 1\<close> \<open>unat c = 1\<close> by (simp add: word_less_nat_alt)
  qed
qed

lemma vli_add_loop_val:
  "length ls = length rs \<Longrightarrow> c = 0 \<or> c = 1 \<Longrightarrow>
     (case vli_add_loop c ls rs of
        (res, carry) \<Rightarrow> length res = length ls \<and> (carry = 0 \<or> carry = 1)
          \<and> vli_val res + 2 ^ (64 * length ls) * unat carry = vli_val ls + vli_val rs + unat c)"
proof (induction c ls rs rule: vli_add_loop.induct)
  case (1 c l ls r rs)
  let ?c = "if l + c < l \<or> l + c + r < l + c then 1 else 0 :: u64"
  obtain res carry where rec: "vli_add_loop ?c ls rs = (res, carry)" by fastforce
  have IH: "length res = length ls" "carry = 0 \<or> carry = 1"
    "vli_val res + 2 ^ (64 * length ls) * unat carry = vli_val ls + vli_val rs + unat ?c"
    using "1.IH" [OF refl refl refl] "1.prems" rec by auto
  have digit: "unat (l + c + r) + 2 ^ 64 * unat ?c = unat l + unat c + unat r"
    using add_carry_digit [OF "1.prems"(2), of l r] by auto
  have "2 ^ (64 * length (l # ls)) * unat carry = 2 ^ 64 * (2 ^ (64 * length ls) * unat carry)"
    by (simp add: power_add)
  then have "vli_val ((l + c + r) # res) + 2 ^ (64 * length (l # ls)) * unat carry
      = unat (l + c + r) + 2 ^ 64 * (vli_val res + 2 ^ (64 * length ls) * unat carry)"
    by (simp add: distrib_left)
  also have "\<dots> = (unat (l + c + r) + 2 ^ 64 * unat ?c) + 2 ^ 64 * (vli_val ls + vli_val rs)"
    unfolding IH(3) by (simp add: distrib_left)
  also have "\<dots> = vli_val (l # ls) + vli_val (r # rs) + unat c"
    unfolding digit by (simp add: distrib_left)
  finally have val: "vli_val ((l + c + r) # res) + 2 ^ (64 * length (l # ls)) * unat carry
      = vli_val (l # ls) + vli_val (r # rs) + unat c" .
  have "vli_add_loop c (l # ls) (r # rs) = ((l + c + r) # res, carry)"
    using rec by (simp add: Let_def)
  then show ?case using val IH(1,2) by (simp del: vli_val.simps)
qed auto

subsection \<open>What the library is relied on for\<close>

text \<open>
  \<open>vli_cmp\<close> orders and \<open>vli_sub\<close> subtracts, modulo 2^256, numbers of four digits.
\<close>

definition vli_laws :: "klib \<Rightarrow> bool" where
  "vli_laws K \<longleftrightarrow> (\<forall>a b. length a = 4 \<longrightarrow> length b = 4 \<longrightarrow>
     (kl_vli_cmp K a b \<ge> 0 \<longleftrightarrow> vli_val b \<le> vli_val a)
     \<and> length (kl_vli_sub K a b) = 4
     \<and> vli_val (kl_vli_sub K a b) = (vli_val a + 2 ^ 256 - vli_val b) mod 2 ^ 256)"

lemma sample_vli_laws: "vli_laws sample_klib"
  by (auto simp: vli_laws_def sample_klib_def vli_val_of)

lemma vli_val_less_256: "length ds = 4 \<Longrightarrow> vli_val ds < 2 ^ 256"
  using vli_val_less [of ds] by simp

lemma vli_sub_val:
  assumes "vli_laws K" "length a = 4" "length b = 4" "vli_val b \<le> vli_val a"
  shows "vli_val (kl_vli_sub K a b) = vli_val a - vli_val b" "length (kl_vli_sub K a b) = 4"
proof -
  have "(vli_val a + 2 ^ 256 - vli_val b) mod 2 ^ 256 = (vli_val a - vli_val b) mod 2 ^ 256"
    using assms(4) by (metis Nat.add_diff_assoc2 mod_add_self2)
  also have "\<dots> = vli_val a - vli_val b"
    using vli_val_less_256 [OF assms(2)] by (intro mod_less) linarith
  finally show "vli_val (kl_vli_sub K a b) = vli_val a - vli_val b"
    using assms by (simp add: vli_laws_def)
  show "length (kl_vli_sub K a b) = 4" using assms by (simp add: vli_laws_def)
qed

text \<open>
  Carries are exact: \<open>abk_fido_vli_add\<close> returns the digits of the sum of two numbers of
  the same length and, as its result, the one carry bit that does not fit.
\<close>

theorem vli_add_exact:
  assumes "length left = n" "length right = n"
  shows "case abk_fido_vli_add left right n of (result, carry) \<Rightarrow>
    length result = n \<and> unat carry \<le> 1
    \<and> vli_val result + 2 ^ (64 * n) * unat carry = vli_val left + vli_val right"
  using vli_add_loop_val [of left right 0] assms by (auto simp: abk_fido_vli_add_def split: prod.splits)

theorem vli_add_exact_witness:
  "case abk_fido_vli_add [-1, 1] [1, -2] 2 of (result, carry) \<Rightarrow>
    length result = 2 \<and> unat carry \<le> 1
    \<and> vli_val result + 2 ^ (64 * 2) * unat carry = vli_val [-1, 1] + vli_val [1, -2]"
  by (rule vli_add_exact) simp_all

text \<open>
  Modular addition is exact: for two numbers below the modulus, the conditional
  subtraction gives their sum modulo it, also where the sum does not fit in 256 bits.
\<close>

theorem vli_mod_add_exact:
  assumes "vli_laws K" "length left = 4" "length right = 4" "length modulus = 4"
    "vli_val left < vli_val modulus" "vli_val right < vli_val modulus"
  shows "vli_val (abk_fido_vli_mod_add K left right modulus 4)
    = (vli_val left + vli_val right) mod vli_val modulus"
proof -
  let ?n = "vli_val modulus" and ?sum = "vli_val left + vli_val right"
  obtain result carry where add: "abk_fido_vli_add left right 4 = (result, carry)" by fastforce
  have len: "length result = 4" and bit: "carry = 0 \<or> carry = 1"
    and val: "vli_val result + 2 ^ 256 * unat carry = ?sum"
    using vli_add_loop_val [of left right 0] assms(2,3) add by (auto simp: abk_fido_vli_add_def)
  have small: "vli_val result < 2 ^ 256" "?n < 2 ^ 256"
    using vli_val_less_256 len assms(4) by blast+
  have reduced: "?sum mod ?n = ?sum - ?n" if "?n \<le> ?sum"
    using that assms(5,6) by (simp add: mod_if)
  show ?thesis
  proof (cases "carry = 0")
    case True
    then have result: "vli_val result = ?sum" using val by simp
    show ?thesis
    proof (cases "?n \<le> ?sum")
      case True
      then have "kl_vli_cmp K result modulus \<ge> 0"
        using assms(1,4) len result by (simp add: vli_laws_def)
      with True show ?thesis
        using add \<open>carry = 0\<close> vli_sub_val(1) [OF assms(1) len assms(4)] result reduced
        by (simp add: abk_fido_vli_mod_add_def)
    next
      case False
      then have "\<not> kl_vli_cmp K result modulus \<ge> 0"
        using assms(1,4) len result by (simp add: vli_laws_def)
      with False show ?thesis
        using add \<open>carry = 0\<close> result by (simp add: abk_fido_vli_mod_add_def)
    qed
  next
    case False
    with bit val have sum: "?sum = vli_val result + 2 ^ 256" by auto
    have "vli_val (kl_vli_sub K result modulus) = (vli_val result + 2 ^ 256 - ?n) mod 2 ^ 256"
      using assms(1,4) len by (simp add: vli_laws_def)
    also have "\<dots> = ?sum - ?n"
      unfolding sum [symmetric] using assms(5,6) small(2) by (intro mod_less) linarith
    also have "\<dots> = ?sum mod ?n" using reduced sum small by linarith
    finally show ?thesis using add False by (simp add: abk_fido_vli_mod_add_def)
  qed
qed

theorem vli_mod_add_exact_witness:
  "vli_val (abk_fido_vli_mod_add sample_klib [5, 0, 0, 0] [6, 0, 0, 0] [7, 0, 0, 0] 4)
    = (vli_val [5, 0, 0, 0] + vli_val [6, 0, 0, 0]) mod vli_val [7, 0, 0, 0]"
  by (rule vli_mod_add_exact [OF sample_vli_laws]) simp_all

lemma vli_reduce_enough:
  assumes "vli_laws K" "length r = 4" "length (kl_curve_n K) = 4" "2 ^ 255 \<le> vli_val (kl_curve_n K)"
  shows "\<exists>r'. vli_reduce K reduce_fuel r = Some r' \<and> length r' = 4
    \<and> vli_val r' = vli_val r mod vli_val (kl_curve_n K)"
proof -
  let ?n = "vli_val (kl_curve_n K)" and ?r = "kl_vli_sub K r (kl_curve_n K)"
  have cmp: "kl_vli_cmp K x (kl_curve_n K) \<ge> 0 \<longleftrightarrow> ?n \<le> vli_val x" if "length x = 4" for x
    using assms(1,3) that by (simp add: vli_laws_def)
  have r: "vli_val r < 2 ^ 256" using vli_val_less_256 assms(2) by blast
  show ?thesis
  proof (cases "?n \<le> vli_val r")
    case True
    then have sub: "vli_val ?r = vli_val r - ?n" "length ?r = 4"
      using vli_sub_val [OF assms(1-3)] by simp_all
    have "(2 :: nat) ^ 256 = 2 * 2 ^ 255" by simp
    then have lt: "vli_val r - ?n < ?n" using r assms(4) by linarith
    then have "\<not> kl_vli_cmp K ?r (kl_curve_n K) \<ge> 0" using cmp [OF sub(2)] sub(1) by simp
    then have "vli_reduce K reduce_fuel r = Some ?r"
      using True cmp [OF assms(2)] by (simp add: reduce_fuel_def numeral_2_eq_2)
    with sub lt True show ?thesis by (simp add: mod_if)
  next
    case False
    then have "vli_reduce K reduce_fuel r = Some r"
      using cmp [OF assms(2)] by (simp add: reduce_fuel_def numeral_2_eq_2)
    with False assms(2) show ?thesis by simp
  qed
qed

subsection \<open>Canonical integers\<close>

definition der_uint :: "nat \<Rightarrow> u8 list \<Rightarrow> bool" where
  "der_uint n bs \<longleftrightarrow> bs \<noteq> [] \<and> be_val bs = n \<and> hd bs AND 0x80 = 0
     \<and> (length bs = 1 \<or> hd bs \<noteq> 0 \<or> bs ! 1 AND 0x80 \<noteq> 0)"

lemma be_val_zero_Cons [simp]: "be_val (0 # bs) = be_val bs"
  by (simp add: be_val_def)

lemma der_trim_uint:
  "e \<noteq> [] \<Longrightarrow> hd e AND 0x80 = 0 \<Longrightarrow> der_uint (be_val e) (der_trim e) \<and> length (der_trim e) \<le> length e"
proof (induction e rule: der_trim.induct)
  case (1 e)
  show ?case
  proof (cases "1 < length e \<and> e ! 0 = 0 \<and> e ! 1 AND 0x80 = 0")
    case True
    obtain a0 e' where e': "e = a0 # e'" using "1.prems"(1) by (cases e) auto
    with True obtain b bs where "e' = b # bs" by (cases e') auto
    with True e' have e: "e = 0 # b # bs" by simp
    have "der_trim e = der_trim (tl e)" using True by (simp add: der_trim.simps [of e])
    with 1 True e show ?thesis by auto
  next
    case False
    then have "der_trim e = e" by (simp only: der_trim.simps [of e] if_False)
    with False "1.prems" show ?thesis
      by (cases e) (auto simp: der_uint_def)
  qed
qed

lemma der_int_uint:
  assumes "length bytes = 32"
  shows "der_uint (be_val bytes) (der_int bytes)" "length (der_int bytes) \<le> 33"
proof -
  let ?e = "if bytes ! 0 AND 0x80 \<noteq> 0 then 0 # bytes else bytes"
  have "bytes \<noteq> []" using assms by auto
  then have "?e \<noteq> []" "hd ?e AND 0x80 = 0" "be_val ?e = be_val bytes" "length ?e \<le> 33"
    using assms by (auto simp: hd_conv_nth)
  with der_trim_uint [of ?e] show "der_uint (be_val bytes) (der_int bytes)" "length (der_int bytes) \<le> 33"
    by (auto simp: der_int_def)
qed

definition is_der_signature :: "u8 list \<Rightarrow> nat \<Rightarrow> nat \<Rightarrow> bool" where
  "is_der_signature sig r s \<longleftrightarrow> (\<exists>er es. der_uint r er \<and> der_uint s es
     \<and> sig = [0x30, word_of_nat (4 + length er + length es), 0x02, word_of_nat (length er)] @ er
         @ [0x02, word_of_nat (length es)] @ es
     \<and> length er \<le> 33 \<and> length es \<le> 33)"

lemma der_signature_ok:
  assumes "length r = 32" "length s = 32"
  shows "\<exists>sig. der_signature r s = Inr sig \<and> is_der_signature sig (be_val r) (be_val s)"
  using der_int_uint [OF assms(1)] der_int_uint [OF assms(2)]
  by (auto simp: der_signature_def Let_def ABK_FIDO_MAX_SIG_DER_def is_der_signature_def)

lemma length_digits_to_bytes: "length (abk_fido_digits_to_bytes ds 4 32) = 32"
  by (simp add: abk_fido_digits_to_bytes_def upt_conv_Cons)

lemma signature_length:
  assumes "abk_fido_ecdsa_sign_p256 K priv hash = Inr sig"
  shows "length sig \<le> 72"
proof -
  obtain r s where "der_signature (abk_fido_digits_to_bytes r 4 32) (abk_fido_digits_to_bytes s 4 32) = Inr sig"
    using assms by (auto simp: abk_fido_ecdsa_sign_p256_def Let_def ECC_CURVE_NIST_P256_DIGITS_def
        split: sum.splits prod.splits)
  with der_signature_ok [OF length_digits_to_bytes length_digits_to_bytes, of r s]
  show ?thesis by (auto simp: is_der_signature_def)
qed

text \<open>
  C19. A signature is canonical DER: whatever the key, the hash and the library compute, a
  successful call returns a sequence of two integers in their shortest form, positive (no
  sign bit, no superfluous leading zero), of at most 72 bytes, so the 80-byte buffer of the
  callers is never exceeded and \<open>-EOVERFLOW\<close> never happens.
\<close>

theorem signature_is_der:
  "case abk_fido_ecdsa_sign_p256 K priv hash of
     Inr sig \<Rightarrow> (\<exists>r s. r < 2 ^ 256 \<and> s < 2 ^ 256 \<and> is_der_signature sig r s \<and> length sig \<le> 72)
   | Inl e \<Rightarrow> (\<exists>d z. sign_loop K 16 0 d z = Inl e)"
proof (cases "sign_loop K 16 0
    (abk_fido_digits_from_bytes K priv 32 (replicate 4 0) ECC_CURVE_NIST_P256_DIGITS)
    (abk_fido_digits_from_bytes K hash 32 (replicate 4 0) ECC_CURVE_NIST_P256_DIGITS)")
  case (Inl e)
  then show ?thesis by (auto simp: abk_fido_ecdsa_sign_p256_def Let_def)
next
  case (Inr rs)
  obtain r s where rs: "rs = (r, s)" by fastforce
  let ?r = "abk_fido_digits_to_bytes r 4 32" and ?s = "abk_fido_digits_to_bytes s 4 32"
  from der_signature_ok [OF length_digits_to_bytes length_digits_to_bytes, of r s] obtain sig
    where sig: "der_signature ?r ?s = Inr sig" "is_der_signature sig (be_val ?r) (be_val ?s)" by blast
  moreover have "be_val ?r < 2 ^ 256" "be_val ?s < 2 ^ 256"
    using be_val_less [of ?r] be_val_less [of ?s] by (simp_all add: length_digits_to_bytes)
  moreover have "length sig \<le> 72" using sig(2) by (auto simp: is_der_signature_def)
  ultimately show ?thesis using Inr rs
    by (auto simp: abk_fido_ecdsa_sign_p256_def Let_def ECC_CURVE_NIST_P256_DIGITS_def)
qed

end
