(* ===== verification/Ctap_Parse.thy ===== *)
theory Ctap_Parse
  imports Cbor_Safety Credential_Store
begin

unbundle bit_operations_syntax

section \<open>Parsing the CTAP2 requests\<close>

text \<open>
  \<open>abk_fido_parse_make_cred\<close> and \<open>abk_fido_parse_get_assert\<close>: one loop over the members of the
  request map, one definition per member.  Both fill a request record that starts zeroed.
  Every failing read makes them return \<open>-EINVAL\<close>, which is also the reader's own error, so
  \<open>RErr\<close> simply propagates.  \<open>d\<close> is the stack left for \<open>abk_cbor_skip\<close>.  The two lists of
  credentials are loops that stop at 32 entries; a round adds exactly one, so the number of
  rounds is the smaller of the announced count and the room.
\<close>

definition ABK_FIDO_MAX_CRED_LIST :: nat where "ABK_FIDO_MAX_CRED_LIST = 32"
definition ABK_FIDO_HMAC_SALT_LEN :: nat where "ABK_FIDO_HMAC_SALT_LEN = 32"
definition ABK_FIDO_HMAC_SALT_AUTH_LEN :: nat where "ABK_FIDO_HMAC_SALT_AUTH_LEN = 16"

lemmas parse_consts = ABK_FIDO_MAX_CRED_LIST_def ABK_FIDO_HMAC_SALT_LEN_def
  ABK_FIDO_HMAC_SALT_AUTH_LEN_def store_consts

text \<open>An element of \<open>exclude[]\<close> or \<open>allow[]\<close>.\<close>

record cred_ref =
  cf_present :: bool
  cf_id :: "u8 list"
  cf_len :: nat

definition zero_ref :: cred_ref where
  "zero_ref = \<lparr>cf_present = False, cf_id = replicate 32 0, cf_len = 0\<rparr>"

record abk_fido_make_cred_req =
  mk_have_client_data_hash :: bool
  mk_have_rp_id :: bool
  mk_have_user_id :: bool
  mk_rk :: bool
  mk_uv :: bool
  mk_up_disabled :: bool
  mk_pin_auth_present :: bool
  mk_hmac_secret_requested :: bool
  mk_client_data_hash :: "u8 list"
  mk_rp_id :: "u8 list"
  mk_user_id :: "u8 list"
  mk_user_id_len :: u8
  mk_user_name :: "u8 list"
  mk_user_display :: "u8 list"
  mk_exclude :: "cred_ref list"
  mk_exclude_count :: nat

record abk_fido_get_assert_req =
  ga_have_client_data_hash :: bool
  ga_have_rp_id :: bool
  ga_uv :: bool
  ga_up_disabled :: bool
  ga_pin_auth_present :: bool
  ga_hmac_secret_requested :: bool
  ga_hmac_key_agreement :: "u8 list"
  ga_hmac_salt_enc :: "u8 list"
  ga_hmac_salt_auth :: "u8 list"
  ga_client_data_hash :: "u8 list"
  ga_rp_id :: "u8 list"
  ga_allow :: "cred_ref list"
  ga_allow_count :: nat

definition zero_make_cred_req :: abk_fido_make_cred_req where
  "zero_make_cred_req = \<lparr>mk_have_client_data_hash = False, mk_have_rp_id = False,
     mk_have_user_id = False, mk_rk = False, mk_uv = False, mk_up_disabled = False,
     mk_pin_auth_present = False, mk_hmac_secret_requested = False,
     mk_client_data_hash = replicate 32 0, mk_rp_id = replicate ABK_FIDO_MAX_RP_ID 0,
     mk_user_id = replicate ABK_FIDO_MAX_USER_ID 0, mk_user_id_len = 0,
     mk_user_name = replicate ABK_FIDO_MAX_USER_NAME 0,
     mk_user_display = replicate ABK_FIDO_MAX_USER_NAME 0,
     mk_exclude = replicate ABK_FIDO_MAX_CRED_LIST zero_ref, mk_exclude_count = 0\<rparr>"

definition zero_get_assert_req :: abk_fido_get_assert_req where
  "zero_get_assert_req = \<lparr>ga_have_client_data_hash = False, ga_have_rp_id = False, ga_uv = False,
     ga_up_disabled = False, ga_pin_auth_present = False, ga_hmac_secret_requested = False,
     ga_hmac_key_agreement = replicate 64 0,
     ga_hmac_salt_enc = replicate (ABK_FIDO_HMAC_SALT_LEN * 2) 0,
     ga_hmac_salt_auth = replicate ABK_FIDO_HMAC_SALT_AUTH_LEN 0,
     ga_client_data_hash = replicate 32 0, ga_rp_id = replicate ABK_FIDO_MAX_RP_ID 0,
     ga_allow = replicate ABK_FIDO_MAX_CRED_LIST zero_ref, ga_allow_count = 0\<rparr>"

subsection \<open>Shared pieces\<close>

text \<open>\<open>memcpy(dst, text.ptr, text.len); dst[text.len] = 0\<close>.\<close>

definition put_text :: "abk_cbor_reader \<Rightarrow> abk_fido_slice \<Rightarrow> u8 list \<Rightarrow> u8 list" where
  "put_text r text dst = overwrite 0 (slice_bytes r text @ [0]) dst"

definition put_slice :: "abk_cbor_reader \<Rightarrow> abk_fido_slice \<Rightarrow> u8 list \<Rightarrow> u8 list" where
  "put_slice r sl dst = overwrite 0 (slice_bytes r sl) dst"

definition skip_keep :: "nat \<Rightarrow> 's \<Rightarrow> 's rdm" where
  "skip_keep d s = rbind (abk_cbor_skip d) (\<lambda>_. rreturn s)"

text \<open>One member of a credential descriptor: only \<open>id\<close> is kept.\<close>

definition cred_ref_member :: "nat \<Rightarrow> cred_ref \<Rightarrow> cred_ref rdm" where
  "cred_ref_member d e =
     rbind abk_cbor_read_text (\<lambda>item_key r.
       if abk_fido_slice_eq_text r item_key ''id'' then
         rbind abk_cbor_read_bytes (\<lambda>slice r.
           if unat (sl_len slice) > 32 then RErr EINVAL
           else ROk (e\<lparr>cf_id := put_slice r slice (cf_id e), cf_len := unat (sl_len slice),
                  cf_present := True\<rparr>) r) r
       else skip_keep d e r)"

definition read_cred_ref :: "nat \<Rightarrow> cred_ref \<Rightarrow> cred_ref rdm" where
  "read_cred_ref d e =
     rbind abk_cbor_read_map (\<lambda>item_count. rd_loop (unat item_count) (cred_ref_member d) e)"

subsection \<open>makeCredential\<close>

definition mk_member_hash :: "abk_fido_make_cred_req \<Rightarrow> abk_fido_make_cred_req rdm" where
  "mk_member_hash req =
     rbind abk_cbor_read_bytes (\<lambda>slice r.
       if sl_len slice \<noteq> 32 then RErr EINVAL
       else ROk (req\<lparr>mk_client_data_hash := put_slice r slice (mk_client_data_hash req),
              mk_have_client_data_hash := True\<rparr>) r)"

definition mk_rp_entry :: "abk_fido_make_cred_req \<Rightarrow> abk_fido_make_cred_req rdm" where
  "mk_rp_entry req =
     rbind abk_cbor_read_text (\<lambda>rp_key.
     rbind abk_cbor_read_text (\<lambda>text r.
       if abk_fido_slice_eq_text r rp_key ''id'' \<and> unat (sl_len text) < ABK_FIDO_MAX_RP_ID
       then ROk (req\<lparr>mk_rp_id := put_text r text (mk_rp_id req), mk_have_rp_id := True\<rparr>) r
       else ROk req r))"

definition mk_user_entry :: "nat \<Rightarrow> abk_fido_make_cred_req \<Rightarrow> abk_fido_make_cred_req rdm" where
  "mk_user_entry d req =
     rbind abk_cbor_read_text (\<lambda>user_key r.
       if abk_fido_slice_eq_text r user_key ''id'' then
         rbind abk_cbor_read_bytes (\<lambda>slice r.
           if unat (sl_len slice) > ABK_FIDO_MAX_USER_ID then RErr EINVAL
           else ROk (req\<lparr>mk_user_id := put_slice r slice (mk_user_id req),
                  mk_user_id_len := ucast (sl_len slice), mk_have_user_id := True\<rparr>) r) r
       else if abk_fido_slice_eq_text r user_key ''name''
               \<or> abk_fido_slice_eq_text r user_key ''displayName'' then
         (let is_name = abk_fido_slice_eq_text r user_key ''name'' in
          rbind abk_cbor_read_text (\<lambda>text r.
            if unat (sl_len text) \<ge> ABK_FIDO_MAX_USER_NAME then RErr EINVAL
            else if is_name then ROk (req\<lparr>mk_user_name := put_text r text (mk_user_name req)\<rparr>) r
            else ROk (req\<lparr>mk_user_display := put_text r text (mk_user_display req)\<rparr>) r) r)
       else skip_keep d req r)"

text \<open>\<open>pubKeyCredParams\<close>: for one parameter, whether its type and its algorithm are ours.\<close>

definition mk_param_member :: "nat \<Rightarrow> bool \<times> bool \<Rightarrow> (bool \<times> bool) rdm" where
  "mk_param_member d ok =
     rbind abk_cbor_read_text (\<lambda>item_key r.
       if abk_fido_slice_eq_text r item_key ''type'' then
         rbind abk_cbor_read_text (\<lambda>text r.
           ROk (abk_fido_slice_eq_text r text ''public-key'', snd ok) r) r
       else if abk_fido_slice_eq_text r item_key ''alg'' then
         rbind abk_cbor_read_int (\<lambda>alg. rreturn (fst ok, alg = ABK_FIDO_COSE_ALG_ES256)) r
       else skip_keep d ok r)"

definition mk_param :: "nat \<Rightarrow> bool \<Rightarrow> bool rdm" where
  "mk_param d has_es256 =
     rbind abk_cbor_read_map (\<lambda>item_count.
     rbind (rd_loop (unat item_count) (mk_param_member d) (False, False)) (\<lambda>(type_ok, alg_ok).
       rreturn (has_es256 \<or> (type_ok \<and> alg_ok))))"

definition mk_member_params :: "nat \<Rightarrow> abk_fido_make_cred_req \<Rightarrow> abk_fido_make_cred_req rdm" where
  "mk_member_params d req =
     rbind abk_cbor_read_array (\<lambda>arr.
     rbind (rd_loop (unat arr) (mk_param d) False) (\<lambda>has_es256.
       if \<not> has_es256 then rfail EOPNOTSUPP else rreturn req))"

definition mk_exclude_entry :: "nat \<Rightarrow> abk_fido_make_cred_req \<Rightarrow> abk_fido_make_cred_req rdm" where
  "mk_exclude_entry d req =
     (let n = mk_exclude_count req in
      rbind (read_cred_ref d (mk_exclude req ! n)) (\<lambda>e.
        rreturn (req\<lparr>mk_exclude := (mk_exclude req)[n := e], mk_exclude_count := n + 1\<rparr>)))"

definition mk_member_exclude :: "nat \<Rightarrow> abk_fido_make_cred_req \<Rightarrow> abk_fido_make_cred_req rdm" where
  "mk_member_exclude d req =
     rbind abk_cbor_read_array (\<lambda>arr.
       rd_loop (min (unat arr) (ABK_FIDO_MAX_CRED_LIST - mk_exclude_count req)) (mk_exclude_entry d) req)"

definition mk_option :: "abk_fido_make_cred_req \<Rightarrow> abk_fido_make_cred_req rdm" where
  "mk_option req =
     rbind abk_cbor_read_text (\<lambda>text.
     rbind abk_cbor_read_bool (\<lambda>value r.
       if abk_fido_slice_eq_text r text ''rk'' then ROk (req\<lparr>mk_rk := value\<rparr>) r
       else if abk_fido_slice_eq_text r text ''uv'' then ROk (req\<lparr>mk_uv := value\<rparr>) r
       else if abk_fido_slice_eq_text r text ''up'' then ROk (req\<lparr>mk_up_disabled := \<not> value\<rparr>) r
       else ROk req r))"

definition mk_hmac_member :: "nat \<Rightarrow> bool \<Rightarrow> bool rdm" where
  "mk_hmac_member d create =
     rbind abk_cbor_read_int (\<lambda>mkey.
       if mkey = 1 then abk_cbor_read_bool else skip_keep d create)"

definition mk_extension :: "nat \<Rightarrow> abk_fido_make_cred_req \<Rightarrow> abk_fido_make_cred_req rdm" where
  "mk_extension d req =
     rbind abk_cbor_read_text (\<lambda>ext_key r.
       if abk_fido_slice_eq_text r ext_key ''hmac-secret'' then
         (if rd_pos r \<ge> rd_len r then RErr EINVAL
          else
            (let nxt = rd_buf r ! unat (rd_pos r) in
             if nxt = 0xf4 \<or> nxt = 0xf5 then
               rbind abk_cbor_read_bool (\<lambda>value. rreturn (req\<lparr>mk_hmac_secret_requested := value\<rparr>)) r
             else if drop_bit 5 nxt = 5 then
               rbind abk_cbor_read_map (\<lambda>hm_count.
               rbind (rd_loop (unat hm_count) (mk_hmac_member d) True) (\<lambda>create.
                 rreturn (req\<lparr>mk_hmac_secret_requested := create\<rparr>))) r
             else skip_keep d req r))
       else skip_keep d req r)"

definition mk_member :: "nat \<Rightarrow> abk_fido_make_cred_req \<Rightarrow> abk_fido_make_cred_req rdm" where
  "mk_member d req =
     rbind abk_cbor_read_int (\<lambda>key.
       if key = 1 then mk_member_hash req
       else if key = 2 then rbind abk_cbor_read_map (\<lambda>n. rd_loop (unat n) mk_rp_entry req)
       else if key = 3 then rbind abk_cbor_read_map (\<lambda>n. rd_loop (unat n) (mk_user_entry d) req)
       else if key = 4 then mk_member_params d req
       else if key = 5 then mk_member_exclude d req
       else if key = 7 then rbind abk_cbor_read_map (\<lambda>n. rd_loop (unat n) mk_option req)
       else if key = 8 then
         rbind abk_cbor_read_bytes (\<lambda>_. rreturn (req\<lparr>mk_pin_auth_present := True\<rparr>))
       else if key = 9 then rbind abk_cbor_read_uint (\<lambda>_. rreturn req)
       else if key = 6 then rbind abk_cbor_read_map (\<lambda>n. rd_loop (unat n) (mk_extension d) req)
       else skip_keep d req)"

definition abk_fido_parse_make_cred ::
    "nat \<Rightarrow> u8 list \<Rightarrow> abk_fido_make_cred_req rd" where
  "abk_fido_parse_make_cred d buf =
     rbind abk_cbor_read_map (\<lambda>count.
     rbind (rd_loop (unat count) (mk_member d) zero_make_cred_req) (\<lambda>req.
       if mk_have_client_data_hash req \<and> mk_have_rp_id req \<and> mk_have_user_id req
       then rreturn req else rfail EINVAL)) (abk_fido_reader buf)"

subsection \<open>getAssertion\<close>

definition ga_allow_entry :: "nat \<Rightarrow> abk_fido_get_assert_req \<Rightarrow> abk_fido_get_assert_req rdm" where
  "ga_allow_entry d req =
     (let n = ga_allow_count req in
      rbind (read_cred_ref d (ga_allow req ! n)) (\<lambda>e.
        rreturn (req\<lparr>ga_allow := (ga_allow req)[n := e], ga_allow_count := n + 1\<rparr>)))"

definition ga_option :: "abk_fido_get_assert_req \<Rightarrow> abk_fido_get_assert_req rdm" where
  "ga_option req =
     rbind abk_cbor_read_text (\<lambda>text.
     rbind abk_cbor_read_bool (\<lambda>value r.
       if abk_fido_slice_eq_text r text ''uv'' then ROk (req\<lparr>ga_uv := value\<rparr>) r
       else if abk_fido_slice_eq_text r text ''up'' then ROk (req\<lparr>ga_up_disabled := \<not> value\<rparr>) r
       else ROk req r))"

text \<open>The members of the \<open>hmac-secret\<close> input, with the three \<open>have_\<close> flags.\<close>

type_synonym hmac_flags = "bool \<times> bool \<times> bool"

definition ga_hmac_member ::
    "nat \<Rightarrow> hmac_flags \<times> abk_fido_get_assert_req \<Rightarrow> (hmac_flags \<times> abk_fido_get_assert_req) rdm" where
  "ga_hmac_member d = (\<lambda>((have_ka, have_enc, have_auth), req).
     rbind abk_cbor_read_int (\<lambda>mkey.
       if mkey = 1 then
         rbind (abk_cbor_read_cose_p256_xy d) (\<lambda>xy.
           rreturn ((True, have_enc, have_auth), req\<lparr>ga_hmac_key_agreement := xy\<rparr>))
       else if mkey = 2 then
         rbind abk_cbor_read_bytes (\<lambda>slice r.
           if unat (sl_len slice) \<noteq> ABK_FIDO_HMAC_SALT_LEN * 2 then RErr EINVAL
           else ROk ((have_ka, True, have_auth),
                  req\<lparr>ga_hmac_salt_enc := put_slice r slice (ga_hmac_salt_enc req)\<rparr>) r)
       else if mkey = 3 then
         rbind abk_cbor_read_bytes (\<lambda>slice r.
           if unat (sl_len slice) \<noteq> ABK_FIDO_HMAC_SALT_AUTH_LEN then RErr EINVAL
           else ROk ((have_ka, have_enc, True),
                  req\<lparr>ga_hmac_salt_auth := put_slice r slice (ga_hmac_salt_auth req)\<rparr>) r)
       else skip_keep d ((have_ka, have_enc, have_auth), req)))"

definition ga_extension :: "nat \<Rightarrow> abk_fido_get_assert_req \<Rightarrow> abk_fido_get_assert_req rdm" where
  "ga_extension d req =
     rbind abk_cbor_read_text (\<lambda>ext_key r.
       if abk_fido_slice_eq_text r ext_key ''hmac-secret'' then
         rbind abk_cbor_read_map (\<lambda>hm_count.
         rbind (rd_loop (unat hm_count) (ga_hmac_member d) ((False, False, False), req))
           (\<lambda>((have_ka, have_enc, have_auth), req).
             if \<not> have_ka \<or> \<not> have_enc \<or> \<not> have_auth then rfail EINVAL
             else rreturn (req\<lparr>ga_hmac_secret_requested := True\<rparr>))) r
       else skip_keep d req r)"

definition ga_member :: "nat \<Rightarrow> abk_fido_get_assert_req \<Rightarrow> abk_fido_get_assert_req rdm" where
  "ga_member d req =
     rbind abk_cbor_read_int (\<lambda>key.
       if key = 1 then
         rbind abk_cbor_read_text (\<lambda>text r.
           if unat (sl_len text) \<ge> ABK_FIDO_MAX_RP_ID then RErr EINVAL
           else ROk (req\<lparr>ga_rp_id := put_text r text (ga_rp_id req), ga_have_rp_id := True\<rparr>) r)
       else if key = 2 then
         rbind abk_cbor_read_bytes (\<lambda>slice r.
           if sl_len slice \<noteq> 32 then RErr EINVAL
           else ROk (req\<lparr>ga_client_data_hash := put_slice r slice (ga_client_data_hash req),
                  ga_have_client_data_hash := True\<rparr>) r)
       else if key = 3 then
         rbind abk_cbor_read_array (\<lambda>arr.
           rd_loop (min (unat arr) (ABK_FIDO_MAX_CRED_LIST - ga_allow_count req)) (ga_allow_entry d) req)
       else if key = 5 then rbind abk_cbor_read_map (\<lambda>n. rd_loop (unat n) ga_option req)
       else if key = 6 then
         rbind abk_cbor_read_bytes (\<lambda>_. rreturn (req\<lparr>ga_pin_auth_present := True\<rparr>))
       else if key = 7 then rbind abk_cbor_read_uint (\<lambda>_. rreturn req)
       else if key = 4 then rbind abk_cbor_read_map (\<lambda>n. rd_loop (unat n) (ga_extension d) req)
       else skip_keep d req)"

definition abk_fido_parse_get_assert :: "nat \<Rightarrow> u8 list \<Rightarrow> abk_fido_get_assert_req rd" where
  "abk_fido_parse_get_assert d buf =
     rbind abk_cbor_read_map (\<lambda>count.
     rbind (rd_loop (unat count) (ga_member d) zero_get_assert_req) (\<lambda>req.
       if ga_have_client_data_hash req \<and> ga_have_rp_id req
       then rreturn req else rfail EINVAL)) (abk_fido_reader buf)"

subsection \<open>No request overruns its record\<close>

definition ref_ok :: "cred_ref \<Rightarrow> bool" where
  "ref_ok e \<longleftrightarrow> length (cf_id e) = 32 \<and> cf_len e \<le> 32"

definition mk_req_ok :: "abk_fido_make_cred_req \<Rightarrow> bool" where
  "mk_req_ok req \<longleftrightarrow> length (mk_client_data_hash req) = 32
     \<and> length (mk_rp_id req) = 128 \<and> has_nul (mk_rp_id req)
     \<and> length (mk_user_id req) = 64 \<and> mk_user_id_len req \<le> 64
     \<and> length (mk_user_name req) = 64 \<and> has_nul (mk_user_name req)
     \<and> length (mk_user_display req) = 64 \<and> has_nul (mk_user_display req)
     \<and> length (mk_exclude req) = 32 \<and> list_all ref_ok (mk_exclude req) \<and> mk_exclude_count req \<le> 32"

definition ga_req_ok :: "abk_fido_get_assert_req \<Rightarrow> bool" where
  "ga_req_ok req \<longleftrightarrow> length (ga_client_data_hash req) = 32
     \<and> length (ga_rp_id req) = 128 \<and> has_nul (ga_rp_id req)
     \<and> length (ga_hmac_key_agreement req) = 64 \<and> length (ga_hmac_salt_enc req) = 64
     \<and> length (ga_hmac_salt_auth req) = 16
     \<and> length (ga_allow req) = 32 \<and> list_all ref_ok (ga_allow req) \<and> ga_allow_count req \<le> 32"

lemma put_text_ok:
  assumes "slice_in sl r" "unat (sl_len sl) < length dst" "length dst < 2 ^ 62"
  shows "length (put_text r sl dst) = length dst" "has_nul (put_text r sl dst)"
  using assms by (auto simp: put_text_def slice_in_def has_nul_def overwrite_def)

lemma put_slice_length:
  assumes "slice_in sl r" "unat (sl_len sl) \<le> n" "n < 2 ^ 62" "length dst = n"
  shows "length (put_slice r sl dst) = n"
  using assms by (auto simp: put_slice_def slice_in_def)

lemma ref_ok_zero: "ref_ok zero_ref"
  by (simp add: ref_ok_def zero_ref_def)

lemma mk_req_ok_zero: "mk_req_ok zero_make_cred_req"
  by (simp add: mk_req_ok_def zero_make_cred_req_def parse_consts has_nul_def list_all_length ref_ok_zero)

lemma ga_req_ok_zero: "ga_req_ok zero_get_assert_req"
  by (simp add: ga_req_ok_def zero_get_assert_req_def parse_consts has_nul_def list_all_length ref_ok_zero)

lemma okres_skip_keep: "rd_ok r \<Longrightarrow> Q s \<Longrightarrow> okres (\<lambda>s' r'. Q s') (skip_keep d s r)"
  unfolding skip_keep_def by (intro okres_binds)

lemma okres_ref_member:
  "ref_ok e \<Longrightarrow> rd_ok r \<Longrightarrow> okres (\<lambda>e' r'. ref_ok e') (cred_ref_member d e r)"
  unfolding cred_ref_member_def
  by (intro okres_binds okres_skip_keep) (auto simp: ref_ok_def put_slice_length)

lemma okres_cred_ref: "ref_ok e \<Longrightarrow> rd_ok r \<Longrightarrow> okres (\<lambda>e' r'. ref_ok e') (read_cred_ref d e r)"
  unfolding read_cred_ref_def by (intro okres_binds okres_loop okres_ref_member)

lemma okres_hash:
  "mk_req_ok req \<Longrightarrow> rd_ok r \<Longrightarrow> okres (\<lambda>q r'. mk_req_ok q) (mk_member_hash req r)"
  unfolding mk_member_hash_def
  by (intro okres_binds) (auto simp: mk_req_ok_def put_slice_length)

lemma okres_rp_entry:
  "mk_req_ok req \<Longrightarrow> rd_ok r \<Longrightarrow> okres (\<lambda>q r'. mk_req_ok q) (mk_rp_entry req r)"
  unfolding mk_rp_entry_def
  by (intro okres_binds) (auto simp: mk_req_ok_def put_text_ok parse_consts)

lemma ucast_len_le: "unat (w :: u64) \<le> 64 \<Longrightarrow> (ucast w :: u8) \<le> 64"
  by (simp add: word_le_nat_alt unat_ucast_mod)

lemma okres_user_entry:
  "mk_req_ok req \<Longrightarrow> rd_ok r \<Longrightarrow> okres (\<lambda>q r'. mk_req_ok q) (mk_user_entry d req r)"
  unfolding mk_user_entry_def Let_def
  by (intro okres_binds okres_skip_keep)
    (auto simp: mk_req_ok_def put_slice_length put_text_ok parse_consts ucast_len_le)

lemma okres_param_member: "rd_ok r \<Longrightarrow> okres (\<lambda>s r'. True) (mk_param_member d ok r)"
  unfolding mk_param_member_def by (intro okres_binds okres_skip_keep) auto

lemma okres_param: "rd_ok r \<Longrightarrow> okres (\<lambda>s r'. True) (mk_param d b r)"
  unfolding mk_param_def
proof (intro okres_binds)
  fix n and r' :: abk_cbor_reader
  assume "rd_ok r'"
  then have "okres (\<lambda>s r'. True) (rd_loop (unat n) (mk_param_member d) (False, False) r')"
    by (intro okres_loop [where P = "\<lambda>_. True"] okres_param_member) auto
  then show "okres (\<lambda>s r'. True) (rbind (rd_loop (unat n) (mk_param_member d) (False, False))
      (\<lambda>(type_ok, alg_ok). rreturn (b \<or> type_ok \<and> alg_ok)) r')"
    by (rule okres_rbind) (auto intro: okres_return)
qed

lemma okres_params:
  "mk_req_ok req \<Longrightarrow> rd_ok r \<Longrightarrow> okres (\<lambda>q r'. mk_req_ok q) (mk_member_params d req r)"
  unfolding mk_member_params_def
proof (intro okres_binds)
  fix n and r' :: abk_cbor_reader
  assume req: "mk_req_ok req" and "rd_ok r'"
  then have "okres (\<lambda>s r'. True) (rd_loop (unat n) (mk_param d) False r')"
    by (intro okres_loop [where P = "\<lambda>_. True"] okres_param) auto
  then show "okres (\<lambda>q r'. mk_req_ok q) (rbind (rd_loop (unat n) (mk_param d) False)
      (\<lambda>has_es256. if \<not> has_es256 then rfail EOPNOTSUPP else rreturn req) r')"
    by (rule okres_rbind) (auto intro: okres_return okres_fail simp: req)
qed

text \<open>
  The list loops: an entry is written at index \<open>exclude_count\<close>, which the number of rounds
  keeps below 32.
\<close>

lemma okres_counted:
  assumes step: "\<And>k s r. P k s \<Longrightarrow> k < b \<Longrightarrow> rd_ok r \<Longrightarrow> okres (\<lambda>s' r'. P (Suc k) s') (f s r)"
  shows "P k s \<Longrightarrow> k + n \<le> b \<Longrightarrow> rd_ok r \<Longrightarrow> okres (\<lambda>s' r'. P (k + n) s') (rd_loop n f s r)"
proof (induction n arbitrary: k s r)
  case 0
  then show ?case by simp
next
  case (Suc n)
  have one: "okres (\<lambda>s' r'. P (Suc k) s') (f s r)"
    by (rule step) (use Suc.prems in auto)
  show ?case
  proof (cases "f s r")
    case (ROk s' r')
    with one have "rd_ok r'" "P (Suc k) s'" by simp_all
    with Suc.IH [of "Suc k" s' r'] Suc.prems ROk show ?thesis by simp
  qed simp_all
qed

lemma okres_exclude_entry:
  assumes "mk_req_ok req \<and> mk_exclude_count req = k" "k < 32" "rd_ok r"
  shows "okres (\<lambda>q r'. mk_req_ok q \<and> mk_exclude_count q = Suc k) (mk_exclude_entry d req r)"
proof -
  have "ref_ok (mk_exclude req ! k)"
    using assms by (simp add: mk_req_ok_def list_all_length)
  from okres_cred_ref [OF this assms(3), of d] show ?thesis
    unfolding mk_exclude_entry_def Let_def using assms
    by (intro okres_rbind [where Q = "\<lambda>e r'. ref_ok e"])
      (auto simp: mk_req_ok_def list_all_length nth_list_update intro!: okres_return)
qed

lemma okres_exclude:
  assumes "mk_req_ok req" "rd_ok r"
  shows "okres (\<lambda>q r'. mk_req_ok q) (mk_member_exclude d req r)"
  unfolding mk_member_exclude_def
proof (intro okres_binds)
  fix n :: u64 and r' :: abk_cbor_reader
  assume r': "rd_ok r'"
  let ?k = "mk_exclude_count req"
  let ?n = "min (unat n) (ABK_FIDO_MAX_CRED_LIST - ?k)"
  have "?k \<le> 32" using assms(1) by (simp add: mk_req_ok_def)
  then have "?k + ?n \<le> 32" by (simp add: parse_consts)
  have "okres (\<lambda>q r'. mk_req_ok q \<and> mk_exclude_count q = ?k + ?n)
      (rd_loop ?n (mk_exclude_entry d) req r')"
    using assms(1) \<open>?k + ?n \<le> 32\<close> r'
    by (intro okres_counted [where b = 32 and P = "\<lambda>k q. mk_req_ok q \<and> mk_exclude_count q = k"]
        okres_exclude_entry) auto
  then show "okres (\<lambda>q r'. mk_req_ok q) (rd_loop ?n (mk_exclude_entry d) req r')"
    by (rule okres_mono) simp
qed (rule assms(2))

lemma okres_option:
  "mk_req_ok req \<Longrightarrow> rd_ok r \<Longrightarrow> okres (\<lambda>q r'. mk_req_ok q) (mk_option req r)"
  unfolding mk_option_def by (intro okres_binds) (auto simp: mk_req_ok_def)

lemma okres_hmac_member: "rd_ok r \<Longrightarrow> okres (\<lambda>s r'. True) (mk_hmac_member d b r)"
  unfolding mk_hmac_member_def by (intro okres_binds okres_skip_keep okres_bool) auto

lemma okres_extension:
  "mk_req_ok req \<Longrightarrow> rd_ok r \<Longrightarrow> okres (\<lambda>q r'. mk_req_ok q) (mk_extension d req r)"
  unfolding mk_extension_def Let_def
proof (intro okres_binds okres_skip_keep)
  fix n and r' :: abk_cbor_reader
  assume req: "mk_req_ok req" and "rd_ok r'"
  then have "okres (\<lambda>s r'. True) (rd_loop (unat n) (mk_hmac_member d) True r')"
    by (intro okres_loop [where P = "\<lambda>_. True"] okres_hmac_member) auto
  then show "okres (\<lambda>q r'. mk_req_ok q) (rbind (rd_loop (unat n) (mk_hmac_member d) True)
      (\<lambda>create. rreturn (req\<lparr>mk_hmac_secret_requested := create\<rparr>)) r')"
    by (rule okres_rbind) (use req in \<open>auto simp: mk_req_ok_def intro: okres_return\<close>)
qed (auto simp: mk_req_ok_def)

lemma okres_mk_member:
  "mk_req_ok req \<Longrightarrow> rd_ok r \<Longrightarrow> okres (\<lambda>q r'. mk_req_ok q) (mk_member d req r)"
  unfolding mk_member_def
  by (intro okres_binds okres_skip_keep okres_hash okres_params okres_exclude
      okres_loop okres_rp_entry okres_user_entry okres_option okres_extension)
    (auto simp: mk_req_ok_def)

lemma parse_make_cred_ok:
  assumes "length buf < 2 ^ 63" "abk_fido_parse_make_cred d buf = ROk req r"
  shows "mk_req_ok req \<and> mk_have_client_data_hash req \<and> mk_have_rp_id req \<and> mk_have_user_id req
    \<and> rd_ok r"
proof -
  have "okres (\<lambda>q r'. mk_req_ok q \<and> mk_have_client_data_hash q \<and> mk_have_rp_id q \<and> mk_have_user_id q)
      (abk_fido_parse_make_cred d buf)"
    unfolding abk_fido_parse_make_cred_def
  proof (intro okres_bind_map rd_ok_reader assms(1))
    fix n and r' :: abk_cbor_reader
    assume "rd_ok r'"
    then have "okres (\<lambda>q r'. mk_req_ok q) (rd_loop (unat n) (mk_member d) zero_make_cred_req r')"
      by (intro okres_loop okres_mk_member mk_req_ok_zero) auto
    then show "okres (\<lambda>q r'. mk_req_ok q \<and> mk_have_client_data_hash q \<and> mk_have_rp_id q \<and> mk_have_user_id q)
       (rbind (rd_loop (unat n) (mk_member d) zero_make_cred_req)
         (\<lambda>req. if mk_have_client_data_hash req \<and> mk_have_rp_id req \<and> mk_have_user_id req
                then rreturn req else rfail EINVAL) r')"
      by (rule okres_rbind) (auto intro: okres_return okres_fail)
  qed
  with assms(2) show ?thesis by simp
qed


end
