(* ===== verification/Ctap_Requests.thy ===== *)
theory Ctap_Requests
  imports Ctap_Parse
begin

unbundle bit_operations_syntax

section \<open>Reading well-formed requests\<close>

text \<open>
  What the parsers return on the encoding of a CTAP2 request.  \<open>rd_in B r cs t\<close> says the
  reader stands in the message \<open>B\<close> before the items \<open>cs\<close>; \<open>okval P x\<close> that an outcome is a
  success with \<open>P\<close>.  The rules \<open>seq_steps\<close> read one item each, so a parser is followed item by
  item along the request.
\<close>

definition rd_in :: "u8 list \<Rightarrow> abk_cbor_reader \<Rightarrow> cbor list \<Rightarrow> u8 list \<Rightarrow> bool" where
  "rd_in B r cs t \<longleftrightarrow> rd_seq r cs t \<and> rd_buf r = B"

definition is_slice :: "u8 list \<Rightarrow> abk_fido_slice \<Rightarrow> u8 list \<Rightarrow> bool" where
  "is_slice B sl bs \<longleftrightarrow> field_at (unat (sl_off sl)) (unat (sl_len sl)) B = bs
     \<and> unat (sl_len sl) = length bs"

definition okval :: "('a \<Rightarrow> abk_cbor_reader \<Rightarrow> bool) \<Rightarrow> 'a rd \<Rightarrow> bool" where
  "okval P x \<longleftrightarrow> (case x of ROk v r \<Rightarrow> P v r | RErr e \<Rightarrow> False | RDeep \<Rightarrow> False)"

lemma okval_ok [simp]: "okval P (ROk v r) = P v r"
  by (simp add: okval_def)

lemma okvalD: "okval P x \<Longrightarrow> \<exists>v r. x = ROk v r \<and> P v r"
  by (cases x) (simp_all add: okval_def)

lemma okval_mono: "okval P x \<Longrightarrow> (\<And>v r. P v r \<Longrightarrow> Q v r) \<Longrightarrow> okval Q x"
  by (cases x) (simp_all add: okval_def)

lemma okval_bind: "okval (\<lambda>v r'. okval P (f v r')) (m r) \<Longrightarrow> okval P (rbind m f r)"
  by (cases "m r") (simp_all add: okval_def rbind_def)

lemma okval_return: "P v r \<Longrightarrow> okval P (rreturn v r)"
  by (simp add: rreturn_def)

lemma is_slice_bytes: "rd_in B r cs t \<Longrightarrow> is_slice B sl bs \<Longrightarrow> slice_bytes r sl = bs"
  by (auto simp: rd_in_def is_slice_def slice_bytes_def)

lemma is_slice_text:
  "rd_in B r cs t \<Longrightarrow> is_slice B sl bs \<Longrightarrow> abk_fido_slice_eq_text r sl s \<longleftrightarrow> bs = str_bytes s"
  by (auto simp: rd_in_def is_slice_def abk_fido_slice_eq_text_def slice_bytes_def)

lemma is_slice_len: "is_slice B sl bs \<Longrightarrow> unat (sl_len sl) = length bs"
  by (simp add: is_slice_def)

lemma rd_in_past: "rd_in B r (c # cs) t \<Longrightarrow> rd_in B (past c r) cs t"
  by (auto simp: rd_in_def dest: rd_seq_past)

subsection \<open>One item at a time\<close>

lemma seq_int:
  "rd_in B r (sint_item v # cs) t \<Longrightarrow> (\<And>r'. rd_in B r' cs t \<Longrightarrow> okval P (f v r')) \<Longrightarrow>
     okval P (rbind abk_cbor_read_int f r)"
  using rd_in_past [of B r "sint_item v" cs t] read_int_at [of r v]
  by (intro okval_bind) (auto simp: rd_in_def rd_seq_Cons)

lemma seq_key:
  "rd_in B r (CUint v # cs) t \<Longrightarrow> (\<And>r'. rd_in B r' cs t \<Longrightarrow> okval P (f v r')) \<Longrightarrow>
     okval P (rbind abk_cbor_read_int f r)"
  using rd_in_past [of B r "CUint v" cs t] read_int_uint [of r v]
  by (intro okval_bind) (auto simp: rd_in_def rd_seq_Cons)

lemma seq_bool:
  "rd_in B r (CBool v # cs) t \<Longrightarrow> (\<And>r'. rd_in B r' cs t \<Longrightarrow> okval P (f v r')) \<Longrightarrow>
     okval P (rbind abk_cbor_read_bool f r)"
  using rd_in_past [of B r "CBool v" cs t] read_bool_at [of r v]
  by (intro okval_bind) (auto simp: rd_in_def rd_seq_Cons)

lemma seq_bytes:
  assumes "rd_in B r (CBytes bs # cs) t"
    "\<And>sl r'. rd_in B r' cs t \<Longrightarrow> is_slice B sl bs \<Longrightarrow> okval P (f sl r')"
  shows "okval P (rbind abk_cbor_read_bytes f r)"
proof -
  have "rd_at r (CBytes bs) (concat (map cbor_enc cs) @ t)" "rd_buf r = B"
    using assms(1) by (simp_all add: rd_in_def rd_seq_Cons)
  with read_bytes_at [OF this(1)] have "abk_cbor_read_bytes r = ROk (slice_after 2 bs r) (past (CBytes bs) r)"
    "is_slice B (slice_after 2 bs r) bs"
    by (auto simp: is_slice_def slice_bytes_def)
  with assms(2) rd_in_past [OF assms(1)] show ?thesis by (intro okval_bind) simp
qed

lemma seq_text:
  assumes "rd_in B r (CText bs # cs) t"
    "\<And>sl r'. rd_in B r' cs t \<Longrightarrow> is_slice B sl bs \<Longrightarrow> okval P (f sl r')"
  shows "okval P (rbind abk_cbor_read_text f r)"
proof -
  have "rd_at r (CText bs) (concat (map cbor_enc cs) @ t)" "rd_buf r = B"
    using assms(1) by (simp_all add: rd_in_def rd_seq_Cons)
  with read_text_at [OF this(1)] have "abk_cbor_read_text r = ROk (slice_after 3 bs r) (past (CText bs) r)"
    "is_slice B (slice_after 3 bs r) bs"
    by (auto simp: is_slice_def slice_bytes_def)
  with assms(2) rd_in_past [OF assms(1)] show ?thesis by (intro okval_bind) simp
qed

lemma rd_in_open:
  assumes "rd_in B r (c # cs) t" "rd_seq r' items (concat (map cbor_enc cs) @ t)" "rd_buf r' = rd_buf r"
  shows "rd_in B r' (items @ cs) t"
  using assms by (simp add: rd_in_def rd_seq_def)

lemma seq_array:
  assumes "rd_in B r (CArray xs # cs) t"
    "\<And>n r'. rd_in B r' (xs @ cs) t \<Longrightarrow> unat n = length xs \<Longrightarrow> okval P (f n r')"
  shows "okval P (rbind abk_cbor_read_array f r)"
proof -
  have "rd_at r (CArray xs) (concat (map cbor_enc cs) @ t)"
    using assms(1) by (simp add: rd_in_def rd_seq_Cons)
  from read_array_at [OF this] obtain r' where r': "abk_cbor_read_array r = ROk (word_of_nat (length xs)) r'"
    "rd_seq r' xs (concat (map cbor_enc cs) @ t)" "rd_buf r' = rd_buf r"
    "unat (word_of_nat (length xs) :: u64) = length xs" by blast
  from assms(2) [OF rd_in_open [OF assms(1) r'(2,3)] r'(4)] r'(1) show ?thesis
    by (intro okval_bind) simp
qed

lemma seq_map:
  assumes "rd_in B r (CMap kvs # cs) t"
    "\<And>n r'. rd_in B r' (flat_pairs kvs @ cs) t \<Longrightarrow> unat n = length kvs \<Longrightarrow> okval P (f n r')"
  shows "okval P (rbind abk_cbor_read_map f r)"
proof -
  have "rd_at r (CMap kvs) (concat (map cbor_enc cs) @ t)"
    using assms(1) by (simp add: rd_in_def rd_seq_Cons)
  from read_map_at [OF this] obtain r' where r': "abk_cbor_read_map r = ROk (word_of_nat (length kvs)) r'"
    "rd_seq r' (flat_pairs kvs) (concat (map cbor_enc cs) @ t)" "rd_buf r' = rd_buf r"
    "unat (word_of_nat (length kvs) :: u64) = length kvs" by blast
  from assms(2) [OF rd_in_open [OF assms(1) r'(2,3)] r'(4)] r'(1) show ?thesis
    by (intro okval_bind) simp
qed

lemma seq_skip:
  assumes "rd_in B r (c # cs) t" "cbor_depth c \<le> d" "\<And>r'. rd_in B r' cs t \<Longrightarrow> P s r'"
  shows "okval P (skip_keep d s r)"
proof -
  have "abk_cbor_skip d r = ROk () (past c r)"
    using skip_item [OF assms(2), of r] assms(1) unfolding rd_in_def rd_seq_Cons by blast
  then show ?thesis
    unfolding skip_keep_def by (intro okval_bind) (simp add: rreturn_def assms(3) rd_in_past [OF assms(1)])
qed

lemma seq_loop_0: "P s r \<Longrightarrow> okval P (rd_loop 0 f s r)"
  by simp

lemma seq_loop_Suc:
  "okval (\<lambda>s' r'. okval P (rd_loop n f s' r')) (f s r) \<Longrightarrow> okval P (rd_loop (Suc n) f s r)"
  by (cases "f s r") (simp_all add: okval_def)

text \<open>A loop over a list of entries, each of them a list of items.\<close>

lemma seq_loop:
  assumes "rd_in B r (concat (map g xs) @ cs) t"
    "\<And>x s r cs'. x \<in> set xs \<Longrightarrow> rd_in B r (g x @ cs') t \<Longrightarrow>
        okval (\<lambda>v r'. v = step s x \<and> rd_in B r' cs' t) (f s r)"
  shows "okval (\<lambda>v r'. v = foldl step s xs \<and> rd_in B r' cs t) (rd_loop (length xs) f s r)"
  using assms
proof (induction xs arbitrary: s r)
  case Nil
  then show ?case by simp
next
  case (Cons x xs)
  have "okval (\<lambda>v r'. v = step s x \<and> rd_in B r' (concat (map g xs) @ cs) t) (f s r)"
    using Cons.prems by simp
  then obtain r' where "f s r = ROk (step s x) r'" "rd_in B r' (concat (map g xs) @ cs) t"
    by (auto dest: okvalD)
  with Cons.IH [of r' "step s x"] Cons.prems(2) show ?case by simp
qed

lemma rd_in_start:
  assumes "length (cbor_enc c @ t) < 2 ^ 63"
  shows "rd_in (cbor_enc c @ t) (abk_fido_reader (cbor_enc c @ t)) [c] t"
  using rd_ok_reader [OF assms] by (simp add: rd_in_def rd_seq_def) (simp add: abk_fido_reader_def)

lemma str_bytes_eq: "str_bytes a = str_bytes b \<longleftrightarrow> a = b"
proof -
  have "inj (of_char :: char \<Rightarrow> u8)"
  proof (rule injI)
    fix x y :: char
    assume "(of_char x :: u8) = of_char y"
    then have "unat (of_char x :: u8) = unat (of_char y :: u8)" by simp
    moreover have "unat (of_char c :: u8) = of_char c" for c :: char
    proof -
      have "(of_char c :: u8) = of_nat (of_char c)" by (simp only: of_nat_of_char)
      moreover have "(of_char c :: nat) < 256" by simp
      ultimately show ?thesis by (simp add: unat_of_nat)
    qed
    ultimately show "x = y" by simp
  qed
  then show ?thesis by (simp add: str_bytes_def inj_map_eq_map)
qed

subsection \<open>A credential creation request\<close>

definition descriptor_item :: "u8 list \<Rightarrow> cbor" where
  "descriptor_item cid = CMap [(ctext ''id'', CBytes cid), (ctext ''type'', ctext ''public-key'')]"

text \<open>
  The request a CTAP2 platform sends: client data hash, relying party, user, the ES256
  parameter, the exclude list and the options, in the canonical order of their keys.
\<close>

definition make_cred_item ::
    "u8 list \<Rightarrow> u8 list \<Rightarrow> u8 list \<Rightarrow> u8 list \<Rightarrow> u8 list \<Rightarrow> u8 list list \<Rightarrow> bool \<Rightarrow> bool \<Rightarrow> cbor" where
  "make_cred_item hash rp uid name disp excl rk uv =
     CMap [(CUint 1, CBytes hash),
           (CUint 2, CMap [(ctext ''id'', CText rp), (ctext ''name'', CText rp)]),
           (CUint 3, CMap [(ctext ''id'', CBytes uid), (ctext ''name'', CText name),
                           (ctext ''displayName'', CText disp)]),
           (CUint 4, CArray [CMap [(ctext ''alg'', sint_item ABK_FIDO_COSE_ALG_ES256),
                                   (ctext ''type'', ctext ''public-key'')]]),
           (CUint 5, CArray (map descriptor_item excl)),
           (CUint 7, CMap [(ctext ''rk'', CBool rk), (ctext ''uv'', CBool uv)])]"

definition ref_of :: "u8 list \<Rightarrow> cred_ref" where
  "ref_of cid = \<lparr>cf_present = True, cf_id = overwrite 0 cid (replicate 32 0), cf_len = length cid\<rparr>"

definition make_cred_expected ::
    "u8 list \<Rightarrow> u8 list \<Rightarrow> u8 list \<Rightarrow> u8 list \<Rightarrow> u8 list \<Rightarrow> u8 list list \<Rightarrow> bool \<Rightarrow> bool
     \<Rightarrow> abk_fido_make_cred_req" where
  "make_cred_expected hash rp uid name disp excl rk uv =
     \<lparr>mk_have_client_data_hash = True, mk_have_rp_id = True, mk_have_user_id = True,
      mk_rk = rk, mk_uv = uv, mk_up_disabled = False, mk_pin_auth_present = False,
      mk_hmac_secret_requested = False, mk_client_data_hash = hash,
      mk_rp_id = overwrite 0 (rp @ [0]) (replicate 128 0),
      mk_user_id = overwrite 0 uid (replicate 64 0), mk_user_id_len = word_of_nat (length uid),
      mk_user_name = overwrite 0 (name @ [0]) (replicate 64 0),
      mk_user_display = overwrite 0 (disp @ [0]) (replicate 64 0),
      mk_exclude = map ref_of excl @ replicate (32 - length excl) zero_ref,
      mk_exclude_count = length excl\<rparr>"

definition set_ref :: "cred_ref \<Rightarrow> u8 list \<Rightarrow> cred_ref" where
  "set_ref e cid = e\<lparr>cf_id := overwrite 0 cid (cf_id e), cf_len := length cid, cf_present := True\<rparr>"

lemma set_ref_zero: "set_ref zero_ref cid = ref_of cid"
  by (simp add: set_ref_def zero_ref_def ref_of_def)

lemma okval_eq: "okval (\<lambda>v r'. v = a \<and> Q r') x \<longleftrightarrow> (\<exists>r'. x = ROk a r' \<and> Q r')"
  by (cases x) (auto simp: okval_def)

lemmas seq_simps = is_slice_text str_bytes_eq is_slice_bytes is_slice_len

lemma descriptor_id:
  assumes "rd_in B r (ctext ''id'' # CBytes cid # cs) t" "length cid \<le> 32"
  shows "okval (\<lambda>e' r'. e' = set_ref e cid \<and> rd_in B r' cs t) (cred_ref_member d e r)"
  unfolding cred_ref_member_def
  apply (rule seq_text [OF assms(1)], simp add: seq_simps)
  apply (erule seq_bytes, use assms(2) in \<open>simp add: seq_simps put_slice_def set_ref_def\<close>)
  done

lemma descriptor_other:
  assumes "rd_in B r (ctext k # c # cs) t" "k \<noteq> ''id''" "cbor_depth c \<le> d"
  shows "okval (\<lambda>e' r'. e' = e \<and> rd_in B r' cs t) (cred_ref_member d e r)"
  unfolding cred_ref_member_def
  apply (rule seq_text [OF assms(1)], simp add: seq_simps assms(2))
  apply (erule seq_skip, use assms(3) in simp_all)
  done

lemma read_descriptor:
  assumes "rd_in B r (descriptor_item cid # cs) t" "length cid \<le> 32" "0 < d"
  shows "okval (\<lambda>e' r'. e' = set_ref e cid \<and> rd_in B r' cs t) (read_cred_ref d e r)"
  unfolding read_cred_ref_def
proof (rule seq_map [OF assms(1) [unfolded descriptor_item_def]])
  fix n and r1 :: abk_cbor_reader
  let ?kvs = "[(ctext ''id'', CBytes cid), (ctext ''type'', ctext ''public-key'')]"
  assume "rd_in B r1 (flat_pairs ?kvs @ cs) t" "unat n = length ?kvs"
  then have r1: "rd_in B r1 (ctext ''id'' # CBytes cid # ctext ''type'' # ctext ''public-key'' # cs) t"
    and n: "unat n = 2" by simp_all
  from descriptor_id [OF r1 assms(2), of e d] obtain r2 where
    2: "cred_ref_member d e r1 = ROk (set_ref e cid) r2" "rd_in B r2 (ctext ''type'' # ctext ''public-key'' # cs) t"
    by (auto simp: okval_eq)
  from descriptor_other [OF this(2), of d "set_ref e cid"] assms(3) obtain r3 where
    "cred_ref_member d (set_ref e cid) r2 = ROk (set_ref e cid) r3" "rd_in B r3 cs t"
    by (auto simp: okval_eq)
  with 2 show "okval (\<lambda>e' r'. e' = set_ref e cid \<and> rd_in B r' cs t)
      (rd_loop (unat n) (cred_ref_member d) e r1)"
    by (simp add: n)
qed

text \<open>The members of the request, one lemma each.\<close>

lemma member_hash:
  assumes "rd_in B r (CBytes hash # cs) t" "length hash = 32" "length (mk_client_data_hash q) = 32"
  shows "okval (\<lambda>q' r'. q' = q\<lparr>mk_client_data_hash := hash, mk_have_client_data_hash := True\<rparr>
    \<and> rd_in B r' cs t) (mk_member_hash q r)"
  unfolding mk_member_hash_def
proof (rule seq_bytes [OF assms(1)])
  fix sl r'
  assume r': "rd_in B r' cs t" and sl: "is_slice B sl hash"
  then have "sl_len sl = 32" using assms(2) by (simp add: is_slice_len word_unat_eq_iff)
  moreover have "put_slice r' sl (mk_client_data_hash q) = hash"
    using is_slice_bytes [OF r' sl] assms(2,3) by (simp add: put_slice_def overwrite_all)
  ultimately show "okval (\<lambda>q' r'. q' = q\<lparr>mk_client_data_hash := hash, mk_have_client_data_hash := True\<rparr>
      \<and> rd_in B r' cs t)
      (if sl_len sl \<noteq> 32 then RErr EINVAL
       else ROk (q\<lparr>mk_client_data_hash := put_slice r' sl (mk_client_data_hash q),
              mk_have_client_data_hash := True\<rparr>) r')"
    using r' by simp
qed

lemma rp_id_entry:
  assumes "rd_in B r (ctext ''id'' # CText rp # cs) t" "length rp < 128"
  shows "okval (\<lambda>q' r'. q' = q\<lparr>mk_rp_id := overwrite 0 (rp @ [0]) (mk_rp_id q), mk_have_rp_id := True\<rparr>
    \<and> rd_in B r' cs t) (mk_rp_entry q r)"
  unfolding mk_rp_entry_def
  apply (rule seq_text [OF assms(1)])
  apply (erule seq_text)
  apply (use assms(2) in \<open>simp add: seq_simps put_text_def parse_consts\<close>)
  done

lemma rp_other_entry:
  assumes "rd_in B r (ctext k # CText s # cs) t" "k \<noteq> ''id''"
  shows "okval (\<lambda>q' r'. q' = q \<and> rd_in B r' cs t) (mk_rp_entry q r)"
  unfolding mk_rp_entry_def
  apply (rule seq_text [OF assms(1)])
  apply (erule seq_text)
  apply (simp add: seq_simps assms(2))
  done

lemma is_slice_ucast:
  assumes "is_slice B sl bs"
  shows "(ucast (sl_len sl) :: u8) = word_of_nat (length bs)"
  unfolding is_slice_len [OF assms, symmetric]
  by (simp add: word_unat_eq_iff unat_ucast_mod unat_of_nat)

lemma user_id_entry:
  assumes "rd_in B r (ctext ''id'' # CBytes uid # cs) t" "length uid \<le> 64"
  shows "okval (\<lambda>q' r'. q' = q\<lparr>mk_user_id := overwrite 0 uid (mk_user_id q),
      mk_user_id_len := word_of_nat (length uid), mk_have_user_id := True\<rparr> \<and> rd_in B r' cs t)
    (mk_user_entry d q r)"
  unfolding mk_user_entry_def Let_def
  apply (rule seq_text [OF assms(1)])
  apply (simp add: seq_simps)
  apply (erule seq_bytes)
  apply (use assms(2) in \<open>simp add: seq_simps is_slice_ucast put_slice_def parse_consts\<close>)
  done

lemma user_name_entry:
  assumes "rd_in B r (ctext ''name'' # CText s # cs) t" "length s < 64"
  shows "okval (\<lambda>q' r'. q' = q\<lparr>mk_user_name := overwrite 0 (s @ [0]) (mk_user_name q)\<rparr> \<and> rd_in B r' cs t)
    (mk_user_entry d q r)"
  unfolding mk_user_entry_def Let_def
  apply (rule seq_text [OF assms(1)])
  apply (simp add: seq_simps)
  apply (rule seq_text, assumption)
  apply (use assms(2) in \<open>simp add: seq_simps put_text_def parse_consts\<close>)
  done

lemma user_display_entry:
  assumes "rd_in B r (ctext ''displayName'' # CText s # cs) t" "length s < 64"
  shows "okval (\<lambda>q' r'. q' = q\<lparr>mk_user_display := overwrite 0 (s @ [0]) (mk_user_display q)\<rparr>
    \<and> rd_in B r' cs t) (mk_user_entry d q r)"
  unfolding mk_user_entry_def Let_def
  apply (rule seq_text [OF assms(1)])
  apply (simp add: seq_simps)
  apply (rule seq_text, assumption)
  apply (use assms(2) in \<open>simp add: seq_simps put_text_def parse_consts\<close>)
  done

lemma param_alg:
  assumes "rd_in B r (ctext ''alg'' # sint_item v # cs) t"
  shows "okval (\<lambda>q' r'. q' = (fst q, v = ABK_FIDO_COSE_ALG_ES256) \<and> rd_in B r' cs t) (mk_param_member d q r)"
  unfolding mk_param_member_def
  apply (rule seq_text [OF assms(1)])
  apply (simp add: seq_simps)
  apply (erule seq_int)
  apply (simp add: rreturn_def)
  done

lemma param_type:
  assumes "rd_in B r (ctext ''type'' # ctext s # cs) t"
  shows "okval (\<lambda>q' r'. q' = (s = ''public-key'', snd q) \<and> rd_in B r' cs t) (mk_param_member d q r)"
  unfolding mk_param_member_def
  apply (rule seq_text [OF assms(1)])
  apply (simp add: seq_simps)
  apply (erule seq_text)
  apply (simp add: seq_simps)
  done

lemma option_rk:
  assumes "rd_in B r (ctext ''rk'' # CBool b # cs) t"
  shows "okval (\<lambda>q' r'. q' = q\<lparr>mk_rk := b\<rparr> \<and> rd_in B r' cs t) (mk_option q r)"
  unfolding mk_option_def
  apply (rule seq_text [OF assms(1)])
  apply (erule seq_bool)
  apply (simp add: seq_simps)
  done

lemma option_uv:
  assumes "rd_in B r (ctext ''uv'' # CBool b # cs) t"
  shows "okval (\<lambda>q' r'. q' = q\<lparr>mk_uv := b\<rparr> \<and> rd_in B r' cs t) (mk_option q r)"
  unfolding mk_option_def
  apply (rule seq_text [OF assms(1)])
  apply (erule seq_bool)
  apply (simp add: seq_simps)
  done

subsection \<open>The whole request\<close>

lemma loop_two:
  assumes "f q r = ROk q1 r1" "f q1 r1 = ROk q2 r2"
  shows "rd_loop 2 f q r = ROk q2 r2"
  using assms by simp

lemma loop_three:
  assumes "f q r = ROk q1 r1" "f q1 r1 = ROk q2 r2" "f q2 r2 = ROk q3 r3"
  shows "rd_loop 3 f q r = ROk q3 r3"
  using assms by simp

lemma seq_map_n:
  assumes "rd_in B r (CMap kvs # cs) t" "length kvs = n"
    "\<And>r'. rd_in B r' (flat_pairs kvs @ cs) t \<Longrightarrow> okval P (rd_loop n f s r')"
  shows "okval P (rbind abk_cbor_read_map (\<lambda>k. rd_loop (unat k) f s) r)"
  using assms by (intro seq_map [OF assms(1)]) simp

lemma member_rp:
  assumes "rd_in B r (CMap [(ctext ''id'', CText rp), (ctext ''name'', CText rp)] # cs) t" "length rp < 128"
  shows "okval (\<lambda>q' r'. q' = q\<lparr>mk_rp_id := overwrite 0 (rp @ [0]) (mk_rp_id q), mk_have_rp_id := True\<rparr>
    \<and> rd_in B r' cs t) (rbind abk_cbor_read_map (\<lambda>n. rd_loop (unat n) mk_rp_entry q) r)"
proof (rule seq_map_n [OF assms(1), where n = 2])
  fix r0
  assume "rd_in B r0 (flat_pairs [(ctext ''id'', CText rp), (ctext ''name'', CText rp)] @ cs) t"
  then have r0: "rd_in B r0 (ctext ''id'' # CText rp # ctext ''name'' # CText rp # cs) t" by simp
  from rp_id_entry [OF r0 assms(2), of q] obtain q1 r1 where
    1: "mk_rp_entry q r0 = ROk q1 r1" and
    q1: "q1 = q\<lparr>mk_rp_id := overwrite 0 (rp @ [0]) (mk_rp_id q), mk_have_rp_id := True\<rparr>" and
    r1: "rd_in B r1 (ctext ''name'' # CText rp # cs) t"
    by (auto simp: okval_eq)
  from rp_other_entry [OF r1, of q1] obtain r2 where "mk_rp_entry q1 r1 = ROk q1 r2" "rd_in B r2 cs t"
    by (auto simp: okval_eq)
  with loop_two [OF 1 this(1)] q1 show "okval (\<lambda>q' r'. q' = q\<lparr>mk_rp_id := overwrite 0 (rp @ [0]) (mk_rp_id q),
      mk_have_rp_id := True\<rparr> \<and> rd_in B r' cs t) (rd_loop 2 mk_rp_entry q r0)"
    by (simp only: okval_ok simp_thms)
qed simp

lemma member_user:
  assumes "rd_in B r (CMap [(ctext ''id'', CBytes uid), (ctext ''name'', CText name),
      (ctext ''displayName'', CText disp)] # cs) t"
    "length uid \<le> 64" "length name < 64" "length disp < 64"
  shows "okval (\<lambda>q' r'. q' = q\<lparr>mk_user_id := overwrite 0 uid (mk_user_id q),
      mk_user_id_len := word_of_nat (length uid), mk_have_user_id := True,
      mk_user_name := overwrite 0 (name @ [0]) (mk_user_name q),
      mk_user_display := overwrite 0 (disp @ [0]) (mk_user_display q)\<rparr>
    \<and> rd_in B r' cs t) (rbind abk_cbor_read_map (\<lambda>n. rd_loop (unat n) (mk_user_entry d) q) r)"
proof (rule seq_map_n [OF assms(1), where n = 3])
  fix r0
  assume "rd_in B r0 (flat_pairs [(ctext ''id'', CBytes uid), (ctext ''name'', CText name),
      (ctext ''displayName'', CText disp)] @ cs) t"
  then have r0: "rd_in B r0 (ctext ''id'' # CBytes uid # ctext ''name'' # CText name
      # ctext ''displayName'' # CText disp # cs) t" by simp
  from user_id_entry [OF r0 assms(2), of q d] obtain q1 r1 where
    1: "mk_user_entry d q r0 = ROk q1 r1" and
    q1: "q1 = q\<lparr>mk_user_id := overwrite 0 uid (mk_user_id q),
      mk_user_id_len := word_of_nat (length uid), mk_have_user_id := True\<rparr>" and
    r1: "rd_in B r1 (ctext ''name'' # CText name # ctext ''displayName'' # CText disp # cs) t"
    by (auto simp: okval_eq)
  from user_name_entry [OF r1 assms(3), of q1 d] obtain q2 r2 where
    2: "mk_user_entry d q1 r1 = ROk q2 r2" and
    q2: "q2 = q1\<lparr>mk_user_name := overwrite 0 (name @ [0]) (mk_user_name q1)\<rparr>" and
    r2: "rd_in B r2 (ctext ''displayName'' # CText disp # cs) t"
    by (auto simp: okval_eq)
  from user_display_entry [OF r2 assms(4), of q2 d] obtain q3 r3 where
    3: "mk_user_entry d q2 r2 = ROk q3 r3" and
    q3: "q3 = q2\<lparr>mk_user_display := overwrite 0 (disp @ [0]) (mk_user_display q2)\<rparr>" and
    r3: "rd_in B r3 cs t"
    by (auto simp: okval_eq)
  show "okval (\<lambda>q' r'. q' = q\<lparr>mk_user_id := overwrite 0 uid (mk_user_id q),
      mk_user_id_len := word_of_nat (length uid), mk_have_user_id := True,
      mk_user_name := overwrite 0 (name @ [0]) (mk_user_name q),
      mk_user_display := overwrite 0 (disp @ [0]) (mk_user_display q)\<rparr>
    \<and> rd_in B r' cs t) (rd_loop 3 (mk_user_entry d) q r0)"
    using loop_three [OF 1 2 3] r3 by (simp add: q3 q2 q1 del: rd_loop_numeral)
qed simp

lemma member_params:
  assumes "rd_in B r (CArray [CMap [(ctext ''alg'', sint_item ABK_FIDO_COSE_ALG_ES256),
      (ctext ''type'', ctext ''public-key'')]] # cs) t"
  shows "okval (\<lambda>q' r'. q' = q \<and> rd_in B r' cs t) (mk_member_params d q r)"
  unfolding mk_member_params_def
proof (rule seq_array [OF assms])
  fix n and r0 :: abk_cbor_reader
  let ?kvs = "[(ctext ''alg'', sint_item ABK_FIDO_COSE_ALG_ES256), (ctext ''type'', ctext ''public-key'')]"
  assume r0: "rd_in B r0 ([CMap ?kvs] @ cs) t" and n: "unat n = length [CMap ?kvs]"
  have "okval (\<lambda>b r'. b \<and> rd_in B r' cs t) (mk_param d False r0)"
    unfolding mk_param_def
  proof (rule seq_map [OF r0 [simplified]])
    fix n' and r1 :: abk_cbor_reader
    assume "rd_in B r1 (flat_pairs ?kvs @ cs) t" and "unat n' = length ?kvs"
    then have r1: "rd_in B r1 (ctext ''alg'' # sint_item ABK_FIDO_COSE_ALG_ES256
        # ctext ''type'' # ctext ''public-key'' # cs) t" and n': "unat n' = 2" by simp_all
    from param_alg [OF r1, of "(False, False)" d] obtain r2 where
      2: "mk_param_member d (False, False) r1 = ROk (False, True) r2"
      "rd_in B r2 (ctext ''type'' # ctext ''public-key'' # cs) t" by (auto simp: okval_eq)
    from param_type [OF 2(2), of "(False, True)" d] obtain r3 where
      3: "mk_param_member d (False, True) r2 = ROk (True, True) r3" "rd_in B r3 cs t"
      by (auto simp: okval_eq)
    show "okval (\<lambda>b r'. b \<and> rd_in B r' cs t) (rbind (rd_loop (unat n') (mk_param_member d) (False, False))
        (\<lambda>(type_ok, alg_ok). rreturn (False \<or> type_ok \<and> alg_ok)) r1)"
      using loop_two [OF 2(1) 3(1)] 3(2) by (simp add: n' rbind_def rreturn_def del: rd_loop_numeral)
  qed
  then obtain r' where "mk_param d False r0 = ROk True r'" "rd_in B r' cs t"
    by (auto dest!: okvalD)
  then show "okval (\<lambda>q' r'. q' = q \<and> rd_in B r' cs t)
      (rbind (rd_loop (unat n) (mk_param d) False)
        (\<lambda>has_es256. if \<not> has_es256 then rfail EOPNOTSUPP else rreturn q) r0)"
    by (simp add: n rbind_def rreturn_def)
qed

definition add_ref :: "abk_fido_make_cred_req \<Rightarrow> u8 list \<Rightarrow> abk_fido_make_cred_req" where
  "add_ref q cid = q\<lparr>mk_exclude := (mk_exclude q)[mk_exclude_count q :=
       set_ref (mk_exclude q ! mk_exclude_count q) cid], mk_exclude_count := mk_exclude_count q + 1\<rparr>"

lemma exclude_entry:
  assumes "rd_in B r (descriptor_item cid # cs) t" "length cid \<le> 32" "0 < d"
  shows "okval (\<lambda>q' r'. q' = add_ref q cid \<and> rd_in B r' cs t) (mk_exclude_entry d q r)"
  unfolding mk_exclude_entry_def Let_def
  using read_descriptor [OF assms, of "mk_exclude q ! mk_exclude_count q"]
  by (intro okval_bind) (auto simp: add_ref_def rreturn_def elim!: okval_mono)

lemma fold_add_ref:
  "mk_exclude_count q + length ids \<le> 32 \<Longrightarrow>
   mk_exclude q = pre @ replicate (32 - mk_exclude_count q) zero_ref \<Longrightarrow>
   length pre = mk_exclude_count q \<Longrightarrow>
   foldl add_ref q ids = q\<lparr>mk_exclude := pre @ map ref_of ids
      @ replicate (32 - mk_exclude_count q - length ids) zero_ref,
      mk_exclude_count := mk_exclude_count q + length ids\<rparr>"
proof (induction ids arbitrary: q pre)
  case Nil
  then show ?case by simp
next
  case (Cons cid ids)
  let ?k = "mk_exclude_count q"
  obtain m where m: "32 - ?k = Suc m" using Cons.prems(1) by (cases "32 - ?k") auto
  have add: "add_ref q cid = q\<lparr>mk_exclude := (pre @ [ref_of cid]) @ replicate m zero_ref,
      mk_exclude_count := ?k + 1\<rparr>"
    using Cons.prems(2,3) m
    by (simp add: add_ref_def nth_append list_update_append set_ref_zero)
  have "m = 32 - (?k + 1)" using m by simp
  then show ?case
    using Cons.IH [of "add_ref q cid" "pre @ [ref_of cid]"] Cons.prems(1,3) by (simp add: add)
qed

lemma member_exclude:
  assumes "rd_in B r (CArray (map descriptor_item ids) # cs) t" "\<forall>cid\<in>set ids. length cid \<le> 32"
    "length ids \<le> 32" "0 < d" "mk_exclude_count q = 0" "mk_exclude q = replicate 32 zero_ref"
  shows "okval (\<lambda>q' r'. q' = q\<lparr>mk_exclude := map ref_of ids @ replicate (32 - length ids) zero_ref,
      mk_exclude_count := length ids\<rparr> \<and> rd_in B r' cs t) (mk_member_exclude d q r)"
  unfolding mk_member_exclude_def
proof (rule seq_array [OF assms(1)])
  fix n and r0 :: abk_cbor_reader
  assume r0: "rd_in B r0 (map descriptor_item ids @ cs) t" and n: "unat n = length (map descriptor_item ids)"
  have rounds: "min (unat n) (ABK_FIDO_MAX_CRED_LIST - mk_exclude_count q) = length ids"
    using n assms(3,5) by (simp add: parse_consts)
  have "rd_in B r0 (concat (map (\<lambda>cid. [descriptor_item cid]) ids) @ cs) t"
    using r0 by (simp add: concat_map_singleton)
  then have "okval (\<lambda>q' r'. q' = foldl add_ref q ids \<and> rd_in B r' cs t)
      (rd_loop (length ids) (mk_exclude_entry d) q r0)"
    by (rule seq_loop) (use exclude_entry assms(2,4) in auto)
  then show "okval (\<lambda>q' r'. q' = q\<lparr>mk_exclude := map ref_of ids @ replicate (32 - length ids) zero_ref,
      mk_exclude_count := length ids\<rparr> \<and> rd_in B r' cs t)
      (rd_loop (min (unat n) (ABK_FIDO_MAX_CRED_LIST - mk_exclude_count q)) (mk_exclude_entry d) q r0)"
    unfolding rounds using fold_add_ref [of q ids "[]"] assms(3,5,6) by (simp add: )
qed

lemma member_options:
  assumes "rd_in B r (CMap [(ctext ''rk'', CBool rk), (ctext ''uv'', CBool uv)] # cs) t"
  shows "okval (\<lambda>q' r'. q' = q\<lparr>mk_rk := rk, mk_uv := uv\<rparr> \<and> rd_in B r' cs t)
    (rbind abk_cbor_read_map (\<lambda>n. rd_loop (unat n) mk_option q) r)"
proof (rule seq_map_n [OF assms(1), where n = 2])
  fix r0
  assume "rd_in B r0 (flat_pairs [(ctext ''rk'', CBool rk), (ctext ''uv'', CBool uv)] @ cs) t"
  then have r0: "rd_in B r0 (ctext ''rk'' # CBool rk # ctext ''uv'' # CBool uv # cs) t" by simp
  from option_rk [OF r0, of q] obtain r1 where
    1: "mk_option q r0 = ROk (q\<lparr>mk_rk := rk\<rparr>) r1" "rd_in B r1 (ctext ''uv'' # CBool uv # cs) t"
    by (auto simp: okval_eq)
  from option_uv [OF 1(2), of "q\<lparr>mk_rk := rk\<rparr>"] obtain r2 where
    2: "mk_option (q\<lparr>mk_rk := rk\<rparr>) r1 = ROk (q\<lparr>mk_rk := rk, mk_uv := uv\<rparr>) r2" "rd_in B r2 cs t"
    by (auto simp: okval_eq)
  show "okval (\<lambda>q' r'. q' = q\<lparr>mk_rk := rk, mk_uv := uv\<rparr> \<and> rd_in B r' cs t) (rd_loop 2 mk_option q r0)"
    using loop_two [OF 1(1) 2(1)] 2(2) by (simp del: rd_loop_numeral)
qed simp

lemma mk_member_key:
  assumes "rd_in B r (CUint k # cs) t" "\<And>r'. rd_in B r' cs t \<Longrightarrow> okval P
      ((if k = 1 then mk_member_hash q
        else if k = 2 then rbind abk_cbor_read_map (\<lambda>n. rd_loop (unat n) mk_rp_entry q)
        else if k = 3 then rbind abk_cbor_read_map (\<lambda>n. rd_loop (unat n) (mk_user_entry d) q)
        else if k = 4 then mk_member_params d q
        else if k = 5 then mk_member_exclude d q
        else if k = 7 then rbind abk_cbor_read_map (\<lambda>n. rd_loop (unat n) mk_option q)
        else if k = 8 then
          rbind abk_cbor_read_bytes (\<lambda>_. rreturn (q\<lparr>mk_pin_auth_present := True\<rparr>))
        else if k = 9 then rbind abk_cbor_read_uint (\<lambda>_. rreturn q)
        else if k = 6 then rbind abk_cbor_read_map (\<lambda>n. rd_loop (unat n) (mk_extension d) q)
        else skip_keep d q) r')"
  shows "okval P (mk_member d q r)"
  unfolding mk_member_def by (rule seq_key [OF assms(1)]) (rule assms(2))

lemma parse_make_cred_item:
  assumes "length (cbor_enc (make_cred_item hash rp uid name disp excl rk uv) @ t) < 2 ^ 63"
    "length hash = 32" "length rp < 128" "length uid \<le> 64" "length name < 64" "length disp < 64"
    "length excl \<le> 32" "\<forall>cid\<in>set excl. length cid \<le> 32" "0 < d"
  shows "\<exists>r. abk_fido_parse_make_cred d (cbor_enc (make_cred_item hash rp uid name disp excl rk uv) @ t)
    = ROk (make_cred_expected hash rp uid name disp excl rk uv) r \<and> rd_rest r = t"
proof -
  let ?c = "make_cred_item hash rp uid name disp excl rk uv"
  let ?B = "cbor_enc ?c @ t"
  let ?rp = "CMap [(ctext ''id'', CText rp), (ctext ''name'', CText rp)]"
  let ?user = "CMap [(ctext ''id'', CBytes uid), (ctext ''name'', CText name), (ctext ''displayName'', CText disp)]"
  let ?params = "CArray [CMap [(ctext ''alg'', sint_item ABK_FIDO_COSE_ALG_ES256),
    (ctext ''type'', ctext ''public-key'')]]"
  let ?excl = "CArray (map descriptor_item excl)"
  let ?opts = "CMap [(ctext ''rk'', CBool rk), (ctext ''uv'', CBool uv)]"
  let ?kvs = "[(CUint 1, CBytes hash), (CUint 2, ?rp), (CUint 3, ?user), (CUint 4, ?params),
    (CUint 5, ?excl), (CUint 7, ?opts)]"
  have "rd_in ?B (abk_fido_reader ?B) [CMap ?kvs] t"
    using rd_in_start [OF assms(1)] by (simp only: make_cred_item_def)
  then have "okval (\<lambda>q r. q = make_cred_expected hash rp uid name disp excl rk uv \<and> rd_rest r = t)
      (abk_fido_parse_make_cred d ?B)"
    unfolding abk_fido_parse_make_cred_def
  proof (rule seq_map)
    fix n and r0 :: abk_cbor_reader
    assume "rd_in ?B r0 (flat_pairs ?kvs @ []) t" and "unat n = length ?kvs"
    then have r0: "rd_in ?B r0 [CUint 1, CBytes hash, CUint 2, ?rp, CUint 3, ?user, CUint 4, ?params,
        CUint 5, ?excl, CUint 7, ?opts] t" and n: "unat n = 6" by simp_all
    define q1 where "q1 = zero_make_cred_req\<lparr>mk_client_data_hash := hash, mk_have_client_data_hash := True\<rparr>"
    have "okval (\<lambda>q' r'. q' = q1 \<and> rd_in ?B r' [CUint 2, ?rp, CUint 3, ?user, CUint 4, ?params,
        CUint 5, ?excl, CUint 7, ?opts] t) (mk_member d zero_make_cred_req r0)"
      unfolding q1_def by (rule mk_member_key [OF r0], simp, erule member_hash)
        (simp_all add: assms zero_make_cred_req_def q1_def)
    then obtain r1 where 1: "mk_member d zero_make_cred_req r0 = ROk q1 r1" and
      r1: "rd_in ?B r1 [CUint 2, ?rp, CUint 3, ?user, CUint 4, ?params, CUint 5, ?excl, CUint 7, ?opts] t"
      by (auto simp: okval_eq)
    define q2 where "q2 = q1\<lparr>mk_rp_id := overwrite 0 (rp @ [0]) (mk_rp_id q1), mk_have_rp_id := True\<rparr>"
    have "okval (\<lambda>q' r'. q' = q2 \<and> rd_in ?B r' [CUint 3, ?user, CUint 4, ?params,
        CUint 5, ?excl, CUint 7, ?opts] t) (mk_member d q1 r1)"
      unfolding q2_def by (rule mk_member_key [OF r1], simp, erule member_rp) (rule assms)
    then obtain r2 where 2: "mk_member d q1 r1 = ROk q2 r2" and
      r2: "rd_in ?B r2 [CUint 3, ?user, CUint 4, ?params, CUint 5, ?excl, CUint 7, ?opts] t"
      by (auto simp: okval_eq)
    define q3 where "q3 = q2\<lparr>mk_user_id := overwrite 0 uid (mk_user_id q2),
      mk_user_id_len := word_of_nat (length uid), mk_have_user_id := True,
      mk_user_name := overwrite 0 (name @ [0]) (mk_user_name q2),
      mk_user_display := overwrite 0 (disp @ [0]) (mk_user_display q2)\<rparr>"
    have "okval (\<lambda>q' r'. q' = q3 \<and> rd_in ?B r' [CUint 4, ?params, CUint 5, ?excl, CUint 7, ?opts] t)
        (mk_member d q2 r2)"
      unfolding q3_def by (rule mk_member_key [OF r2], simp, erule member_user) (rule assms)+
    then obtain r3 where 3: "mk_member d q2 r2 = ROk q3 r3" and
      r3: "rd_in ?B r3 [CUint 4, ?params, CUint 5, ?excl, CUint 7, ?opts] t"
      by (auto simp: okval_eq)
    have "okval (\<lambda>q' r'. q' = q3 \<and> rd_in ?B r' [CUint 5, ?excl, CUint 7, ?opts] t) (mk_member d q3 r3)"
      by (rule mk_member_key [OF r3], simp, erule member_params)
    then obtain r4 where 4: "mk_member d q3 r3 = ROk q3 r4" and
      r4: "rd_in ?B r4 [CUint 5, ?excl, CUint 7, ?opts] t"
      by (auto simp: okval_eq)
    define q5 where "q5 = q3\<lparr>mk_exclude := map ref_of excl @ replicate (32 - length excl) zero_ref,
      mk_exclude_count := length excl\<rparr>"
    have "okval (\<lambda>q' r'. q' = q5 \<and> rd_in ?B r' [CUint 7, ?opts] t) (mk_member d q3 r4)"
      unfolding q5_def by (rule mk_member_key [OF r4], simp, erule member_exclude)
        (simp_all add: assms q3_def q2_def q1_def zero_make_cred_req_def parse_consts)
    then obtain r5 where 5: "mk_member d q3 r4 = ROk q5 r5" and
      r5: "rd_in ?B r5 [CUint 7, ?opts] t"
      by (auto simp: okval_eq)
    define q6 where "q6 = q5\<lparr>mk_rk := rk, mk_uv := uv\<rparr>"
    have "okval (\<lambda>q' r'. q' = q6 \<and> rd_in ?B r' [] t) (mk_member d q5 r5)"
      unfolding q6_def by (rule mk_member_key [OF r5], simp, erule member_options)
    then obtain r6 where 6: "mk_member d q5 r5 = ROk q6 r6" and r6: "rd_in ?B r6 [] t"
      by (auto simp: okval_eq)
    have "q6 = make_cred_expected hash rp uid name disp excl rk uv"
      by (simp add: q6_def q5_def q3_def q2_def q1_def make_cred_expected_def zero_make_cred_req_def
          parse_consts)
    with 6 have 6: "mk_member d q5 r5 = ROk (make_cred_expected hash rp uid name disp excl rk uv) r6"
      by simp
    have "rd_loop 6 (mk_member d) zero_make_cred_req r0
        = ROk (make_cred_expected hash rp uid name disp excl rk uv) r6"
      using 1 2 3 4 5 6 by simp
    with r6 show "okval (\<lambda>q r. q = make_cred_expected hash rp uid name disp excl rk uv \<and> rd_rest r = t)
       (rbind (rd_loop (unat n) (mk_member d) zero_make_cred_req)
         (\<lambda>req. if mk_have_client_data_hash req \<and> mk_have_rp_id req \<and> mk_have_user_id req
                then rreturn req else rfail EINVAL) r0)"
      by (simp add: n rbind_def rreturn_def make_cred_expected_def rd_in_def rd_seq_def del: rd_loop_numeral)
  qed
  then show ?thesis by (auto simp: okval_eq)
qed

text \<open>
  C15. A well-formed credential creation request is read back exactly: for every client data
  hash, relying party, user, exclude list of at most 32 credentials and choice of options,
  the parser accepts the canonical CTAP2 encoding, consumes precisely its bytes, and fills
  the request with those values (handles and identifiers in zeroed arrays, names terminated).
\<close>

theorem make_cred_request_roundtrip:
  assumes "length (cbor_enc (make_cred_item hash rp uid name disp excl rk uv) @ t) < 2 ^ 63"
    "length hash = 32" "length rp < 128" "length uid \<le> 64" "length name < 64" "length disp < 64"
    "length excl \<le> 32" "\<forall>cid\<in>set excl. length cid \<le> 32" "0 < d"
  shows "\<exists>r. abk_fido_parse_make_cred d (cbor_enc (make_cred_item hash rp uid name disp excl rk uv) @ t)
    = ROk (make_cred_expected hash rp uid name disp excl rk uv) r \<and> rd_rest r = t"
  using assms by (rule parse_make_cred_item)

abbreviation sample_request :: cbor where
  "sample_request \<equiv> make_cred_item (replicate 32 1) (str_bytes ''example.org'') [7, 8, 9]
     (str_bytes ''alice'') (str_bytes ''Alice'') [replicate 32 5] True False"

lemma sample_request_length: "length (cbor_enc sample_request @ []) < 2 ^ 63"
  by (simp add: make_cred_item_def descriptor_item_def cbor_head_def cose_consts sint_item_small)

theorem make_cred_request_roundtrip_witness:
  "\<exists>r. abk_fido_parse_make_cred 1 (cbor_enc sample_request @ [])
    = ROk (make_cred_expected (replicate 32 1) (str_bytes ''example.org'') [7, 8, 9]
        (str_bytes ''alice'') (str_bytes ''Alice'') [replicate 32 5] True False) r \<and> rd_rest r = []"
  by (rule make_cred_request_roundtrip [OF sample_request_length]) simp_all


end
