(* ===== verification/Ctap_Commands.thy ===== *)
theory Ctap_Commands
  imports Store_Persistence Local_Auth Ecdsa_Sign Ctap_Requests
begin

unbundle bit_operations_syntax

section \<open>The CTAP2 commands\<close>

text \<open>
  makeCredential, getAssertion, getNextAssertion, getInfo, reset, selection and the
  dispatcher.  A command runs with the device mutex held, except while it waits for the
  user; it takes the store file and the device and returns both with either an errno or the
  payload of its reply, the bytes written to the caller's array of 1536.  That array, like the
  other local arrays, starts with whatever the stack holds (\<open>kl_stack\<close>).  What the rest of
  the system does during the wait is \<open>others\<close>: \<open>oth_wait\<close> is its effect on the device (with
  the result of the wait and the time after it), \<open>oth_file\<close> its effect on the store file.
  \<open>pr_info\<close> and \<open>pr_warn\<close> are not modelled.
\<close>

record others =
  oth_wait :: auth_wait
  oth_file :: "store_file \<Rightarrow> store_file"

text \<open>An instance for examples: the wait times out at 5000 and nothing else happens.\<close>

definition sample_others :: others where
  "sample_others = \<lparr>oth_wait = (\<lambda>d. (0, 5000, d)), oth_file = (\<lambda>f. f)\<rparr>"

type_synonym reply = "errno + u8 list"

definition ABK_FIDO_CRED_FLAG_UP :: u8 where "ABK_FIDO_CRED_FLAG_UP = 0x01"
definition ABK_FIDO_CRED_FLAG_UV :: u8 where "ABK_FIDO_CRED_FLAG_UV = 0x04"
definition ABK_FIDO_CRED_FLAG_AT :: u8 where "ABK_FIDO_CRED_FLAG_AT = 0x40"
definition ABK_FIDO_MAX_CRED_LIST_ADVERTISED :: u64 where
  "ABK_FIDO_MAX_CRED_LIST_ADVERTISED = word_of_nat (ABK_FIDO_MAX_CRED_LIST div 2)"

definition ABK_FIDO_ERR_INVALID_COMMAND :: errno where "ABK_FIDO_ERR_INVALID_COMMAND = ENOSYS"
definition ABK_FIDO_ERR_PIN_NOT_SET :: errno where "ABK_FIDO_ERR_PIN_NOT_SET = ENOKEY"
definition ABK_FIDO_ERR_INVALID_OPTION :: errno where "ABK_FIDO_ERR_INVALID_OPTION = EBADRQC"
definition ABK_FIDO_ERR_UP_REQUIRED :: errno where "ABK_FIDO_ERR_UP_REQUIRED = EPROTO"
definition ABK_FIDO_ERR_NOT_ALLOWED :: errno where "ABK_FIDO_ERR_NOT_ALLOWED = EBADSLT"

text \<open>The approval of a command, and the store file after it.\<close>

definition ctap_approve ::
    "kenv \<Rightarrow> others \<Rightarrow> u8 \<Rightarrow> u8 list \<Rightarrow> bool \<Rightarrow> bool \<Rightarrow> store_file \<Rightarrow> abk_fido_device
     \<Rightarrow> ret \<times> kenv \<times> store_file \<times> abk_fido_device" where
  "ctap_approve E W cmd rp_id uv rk f d =
     (case abk_fido_auth_begin_locked E (oth_wait W) cmd rp_id uv rk d of
        (ret, E', d') \<Rightarrow>
          (ret, E', if fst (auth_check E cmd rp_id d) = None then oth_file W f else f, d'))"

definition payload_result :: "abk_cbor_writer \<Rightarrow> reply" where
  "payload_result w =
     (case wr_err w of Some e \<Rightarrow> Inl e | None \<Rightarrow> Inr (take (wr_pos w) (wr_buf w)))"

definition cbor_text :: "string \<Rightarrow> abk_cbor_writer \<Rightarrow> abk_cbor_writer" where
  "cbor_text s = abk_cbor_put_text (str_bytes s)"

subsection \<open>Authenticator data\<close>

text \<open>
  The result of the hash is not checked: when it fails, the 32 bytes of the local array are
  copied as they are.
\<close>

definition abk_fido_authdata_common :: "klib \<Rightarrow> u8 list \<Rightarrow> u8 \<Rightarrow> u32 \<Rightarrow> u8 list" where
  "abk_fido_authdata_common K rp_id flags sign_count =
     (case abk_fido_sha256 K (cstr rp_id) of
        Inr hash \<Rightarrow> hash
      | Inl _ \<Rightarrow> kl_stack K SHA256_DIGEST_SIZE)
     @ [flags] @ be32_bytes sign_count"

definition abk_fido_make_authdata_attested ::
    "klib \<Rightarrow> abk_fido_store \<Rightarrow> abk_fido_credential \<Rightarrow> u8 \<Rightarrow> u32 \<Rightarrow> reply" where
  "abk_fido_make_authdata_attested K store cred flags sign_count =
     (case abk_fido_encode_cose_key (cr_pub_key cred) ABK_FIDO_COSE_ALG_ES256 (kl_stack K 128) of
        (Some e, _, _) \<Rightarrow> Inl e
      | (None, cose, cose_len) \<Rightarrow>
          Inr (abk_fido_authdata_common K (cr_rp_id cred) (flags OR ABK_FIDO_CRED_FLAG_AT) sign_count
            @ st_aaguid store @ be_bytes 2 (length (cr_cred_id cred)) @ cr_cred_id cred
            @ take cose_len cose))"

definition abk_fido_make_authdata_assert :: "klib \<Rightarrow> u8 list \<Rightarrow> u8 \<Rightarrow> u32 \<Rightarrow> u8 list" where
  "abk_fido_make_authdata_assert K rp_id flags sign_count =
     abk_fido_authdata_common K rp_id flags sign_count"

text \<open>
  The extensions are written right after the \<open>len\<close> bytes already in \<open>auth_data[sz]\<close>; the
  flags byte in front of them stays as it is.
\<close>

definition append_extension ::
    "klib \<Rightarrow> nat \<Rightarrow> (abk_cbor_writer \<Rightarrow> abk_cbor_writer) \<Rightarrow> u8 list \<Rightarrow> reply" where
  "append_extension K sz put auth_data =
     (let len = length auth_data;
          ew = abk_cbor_writer_init (drop len (kl_stack K sz)) (sz - len);
          ew = put (cbor_text ''hmac-secret'' (abk_cbor_put_map 1 ew))
      in case payload_result ew of Inl e \<Rightarrow> Inl e | Inr ext \<Rightarrow> Inr (auth_data @ ext))"

text \<open>Hash and sign \<open>auth_data\<close> followed by the client data hash.\<close>

definition sign_auth_data :: "klib \<Rightarrow> u8 list \<Rightarrow> u8 list \<Rightarrow> u8 list \<Rightarrow> reply" where
  "sign_auth_data K priv_key auth_data client_data_hash =
     (case abk_fido_sha256 K (auth_data @ client_data_hash) of
        Inl e \<Rightarrow> Inl e
      | Inr hash \<Rightarrow> abk_fido_ecdsa_sign_p256 K priv_key hash)"

subsection \<open>Selection\<close>

definition abk_fido_is_selection_make_credential :: "abk_fido_make_cred_req \<Rightarrow> bool" where
  "abk_fido_is_selection_make_credential req \<longleftrightarrow>
     cstr (mk_rp_id req) = str_bytes ''SelectDevice''
       \<and> cstr (mk_user_name req) = str_bytes ''SelectDevice''
     \<or> cstr (mk_rp_id req) = str_bytes ''.dummy'' \<and> cstr (mk_user_name req) = str_bytes ''dummy''"

definition abk_fido_encode_dummy_make_credential_cbor :: "u8 list \<Rightarrow> reply" where
  "abk_fido_encode_dummy_make_credential_cbor payload =
     (let auth_data = replicate 37 0;
          w = abk_cbor_writer_init payload ABK_FIDO_MAX_CBOR;
          w = abk_cbor_put_map 3 w;
          w = abk_cbor_put_int 2 w;
          w = abk_cbor_put_bytes auth_data w;
          w = abk_cbor_put_int 1 w;
          w = cbor_text ''packed'' w;
          w = abk_cbor_put_int 3 w;
          w = abk_cbor_put_map 2 w;
          w = cbor_text ''alg'' w;
          w = abk_cbor_put_int ABK_FIDO_COSE_ALG_ES256 w;
          w = cbor_text ''sig'' w;
          w = abk_cbor_put_bytes [] w
      in payload_result w)"

definition abk_fido_make_selection_credential_resp ::
    "klib \<Rightarrow> kenv \<Rightarrow> others \<Rightarrow> abk_fido_make_cred_req \<Rightarrow> store_file \<Rightarrow> abk_fido_device
     \<Rightarrow> reply \<times> store_file \<times> abk_fido_device" where
  "abk_fido_make_selection_credential_resp K E W req f d =
     (case abk_fido_load_store_locked K E f d of
        (ret, d) \<Rightarrow>
          if ret \<noteq> None \<and> ret \<noteq> Some ENOENT then (Inl (the ret), f, d)
          else
            (let d = abk_fido_set_last_trace_locked
                   (''selection makeCredential rp='' @ bytes_str (mk_rp_id req) @ '' user=''
                    @ bytes_str (mk_user_name req) @ '' uv='' @ flag_str (mk_uv req)) d
             in case ctap_approve E W ABK_FIDO_CTAP_MAKE_CREDENTIAL (mk_rp_id req) (mk_uv req) False f d of
                  (Some e, _, f, d) \<Rightarrow> (Inl e, f, d)
                | (None, _, f, d) \<Rightarrow>
                    (abk_fido_encode_dummy_make_credential_cbor (kl_stack K ABK_FIDO_MAX_CBOR), f, d)))"


subsection \<open>Matching credentials\<close>

definition abk_fido_rp_matches_request :: "u8 list \<Rightarrow> u8 list \<Rightarrow> bool" where
  "abk_fido_rp_matches_request stored_rp requested_rp =
     (let s = cstr stored_rp;
          r = cstr requested_rp
      in
        if s = r then True
        else if take 8 r \<noteq> str_bytes ''https://'' then False
        else
          (let host = drop 8 r;
               host_len = length (takeWhile (\<lambda>b. b \<noteq> of_char (CHR ''/'')) host)
           in if host_len = 0 then False
              else length s = host_len \<and> take host_len s = take host_len host))"

definition abk_fido_credential_matches_allow ::
    "abk_fido_get_assert_req \<Rightarrow> abk_fido_credential \<Rightarrow> bool" where
  "abk_fido_credential_matches_allow req cred =
     (if ga_allow_count req = 0 then True
      else list_ex (\<lambda>i. let e = ga_allow req ! i in
          cf_present e \<and> cf_len e = length (cr_cred_id cred)
            \<and> take (length (cr_cred_id cred)) (cf_id e) = cr_cred_id cred)
        [0..<ga_allow_count req])"

definition abk_fido_find_credential_by_id_locked ::
    "u8 list \<Rightarrow> nat \<Rightarrow> abk_fido_store \<Rightarrow> nat option" where
  "abk_fido_find_credential_by_id_locked cred_id len store =
     find (\<lambda>i. let cred = st_creds store ! i in
         cr_in_use cred \<and> len = length (cr_cred_id cred)
           \<and> cr_cred_id cred = take (length (cr_cred_id cred)) cred_id)
       [0..<ABK_FIDO_MAX_CREDS]"

definition abk_fido_collect_rp_credentials_locked ::
    "abk_fido_get_assert_req \<Rightarrow> nat \<Rightarrow> abk_fido_store \<Rightarrow> nat list" where
  "abk_fido_collect_rp_credentials_locked req max_slots store =
     fold (\<lambda>i slots.
         if length slots \<ge> max_slots then slots
         else if \<not> cr_in_use (st_creds store ! i) then slots
         else if \<not> abk_fido_rp_matches_request (cr_rp_id (st_creds store ! i)) (ga_rp_id req) then slots
         else if \<not> abk_fido_credential_matches_allow req (st_creds store ! i) then slots
         else slots @ [i])
       [0..<ABK_FIDO_MAX_CREDS] []"

definition abk_fido_alloc_credential_locked :: "abk_fido_store \<Rightarrow> errno + nat" where
  "abk_fido_alloc_credential_locked store =
     (case find (\<lambda>i. \<not> cr_in_use (st_creds store ! i)) [0..<ABK_FIDO_MAX_CREDS] of
        None \<Rightarrow> Inl ENOSPC
      | Some i \<Rightarrow> Inr i)"

subsection \<open>makeCredential\<close>

definition abk_fido_p256_scalar_to_bytes :: "u64 list \<Rightarrow> u8 list" where
  "abk_fido_p256_scalar_to_bytes digits = take 32 (digits_bytes digits)"

definition abk_fido_p256_pub_to_bytes :: "u64 list \<Rightarrow> u8 list" where
  "abk_fido_p256_pub_to_bytes digits = take 64 (digits_bytes digits)"

text \<open>The slot as it is filled before the key pair is made.\<close>

definition fill_credential :: "kenv \<Rightarrow> abk_fido_make_cred_req \<Rightarrow> abk_fido_credential" where
  "fill_credential E req =
     (let cred = zero_credential\<lparr>cr_in_use := True, cr_resident := mk_rk req,
            cr_cred_id := env_random E ''cred_id'' 32,
            cr_user_id := overwrite 0 (take (unat (mk_user_id_len req)) (mk_user_id req))
              (replicate ABK_FIDO_MAX_USER_ID 0),
            cr_user_id_len := mk_user_id_len req,
            cr_rp_id := strscpy (replicate ABK_FIDO_MAX_RP_ID 0) (mk_rp_id req)\<rparr>;
          cred = cred\<lparr>cr_user_name := strscpy (cr_user_name cred)
              (if mk_user_name req ! 0 \<noteq> 0 then mk_user_name req else str_bytes ''abk-user'')\<rparr>
      in cred\<lparr>cr_user_display := strscpy (cr_user_display cred)
           (if mk_user_display req ! 0 \<noteq> 0 then mk_user_display req else cr_user_name cred)\<rparr>)"

text \<open>
  The key pair.  The library's key generator is numbered by the draw: the tries of the
  signature routine are draws 0 to 15, the credential key is draw 16.
\<close>

definition KEY_DRAW :: nat where
  "KEY_DRAW = 16"

definition make_key_pair :: "klib \<Rightarrow> kenv \<Rightarrow> bool \<Rightarrow> abk_fido_credential \<Rightarrow> errno + abk_fido_credential" where
  "make_key_pair K E hmac_secret cred =
     (case kl_ecc_gen_privkey K KEY_DRAW of
        Inl e \<Rightarrow> Inl e
      | Inr priv_digits \<Rightarrow>
          (let cred = cred\<lparr>cr_priv_key := abk_fido_p256_scalar_to_bytes priv_digits\<rparr>
           in case kl_ecc_make_pub_key K priv_digits of
                Inl e \<Rightarrow> Inl e
              | Inr pub_digits \<Rightarrow>
                  (let cred = cred\<lparr>cr_pub_key := abk_fido_p256_pub_to_bytes pub_digits\<rparr>
                   in Inr (if hmac_secret
                           then cred\<lparr>cr_hmac_secret := env_random E ''hmac_secret'' ABK_FIDO_HMAC_SECRET_LEN\<rparr>
                           else cred))))"

definition encode_attestation :: "u8 list \<Rightarrow> u8 list \<Rightarrow> u8 list \<Rightarrow> reply" where
  "encode_attestation payload auth_data sig =
     (let w = abk_cbor_writer_init payload ABK_FIDO_MAX_CBOR;
          w = abk_cbor_put_map 3 w;
          w = abk_cbor_put_int 1 w;
          w = cbor_text ''packed'' w;
          w = abk_cbor_put_int 2 w;
          w = abk_cbor_put_bytes auth_data w;
          w = abk_cbor_put_int 3 w;
          w = abk_cbor_put_map 2 w;
          w = cbor_text ''alg'' w;
          w = abk_cbor_put_int ABK_FIDO_COSE_ALG_ES256 w;
          w = cbor_text ''sig'' w;
          w = abk_cbor_put_bytes sig w
      in payload_result w)"

text \<open>From the filled slot to the finished credential and its reply; \<open>Inl\<close> takes the \<open>revert\<close> exit.\<close>

definition attest_credential ::
    "klib \<Rightarrow> kenv \<Rightarrow> abk_fido_make_cred_req \<Rightarrow> abk_fido_store \<Rightarrow> errno + (abk_fido_credential \<times> u8 list)" where
  "attest_credential K E req store =
     (case make_key_pair K E (mk_hmac_secret_requested req) (fill_credential E req) of
        Inl e \<Rightarrow> Inl e
      | Inr cred \<Rightarrow>
          (case abk_fido_make_authdata_attested K store cred
                  (ABK_FIDO_CRED_FLAG_UP OR ABK_FIDO_CRED_FLAG_UV) (st_sign_count store) of
             Inl e \<Rightarrow> Inl e
           | Inr auth_data \<Rightarrow>
               (case (if mk_hmac_secret_requested req
                      then append_extension K 512 (abk_cbor_put_bool True) auth_data
                      else Inr auth_data) of
                  Inl e \<Rightarrow> Inl e
                | Inr auth_data \<Rightarrow>
                    (case sign_auth_data K (cr_priv_key cred) auth_data (mk_client_data_hash req) of
                       Inl e \<Rightarrow> Inl e
                     | Inr sig \<Rightarrow>
                         (case encode_attestation (kl_stack K ABK_FIDO_MAX_CBOR) auth_data sig of
                            Inl e \<Rightarrow> Inl e
                          | Inr payload \<Rightarrow> Inr (cred, payload))))))"

definition set_slot :: "nat \<Rightarrow> abk_fido_credential \<Rightarrow> abk_fido_device \<Rightarrow> abk_fido_device" where
  "set_slot slot cred d = d\<lparr>dv_store := (dv_store d)\<lparr>st_creds := (st_creds (dv_store d))[slot := cred]\<rparr>\<rparr>"

definition mk_excluded :: "abk_fido_make_cred_req \<Rightarrow> abk_fido_store \<Rightarrow> bool" where
  "mk_excluded req store =
     list_ex (\<lambda>i. let e = mk_exclude req ! i in
         cf_present e \<and> abk_fido_find_credential_by_id_locked (cf_id e) (cf_len e) store \<noteq> None)
       [0..<mk_exclude_count req]"


text \<open>A new credential is stored, marked dirty and persisted.\<close>

definition commit_and_persist ::
    "klib \<Rightarrow> kenv \<Rightarrow> u8 list \<Rightarrow> store_file \<Rightarrow> abk_fido_device \<Rightarrow> reply \<times> store_file \<times> abk_fido_device" where
  "commit_and_persist K E payload f d =
     (case abk_fido_maybe_persist_locked K E f (d\<lparr>dv_store_dirty := True\<rparr>) of
        (Some e, f, d) \<Rightarrow> (Inl e, f, d)
      | (None, f, d) \<Rightarrow> (Inr payload, f, d))"

definition mk_create ::
    "klib \<Rightarrow> kenv \<Rightarrow> abk_fido_make_cred_req \<Rightarrow> store_file \<Rightarrow> abk_fido_device
     \<Rightarrow> reply \<times> store_file \<times> abk_fido_device" where
  "mk_create K E req f d =
     (if mk_excluded req (dv_store d) then (Inl EEXIST, f, d)
      else
        (case abk_fido_alloc_credential_locked (dv_store d) of
           Inl e \<Rightarrow> (Inl e, f, d)
         | Inr slot \<Rightarrow>
             (case attest_credential K E req (dv_store d) of
                Inl e \<Rightarrow> (Inl e, f, set_slot slot zero_credential d)
              | Inr (cred, payload) \<Rightarrow> commit_and_persist K E payload f (set_slot slot cred d))))"

definition mk_trace :: "abk_fido_make_cred_req \<Rightarrow> string" where
  "mk_trace req = ''makeCredential rp='' @ bytes_str (mk_rp_id req) @ '' exclude=''
     @ dec_str (mk_exclude_count req) @ '' uv='' @ flag_str (mk_uv req) @ '' rk='' @ flag_str (mk_rk req)
     @ '' pin_auth='' @ flag_str (mk_pin_auth_present req)
     @ '' hmac='' @ flag_str (mk_hmac_secret_requested req)"

definition abk_fido_make_credential_resp ::
    "klib \<Rightarrow> kenv \<Rightarrow> others \<Rightarrow> abk_fido_make_cred_req \<Rightarrow> store_file \<Rightarrow> abk_fido_device
     \<Rightarrow> reply \<times> store_file \<times> abk_fido_device" where
  "abk_fido_make_credential_resp K E W req f d =
     (if abk_fido_is_selection_make_credential req then
        abk_fido_make_selection_credential_resp K E W req f d
      else
        (case abk_fido_load_store_locked K E f d of
           (ret, d) \<Rightarrow>
             if ret \<noteq> None \<and> ret \<noteq> Some ENOENT then (Inl (the ret), f, d)
             else
               (let d = abk_fido_set_last_trace_locked (mk_trace req) d in
                if mk_pin_auth_present req then (Inl ABK_FIDO_ERR_PIN_NOT_SET, f, d)
                else if mk_up_disabled req then (Inl ABK_FIDO_ERR_INVALID_OPTION, f, d)
                else
                  (case ctap_approve E W ABK_FIDO_CTAP_MAKE_CREDENTIAL (mk_rp_id req) (mk_uv req)
                          (mk_rk req) f d of
                     (Some e, _, f, d) \<Rightarrow> (Inl e, f, d)
                   | (None, E, f, d) \<Rightarrow> mk_create K E req f d))))"

subsection \<open>Assertions\<close>

definition abk_fido_clear_assert_state_locked :: "abk_fido_device \<Rightarrow> abk_fido_device" where
  "abk_fido_clear_assert_state_locked d =
     d\<lparr>dv_assert_valid := False, dv_assert_count := 0, dv_assert_next := 0,
       dv_assert_client_data_hash := replicate 32 0\<rparr>"

definition encode_user_entity :: "abk_fido_credential \<Rightarrow> abk_cbor_writer \<Rightarrow> abk_cbor_writer" where
  "encode_user_entity cred w =
     (let have_display = cr_user_display cred ! 0 \<noteq> 0
            \<and> cstr (cr_user_display cred) \<noteq> cstr (cr_user_name cred);
          w = abk_cbor_put_int 4 w;
          w = abk_cbor_put_map (if have_display then 3 else 2) w;
          w = cbor_text ''id'' w;
          w = abk_cbor_put_bytes (take (unat (cr_user_id_len cred)) (cr_user_id cred)) w;
          w = cbor_text ''name'' w;
          w = abk_cbor_put_text (cr_user_name cred) w
      in if have_display then abk_cbor_put_text (cr_user_display cred) (cbor_text ''displayName'' w)
         else w)"

definition encode_assertion_cbor ::
    "u8 list \<Rightarrow> abk_fido_credential \<Rightarrow> u8 list \<Rightarrow> u8 list \<Rightarrow> bool \<Rightarrow> nat \<Rightarrow> reply" where
  "encode_assertion_cbor payload cred auth_data sig include_user total_credentials =
     (let pairs = 3 + (if include_user then 1 else 0) + (if total_credentials > 1 then 1 else 0);
          w = abk_cbor_writer_init payload ABK_FIDO_MAX_CBOR;
          w = abk_cbor_put_map pairs w;
          w = abk_cbor_put_int 1 w;
          w = abk_cbor_put_map 2 w;
          w = cbor_text ''id'' w;
          w = abk_cbor_put_bytes (cr_cred_id cred) w;
          w = cbor_text ''type'' w;
          w = cbor_text ''public-key'' w;
          w = abk_cbor_put_int 2 w;
          w = abk_cbor_put_bytes auth_data w;
          w = abk_cbor_put_int 3 w;
          w = abk_cbor_put_bytes sig w;
          w = (if include_user then encode_user_entity cred w else w);
          w = (if total_credentials > 1
               then abk_cbor_put_uint (word_of_nat total_credentials) (abk_cbor_put_int 5 w) else w)
      in payload_result w)"

text \<open>The payload of one assertion, signed with the counter already advanced.\<close>

definition assertion_payload ::
    "klib \<Rightarrow> abk_fido_credential \<Rightarrow> u8 list \<Rightarrow> u8 list \<Rightarrow> bool \<Rightarrow> nat \<Rightarrow> u8 list option \<Rightarrow> u32 \<Rightarrow> reply" where
  "assertion_payload K cred rp_id client_data_hash include_user count hmac_output sign_count =
     (let auth_data = abk_fido_make_authdata_assert K rp_id
            (ABK_FIDO_CRED_FLAG_UP OR ABK_FIDO_CRED_FLAG_UV) sign_count
      in case (case hmac_output of
                 None \<Rightarrow> Inr auth_data
               | Some output \<Rightarrow> append_extension K 200 (abk_cbor_put_bytes output) auth_data) of
           Inl e \<Rightarrow> Inl e
         | Inr auth_data \<Rightarrow>
             (case sign_auth_data K (cr_priv_key cred) auth_data client_data_hash of
                Inl e \<Rightarrow> Inl e
              | Inr sig \<Rightarrow>
                  encode_assertion_cbor (kl_stack K ABK_FIDO_MAX_CBOR) cred auth_data sig include_user count))"

definition abk_fido_encode_assertion_locked ::
    "klib \<Rightarrow> kenv \<Rightarrow> nat \<Rightarrow> u8 list \<Rightarrow> u8 list \<Rightarrow> bool \<Rightarrow> nat \<Rightarrow> u8 list option \<Rightarrow> store_file
     \<Rightarrow> abk_fido_device \<Rightarrow> reply \<times> store_file \<times> abk_fido_device" where
  "abk_fido_encode_assertion_locked K E slot rp_id client_data_hash include_user count hmac_output f d =
     (let sign_count = st_sign_count (dv_store d) + 1;
          d = d\<lparr>dv_store := (dv_store d)\<lparr>st_sign_count := sign_count\<rparr>\<rparr>
      in case assertion_payload K (st_creds (dv_store d) ! slot) rp_id client_data_hash include_user count
                hmac_output sign_count of
           Inl e \<Rightarrow> (Inl e, f, d)
         | Inr payload \<Rightarrow> commit_and_persist K E payload f d)"


subsection \<open>hmac-secret\<close>

text \<open>
  \<open>abk_fido_hmac_sha256\<close> always stores a whole digest, and \<open>tag\<close> has 16 bytes: what is stored
  past its end is the second component of the result.  The rest of the definition reads the
  locals as if those bytes had fallen on memory that is not read again; what they really hit
  is up to the compiler.
\<close>

definition abk_fido_hmac_get_secret_locked ::
    "klib \<Rightarrow> abk_fido_credential \<Rightarrow> abk_fido_get_assert_req \<Rightarrow> reply \<times> u8 list" where
  "abk_fido_hmac_get_secret_locked K cred req =
     (if list_all (\<lambda>b. b = 0) (cr_hmac_secret cred) then (Inl ABK_FIDO_ERR_INVALID_OPTION, [])
      else
        (case abk_fido_ecdh_p256 K (cr_priv_key cred) (ga_hmac_key_agreement req) of
           Inl e \<Rightarrow> (Inl e, [])
         | Inr shared \<Rightarrow>
             (case abk_fido_hmac_sha256 K shared (ga_hmac_salt_enc req) of
                Inl e \<Rightarrow> (Inl e, [])
              | Inr digest \<Rightarrow>
                  (let tag = take ABK_FIDO_HMAC_SALT_AUTH_LEN digest;
                       past_tag = drop ABK_FIDO_HMAC_SALT_AUTH_LEN digest
                   in
                     (if tag \<noteq> ga_hmac_salt_auth req then Inl EINVAL
                      else
                        (case abk_fido_aes256_cbc K shared abk_fido_hmac_zero_iv (ga_hmac_salt_enc req) False of
                           Inl e \<Rightarrow> Inl e
                         | Inr salt \<Rightarrow>
                             (case abk_fido_hmac_sha256 K (cr_hmac_secret cred) (take ABK_FIDO_HMAC_SALT_LEN salt) of
                                Inl e \<Rightarrow> Inl e
                              | Inr output1 \<Rightarrow>
                                  (case abk_fido_hmac_sha256 K (cr_hmac_secret cred)
                                          (take ABK_FIDO_HMAC_SALT_LEN (drop ABK_FIDO_HMAC_SALT_LEN salt)) of
                                     Inl e \<Rightarrow> Inl e
                                   | Inr output2 \<Rightarrow>
                                       abk_fido_aes256_cbc K shared abk_fido_hmac_zero_iv
                                         (output1 @ output2) True))),
                      past_tag)))))"

subsection \<open>getAssertion and getNextAssertion\<close>

definition ga_trace :: "abk_fido_get_assert_req \<Rightarrow> string" where
  "ga_trace req = ''getAssertion rp='' @ bytes_str (ga_rp_id req) @ '' allow='' @ dec_str (ga_allow_count req)
     @ '' uv='' @ flag_str (ga_uv req) @ '' up='' @ flag_str (\<not> ga_up_disabled req)
     @ '' pin_auth='' @ flag_str (ga_pin_auth_present req)"

definition silent_trace :: "string \<Rightarrow> abk_fido_get_assert_req \<Rightarrow> string" where
  "silent_trace what req = what @ '' rp='' @ bytes_str (ga_rp_id req) @ '' allow='' @ dec_str (ga_allow_count req)"

text \<open>After a first assertion of several: what getNextAssertion will go on with.\<close>

definition begin_continuation ::
    "kenv \<Rightarrow> abk_fido_get_assert_req \<Rightarrow> nat list \<Rightarrow> abk_fido_device \<Rightarrow> abk_fido_device" where
  "begin_continuation E req slots d =
     abk_fido_set_last_trace_locked
       (''getAssertion rp='' @ bytes_str (ga_rp_id req) @ '' served 1/'' @ dec_str (length slots))
       (d\<lparr>dv_assert_slots := overwrite 0 slots (dv_assert_slots d),
          dv_assert_client_data_hash := ga_client_data_hash req,
          dv_assert_rp_id := strscpy (dv_assert_rp_id d) (ga_rp_id req),
          dv_assert_count := length slots, dv_assert_next := 1,
          dv_assert_expires := env_now E + env_msecs E ABK_FIDO_ASSERT_WINDOW_MS,
          dv_assert_valid := True\<rparr>)"

text \<open>What follows the approval; \<open>slots\<close> were collected before it.\<close>

definition ga_answer ::
    "klib \<Rightarrow> kenv \<Rightarrow> abk_fido_get_assert_req \<Rightarrow> nat list \<Rightarrow> store_file \<Rightarrow> abk_fido_device
     \<Rightarrow> reply \<times> store_file \<times> abk_fido_device" where
  "ga_answer K E req slots f d =
     (let cred = st_creds (dv_store d) ! (slots ! 0) in
      case (if ga_hmac_secret_requested req
            then map_sum id Some (fst (abk_fido_hmac_get_secret_locked K cred req))
            else Inr None) of
        Inl e \<Rightarrow> (Inl e, f, d)
      | Inr hmac_output \<Rightarrow>
          (case abk_fido_encode_assertion_locked K E (slots ! 0) (ga_rp_id req) (ga_client_data_hash req)
                  (ga_allow_count req = 0 \<or> length slots > 1 \<or> cr_resident cred)
                  (length slots) hmac_output f d of
             (Inl e, f, d) \<Rightarrow> (Inl e, f, d)
           | (Inr payload, f, d) \<Rightarrow>
               (Inr payload, f, if length slots > 1 then begin_continuation E req slots d else d)))"

definition abk_fido_get_assertion_resp ::
    "klib \<Rightarrow> kenv \<Rightarrow> others \<Rightarrow> abk_fido_get_assert_req \<Rightarrow> store_file \<Rightarrow> abk_fido_device
     \<Rightarrow> reply \<times> store_file \<times> abk_fido_device" where
  "abk_fido_get_assertion_resp K E W req f d =
     (case abk_fido_load_store_locked K E f (abk_fido_clear_assert_state_locked d) of
        (Some e, d) \<Rightarrow> (Inl e, f, d)
      | (None, d) \<Rightarrow>
          (let d = abk_fido_set_last_trace_locked (ga_trace req) d in
           if ga_pin_auth_present req then (Inl ABK_FIDO_ERR_PIN_NOT_SET, f, d)
           else
             (let slots = abk_fido_collect_rp_credentials_locked req ABK_FIDO_MAX_CREDS (dv_store d) in
              if ga_up_disabled req \<and> slots = [] then
                (Inl ABK_FIDO_ERR_UP_REQUIRED, f,
                 abk_fido_set_last_trace_locked (silent_trace ''getAssertion silent refused'' req) d)
              else if slots = [] then (Inl ENOENT, f, d)
              else
                (let d = (if ga_up_disabled req then
                       abk_fido_set_last_trace_locked
                         (silent_trace ''getAssertion silent probe prompted'' req) d else d)
                 in case ctap_approve E W ABK_FIDO_CTAP_GET_ASSERTION (ga_rp_id req) (ga_uv req) False f d of
                      (Some e, _, f, d) \<Rightarrow> (Inl e, f, d)
                    | (None, E, f, d) \<Rightarrow> ga_answer K E req slots f d))))"

definition next_served ::
    "kenv \<Rightarrow> u8 list \<Rightarrow> nat \<Rightarrow> abk_fido_device \<Rightarrow> abk_fido_device" where
  "next_served E rp_id served d =
     (let d = abk_fido_set_last_trace_locked
            (''getNextAssertion rp='' @ bytes_str rp_id @ '' served '' @ dec_str served @ ''/''
             @ dec_str (dv_assert_count d)) d;
          d = d\<lparr>dv_assert_next := dv_assert_next d + 1\<rparr>
      in if dv_assert_next d \<ge> dv_assert_count d then abk_fido_clear_assert_state_locked d
         else d\<lparr>dv_assert_expires := env_now E + env_msecs E ABK_FIDO_ASSERT_WINDOW_MS\<rparr>)"

definition abk_fido_get_next_assertion_resp ::
    "klib \<Rightarrow> kenv \<Rightarrow> others \<Rightarrow> store_file \<Rightarrow> abk_fido_device \<Rightarrow> reply \<times> store_file \<times> abk_fido_device" where
  "abk_fido_get_next_assertion_resp K E W f d =
     (if \<not> dv_assert_valid d \<or> dv_assert_next d \<ge> dv_assert_count d
         \<or> \<not> time_before (env_now E) (dv_assert_expires d) then
        (Inl ABK_FIDO_ERR_NOT_ALLOWED, f,
         abk_fido_set_last_trace_locked ''getNextAssertion without state''
           (abk_fido_clear_assert_state_locked d))
      else
        (let slot = dv_assert_slots d ! dv_assert_next d;
             served = dv_assert_next d + 1;
             client_data_hash = dv_assert_client_data_hash d;
             rp_id = strscpy (kl_stack K ABK_FIDO_MAX_RP_ID) (dv_assert_rp_id d)
         in
           if slot \<ge> ABK_FIDO_MAX_CREDS \<or> \<not> cr_in_use (st_creds (dv_store d) ! slot) then
             (Inl ENOENT, f, abk_fido_clear_assert_state_locked d)
           else
             (case ctap_approve E W ABK_FIDO_CTAP_GET_NEXT_ASSERTION rp_id False False f d of
                (Some e, _, f, d) \<Rightarrow> (Inl e, f, d)
              | (None, E, f, d) \<Rightarrow>
                  if \<not> dv_assert_valid d \<or> dv_assert_next d + 1 \<noteq> served then
                    (Inl ABK_FIDO_ERR_NOT_ALLOWED, f, d)
                  else
                    (case abk_fido_encode_assertion_locked K E slot rp_id client_data_hash True 1 None f d of
                       (Inl e, f, d) \<Rightarrow> (Inl e, f, d)
                     | (Inr payload, f, d) \<Rightarrow> (Inr payload, f, next_served E rp_id served d)))))"


subsection \<open>getInfo\<close>

definition encode_info :: "u8 list \<Rightarrow> u8 list \<Rightarrow> reply" where
  "encode_info payload aaguid =
     (let w = abk_cbor_writer_init payload ABK_FIDO_MAX_CBOR;
          w = abk_cbor_put_map 7 w;
          w = abk_cbor_put_int 1 w;
          w = abk_cbor_put_array 1 w;
          w = cbor_text ''FIDO_2_0'' w;
          w = abk_cbor_put_int 2 w;
          w = abk_cbor_put_array 1 w;
          w = cbor_text ''hmac-secret'' w;
          w = abk_cbor_put_int 3 w;
          w = abk_cbor_put_bytes aaguid w;
          w = abk_cbor_put_int 4 w;
          w = abk_cbor_put_map 4 w;
          w = cbor_text ''rk'' w;
          w = abk_cbor_put_bool True w;
          w = cbor_text ''up'' w;
          w = abk_cbor_put_bool True w;
          w = cbor_text ''uv'' w;
          w = abk_cbor_put_bool True w;
          w = cbor_text ''plat'' w;
          w = abk_cbor_put_bool False w;
          w = abk_cbor_put_int 5 w;
          w = abk_cbor_put_uint (word_of_nat ABK_FIDO_MAX_MSG) w;
          w = abk_cbor_put_int 7 w;
          w = abk_cbor_put_uint ABK_FIDO_MAX_CRED_LIST_ADVERTISED w;
          w = abk_cbor_put_int 8 w;
          w = abk_cbor_put_uint 32 w
      in payload_result w)"

definition abk_fido_get_info_resp ::
    "klib \<Rightarrow> kenv \<Rightarrow> store_file \<Rightarrow> abk_fido_device \<Rightarrow> reply \<times> store_file \<times> abk_fido_device" where
  "abk_fido_get_info_resp K E f d =
     (case abk_fido_load_store_locked K E f d of
        (Some e, d) \<Rightarrow> (Inl e, f, d)
      | (None, d) \<Rightarrow> (encode_info (kl_stack K ABK_FIDO_MAX_CBOR) (st_aaguid (dv_store d)), f, d))"

subsection \<open>Reset, selection and the dispatcher\<close>

text \<open>\<open>memset(&store, 0)\<close> and new identities.\<close>

definition wiped_store :: "kenv \<Rightarrow> abk_fido_store" where
  "wiped_store E = zero_store\<lparr>st_pin_retries := ABK_FIDO_PIN_RETRIES_DEFAULT,
     st_aaguid := env_random E ''aaguid'' 16, st_pin_token := env_random E ''pin_token'' 32\<rparr>"

definition ctap_reset ::
    "klib \<Rightarrow> kenv \<Rightarrow> others \<Rightarrow> store_file \<Rightarrow> abk_fido_device \<Rightarrow> reply \<times> store_file \<times> abk_fido_device" where
  "ctap_reset K E W f d =
     (case ctap_approve E W ABK_FIDO_CTAP_RESET [] False False f d of
        (Some e, _, f, d) \<Rightarrow> (Inl e, f, d)
      | (None, E, f, d) \<Rightarrow> commit_and_persist K E [] f (d\<lparr>dv_store := wiped_store E\<rparr>))"

definition ctap_selection ::
    "kenv \<Rightarrow> others \<Rightarrow> store_file \<Rightarrow> abk_fido_device \<Rightarrow> reply \<times> store_file \<times> abk_fido_device" where
  "ctap_selection E W f d =
     (case ctap_approve E W ABK_FIDO_CTAP_SELECTION [] False False f d of
        (Some e, _, f, d) \<Rightarrow> (Inl e, f, d)
      | (None, _, f, d) \<Rightarrow> (Inr [], f, d))"

text \<open>A parsed request goes on to its command; \<open>None\<close> is the parser running out of stack.\<close>

definition with_request ::
    "kenv \<Rightarrow> 'r rd \<Rightarrow> ('r \<Rightarrow> reply \<times> store_file \<times> abk_fido_device) \<Rightarrow> store_file \<Rightarrow> abk_fido_device
     \<Rightarrow> (reply \<times> store_file \<times> abk_fido_device) option" where
  "with_request E parsed command f d =
     (if \<not> env_req_ok E then Some (Inl ENOMEM, f, d)
      else case parsed of
             ROk req _ \<Rightarrow> Some (command req)
           | RErr e \<Rightarrow> Some (Inl e, f, d)
           | RDeep \<Rightarrow> None)"

text \<open>\<open>D\<close> is the stack left for the parser's recursion.\<close>

definition abk_fido_cbor_dispatch ::
    "klib \<Rightarrow> kenv \<Rightarrow> others \<Rightarrow> nat \<Rightarrow> u8 list \<Rightarrow> store_file \<Rightarrow> abk_fido_device
     \<Rightarrow> (reply \<times> store_file \<times> abk_fido_device) option" where
  "abk_fido_cbor_dispatch K E W D msg f d =
     (if length msg = 0 then Some (Inl EINVAL, f, d)
      else
        (let cmd = msg ! 0;
             d = (if cmd \<noteq> ABK_FIDO_CTAP_GET_NEXT_ASSERTION \<and> cmd \<noteq> ABK_FIDO_CTAP_GET_ASSERTION
                  then abk_fido_clear_assert_state_locked d else d)
         in
           if cmd = ABK_FIDO_CTAP_GET_INFO then Some (abk_fido_get_info_resp K E f d)
           else if cmd = ABK_FIDO_CTAP_MAKE_CREDENTIAL then
             with_request E (abk_fido_parse_make_cred D (drop 1 msg))
               (\<lambda>req. abk_fido_make_credential_resp K E W req f d) f d
           else if cmd = ABK_FIDO_CTAP_GET_ASSERTION then
             with_request E (abk_fido_parse_get_assert D (drop 1 msg))
               (\<lambda>req. abk_fido_get_assertion_resp K E W req f d) f d
           else if cmd = ABK_FIDO_CTAP_GET_NEXT_ASSERTION then
             Some (abk_fido_get_next_assertion_resp K E W f d)
           else if cmd = ABK_FIDO_CTAP_RESET then Some (ctap_reset K E W f d)
           else if cmd = ABK_FIDO_CTAP_SELECTION then Some (ctap_selection E W f d)
           else if cmd = ABK_FIDO_CTAP_CLIENT_PIN then Some (Inl ABK_FIDO_ERR_INVALID_COMMAND, f, d)
           else Some (Inl ENOIOCTLCMD, f, d)))"


subsection \<open>What the matching accepts\<close>

lemma takeWhile_split:
  "\<exists>rest. xs = takeWhile P xs @ rest \<and> (rest = [] \<or> \<not> P (hd rest))"
  using takeWhile_dropWhile_id [of P xs] hd_dropWhile [of P xs] by metis

lemma takeWhile_host:
  assumes "\<forall>b\<in>set s. P b" "rest = [] \<or> \<not> P (hd rest)"
  shows "takeWhile P (s @ rest) = s"
  using assms by (cases rest) (auto simp: takeWhile_append2)

text \<open>
  C25. A stored relying party answers a request exactly when the request names it literally or
  as the host of an \<open>https\<close> URL: after \<open>https://\<close> comes the whole stored name, not empty and
  without a slash, and then the end or a slash.  A port, a suffix or a parent domain never
  matches.
\<close>

theorem rp_match_iff:
  "abk_fido_rp_matches_request stored requested \<longleftrightarrow>
     cstr stored = cstr requested
     \<or> (cstr stored \<noteq> [] \<and> of_char (CHR ''/'') \<notin> set (cstr stored)
        \<and> (\<exists>rest. cstr requested = str_bytes ''https://'' @ cstr stored @ rest
              \<and> (rest = [] \<or> hd rest = of_char (CHR ''/''))))"
proof -
  let ?s = "cstr stored" and ?r = "cstr requested" and ?p = "str_bytes ''https://''"
  let ?P = "\<lambda>b :: u8. b \<noteq> of_char (CHR ''/'')"
  have "length ?p = 8" by simp
  show ?thesis
  proof (cases "?s = ?r")
    case True
    then show ?thesis by (simp add: abk_fido_rp_matches_request_def)
  next
    case False
    show ?thesis
    proof (cases "take 8 ?r = ?p")
      case False
      then have "\<not> (\<exists>rest. ?r = ?p @ rest)" using \<open>length ?p = 8\<close> by auto
      with False \<open>?s \<noteq> ?r\<close> show ?thesis
        by (simp add: abk_fido_rp_matches_request_def Let_def)
    next
      case True
      define host where "host = drop 8 ?r"
      have r: "?r = ?p @ host" using True append_take_drop_id [of 8 ?r] by (simp add: host_def)
      let ?h = "takeWhile ?P host"
      obtain rest where rest: "host = ?h @ rest" "rest = [] \<or> \<not> ?P (hd rest)"
        using takeWhile_split by blast
      have h: "take (length ?h) host = ?h" using rest(1) by (metis append_eq_conv_conj)
      have m: "abk_fido_rp_matches_request stored requested \<longleftrightarrow> ?h \<noteq> [] \<and> ?s = ?h"
      proof -
        have "length ?s = length ?h \<and> take (length ?h) ?s = ?h \<longleftrightarrow> ?s = ?h" by auto
        with True False h show ?thesis
          by (simp add: abk_fido_rp_matches_request_def Let_def flip: host_def)
      qed
      show ?thesis
      proof
        assume "abk_fido_rp_matches_request stored requested"
        with m have s: "?h \<noteq> []" "?s = ?h" by simp_all
        moreover have "of_char (CHR ''/'') \<notin> set ?h" by (auto dest: set_takeWhileD)
        ultimately have "?s \<noteq> [] \<and> of_char (CHR ''/'') \<notin> set ?s \<and> ?r = ?p @ ?s @ rest" using r rest(1) by simp
        then show "?s = ?r \<or> (?s \<noteq> [] \<and> of_char (CHR ''/'') \<notin> set ?s
            \<and> (\<exists>rest. ?r = ?p @ ?s @ rest \<and> (rest = [] \<or> hd rest = of_char (CHR ''/''))))"
          using rest(2) by blast
      next
        assume "?s = ?r \<or> (?s \<noteq> [] \<and> of_char (CHR ''/'') \<notin> set ?s
            \<and> (\<exists>rest. ?r = ?p @ ?s @ rest \<and> (rest = [] \<or> hd rest = of_char (CHR ''/''))))"
        with False obtain t where t: "?s \<noteq> []" "of_char (CHR ''/'') \<notin> set ?s" "?r = ?p @ ?s @ t"
          "t = [] \<or> hd t = of_char (CHR ''/'')" by blast
        with r have "host = ?s @ t" by simp
        moreover have "\<forall>b\<in>set ?s. ?P b" using t(2) by metis
        ultimately have "?h = ?s" using takeWhile_host [of ?s ?P t] t(4) by metis
        with m t(1) show "abk_fido_rp_matches_request stored requested" by simp
      qed
    qed
  qed
qed

definition answers :: "abk_fido_get_assert_req \<Rightarrow> abk_fido_credential \<Rightarrow> bool" where
  "answers req cred \<longleftrightarrow> cr_in_use cred \<and> abk_fido_rp_matches_request (cr_rp_id cred) (ga_rp_id req)
     \<and> abk_fido_credential_matches_allow req cred"

lemma bounded_collect:
  "length acc \<le> n \<Longrightarrow> fold (\<lambda>i slots. if length slots \<ge> n then slots else if P i then slots @ [i] else slots) is acc
     = take n (acc @ filter P is)"
  by (induction "is" arbitrary: acc) (auto simp: take_Cons')

lemma collect_eq:
  "abk_fido_collect_rp_credentials_locked req n store
     = take n (filter (\<lambda>i. answers req (st_creds store ! i)) [0..<32])"
proof -
  have "(\<lambda>i slots.
         if length slots \<ge> n then slots
         else if \<not> cr_in_use (st_creds store ! i) then slots
         else if \<not> abk_fido_rp_matches_request (cr_rp_id (st_creds store ! i)) (ga_rp_id req) then slots
         else if \<not> abk_fido_credential_matches_allow req (st_creds store ! i) then slots
         else slots @ [i])
     = (\<lambda>i slots. if length slots \<ge> n then slots
         else if answers req (st_creds store ! i) then slots @ [i] else slots)"
    by (auto simp: answers_def fun_eq_iff)
  then show ?thesis
    by (simp only: abk_fido_collect_rp_credentials_locked_def bounded_collect list.size(3) zero_le
        append_Nil ABK_FIDO_MAX_CREDS_def)
qed


end
