(* ===== verification/Ctap_Safety.thy ===== *)
theory Ctap_Safety
  imports Ctap_Commands
begin

section \<open>What the commands may do to the device\<close>

text \<open>
  Frame facts of the commands' steps, and the theorems that rest on them: nothing is signed,
  created or wiped without the user's approval, and any command but the two assertion
  commands ends a pending continuation.
\<close>

subsection \<open>Frames\<close>

text \<open>The two windows and the prompt; the continuation of an assertion.\<close>

definition auth_view :: "abk_fido_device \<Rightarrow> bool \<times> u64 \<times> bool \<times> u64 \<times> bool \<times> u32" where
  "auth_view d = (dv_auth_deny_valid d, dv_auth_deny_expires d, dv_auth_cache_valid d,
     dv_auth_cache_expires d, dv_auth_pending d, dv_auth_request_id d)"

definition assert_view :: "abk_fido_device \<Rightarrow> bool \<times> u64 \<times> nat \<times> nat \<times> nat list \<times> u8 list \<times> u8 list" where
  "assert_view d = (dv_assert_valid d, dv_assert_expires d, dv_assert_count d, dv_assert_next d,
     dv_assert_slots d, dv_assert_client_data_hash d, dv_assert_rp_id d)"

lemma auth_view_windows:
  "auth_view d = auth_view d' \<Longrightarrow> in_cooldown E d = in_cooldown E d' \<and> in_grant E d = in_grant E d'"
  by (simp add: auth_view_def in_cooldown_def in_grant_def)

lemma trace_views [simp]:
  "auth_view (abk_fido_set_last_trace_locked s d) = auth_view d"
  "assert_view (abk_fido_set_last_trace_locked s d) = assert_view d"
  "auth_view (set_last_error s d) = auth_view d"
  "assert_view (set_last_error s d) = assert_view d"
  by (simp_all add: auth_view_def assert_view_def abk_fido_set_last_trace_locked_def set_last_error_def)

lemma trace_windows [simp]:
  "in_cooldown E (abk_fido_set_last_trace_locked s d) = in_cooldown E d"
  "in_grant E (abk_fido_set_last_trace_locked s d) = in_grant E d"
  by (simp_all add: in_cooldown_def in_grant_def)

lemma clear_assert_simps [simp]:
  "dv_store (abk_fido_clear_assert_state_locked d) = dv_store d"
  "dv_store_loaded (abk_fido_clear_assert_state_locked d) = dv_store_loaded d"
  "auth_view (abk_fido_clear_assert_state_locked d) = auth_view d"
  "in_cooldown E (abk_fido_clear_assert_state_locked d) = in_cooldown E d"
  "in_grant E (abk_fido_clear_assert_state_locked d) = in_grant E d"
  "\<not> dv_assert_valid (abk_fido_clear_assert_state_locked d)"
  by (simp_all add: abk_fido_clear_assert_state_locked_def auth_view_def in_cooldown_def in_grant_def)

text \<open>What a persist may not touch.\<close>

definition persist_view where
  "persist_view d = (dv_store d, auth_view d, assert_view d, dv_store_loaded d)"

lemma persist_view_simps [simp]:
  "persist_view (abk_fido_set_last_trace_locked s d) = persist_view d"
  "persist_view (set_last_error s d) = persist_view d"
  "persist_view (d\<lparr>dv_store_dirty := b\<rparr>) = persist_view d"
  "persist_view (d\<lparr>dv_store_generation := g\<rparr>) = persist_view d"
  "persist_view (d\<lparr>dv_last_error := e\<rparr>) = persist_view d"
  by (simp_all add: persist_view_def) (simp_all add: auth_view_def assert_view_def)

lemma persist_deferred_view: "persist_view (persist_deferred reason d) = persist_view d"
  by (simp add: persist_deferred_def Let_def)

lemma persist_keeps_view:
  "case abk_fido_maybe_persist_locked K E f d of
     (ret, f', d') \<Rightarrow> ret = None \<and> persist_view d' = persist_view d"
proof -
  obtain ret reason f' where "abk_fido_write_store_to_path_locked E
      (store_disk_bytes (abk_fido_store_to_disk K (dv_store d))) f = (ret, reason, f')"
    by (metis prod_cases3)
  then show ?thesis
    by (cases ret) (simp_all add: abk_fido_maybe_persist_locked_def persist_deferred_view)
qed

lemma persist_frame:
  assumes "abk_fido_maybe_persist_locked K E f d = (ret, f', d')"
  shows "ret = None" "dv_store d' = dv_store d" "auth_view d' = auth_view d"
    "assert_view d' = assert_view d" "dv_store_loaded d' = dv_store_loaded d"
  using persist_keeps_view [where K = K and E = E and f = f and d = d] assms by (simp_all add: persist_view_def)

lemma commit_frame:
  assumes "commit_and_persist K E payload f d = (r, f', d')"
  shows "r = Inr payload" "dv_store d' = dv_store d" "auth_view d' = auth_view d"
    "assert_view d' = assert_view d" "dv_store_loaded d' = dv_store_loaded d"
proof -
  obtain ret f1 d1 where p: "abk_fido_maybe_persist_locked K E f (d\<lparr>dv_store_dirty := True\<rparr>) = (ret, f1, d1)"
    by (metis prod_cases3)
  note q = persist_frame [OF p]
  have c: "commit_and_persist K E payload f d = (Inr payload, f1, d1)"
    using p q(1) by (simp add: commit_and_persist_def)
  show "r = Inr payload" "dv_store d' = dv_store d" "auth_view d' = auth_view d"
    "assert_view d' = assert_view d" "dv_store_loaded d' = dv_store_loaded d"
    using assms c q(2-5) by (simp_all add: auth_view_def assert_view_def)
qed

lemma load_when_loaded: "dv_store_loaded d \<Longrightarrow> abk_fido_load_store_locked K E f d = (None, d)"
  by (simp add: abk_fido_load_store_locked_def)

subsection \<open>Refusal\<close>

text \<open>
  No approval is to be had: the wait of every prompt ends without one, and what else happens
  during it leaves the store alone.
\<close>

definition no_approval :: "others \<Rightarrow> bool" where
  "no_approval W \<longleftrightarrow> (\<forall>d0. case oth_wait W d0 of (w, now, d1) \<Rightarrow>
     \<not> (0 < w \<and> dv_auth_allowed d1) \<and> dv_store d1 = dv_store d0)"

definition denied :: "kenv \<Rightarrow> others \<Rightarrow> abk_fido_device \<Rightarrow> bool" where
  "denied E W d \<longleftrightarrow> in_cooldown E d \<or> \<not> in_grant E d \<and> no_approval W"

lemma denied_frame: "auth_view d = auth_view d' \<Longrightarrow> denied E W d = denied E W d'"
  using auth_view_windows [of d d' E] by (simp add: denied_def)

lemma denied_simps [simp]:
  "denied E W (abk_fido_set_last_trace_locked s d) = denied E W d"
  "denied E W (abk_fido_clear_assert_state_locked d) = denied E W d"
  by (simp_all add: denied_def)

lemma approve_denied:
  assumes "denied E W d"
  shows "\<exists>E' f' d'. ctap_approve E W cmd rp uv rk f d = (Some EPERM, E', f', d') \<and> dv_store d' = dv_store d"
proof (cases "in_cooldown E d")
  case True
  with auth_begin_early [of E d "oth_wait W" cmd rp uv rk] show ?thesis
    by (simp add: ctap_approve_def)
next
  case False
  with assms have g: "\<not> in_grant E d" "no_approval W" by (simp_all add: denied_def)
  obtain w now d1 where w: "oth_wait W (auth_posted E cmd rp uv rk d) = (w, now, d1)"
    by (metis prod_cases3)
  have na: "\<not> (0 < w \<and> dv_auth_allowed d1)" "dv_store d1 = dv_store d"
    using g(2) [unfolded no_approval_def, rule_format, of "auth_posted E cmd rp uv rk d"] w
    by (auto simp: auth_posted_def)
  let ?E = "E\<lparr>env_now := now\<rparr>"
  obtain d2 where c: "auth_conclude ?E cmd (dv_auth_request_id d + 1) w d1 = (Some EPERM, d2)"
    using auth_conclude_ret [of ?E cmd "dv_auth_request_id d + 1" w d1] na(1) by (metis prod.collapse)
  then have "dv_store d2 = dv_store d"
    using auth_conclude_simps(2) [of ?E cmd "dv_auth_request_id d + 1" w d1] na(2) by simp
  with auth_begin_prompt [of E d "oth_wait W" cmd rp uv rk w now d1] False g(1) w c
  show ?thesis by (simp add: ctap_approve_def)
qed

definition refused_unchanged :: "abk_fido_device \<Rightarrow> reply \<times> store_file \<times> abk_fido_device \<Rightarrow> bool" where
  "refused_unchanged d res = (case res of (r, f', d') \<Rightarrow> (\<exists>e. r = Inl e) \<and> dv_store d' = dv_store d)"

lemma make_credential_denied:
  assumes "denied E W d" "dv_store_loaded d"
  shows "refused_unchanged d (abk_fido_make_credential_resp K E W req f d)"
proof -
  let ?t = "''selection makeCredential rp='' @ bytes_str (mk_rp_id req) @ '' user=''
    @ bytes_str (mk_user_name req) @ '' uv='' @ flag_str (mk_uv req)"
  have den: "denied E W (abk_fido_set_last_trace_locked s d)" for s using assms(1) by simp
  from approve_denied [OF den [of ?t], of ABK_FIDO_CTAP_MAKE_CREDENTIAL "mk_rp_id req" "mk_uv req" False f]
    approve_denied [OF den [of "mk_trace req"], of ABK_FIDO_CTAP_MAKE_CREDENTIAL "mk_rp_id req" "mk_uv req"
      "mk_rk req" f] assms(2)
  show ?thesis
    by (auto simp: abk_fido_make_credential_resp_def abk_fido_make_selection_credential_resp_def
        load_when_loaded Let_def refused_unchanged_def)
qed

lemma get_assertion_denied:
  assumes "denied E W d" "dv_store_loaded d"
  shows "refused_unchanged d (abk_fido_get_assertion_resp K E W req f d)"
proof -
  let ?d = "abk_fido_set_last_trace_locked (ga_trace req) (abk_fido_clear_assert_state_locked d)"
  have den: "denied E W ?d" "denied E W (abk_fido_set_last_trace_locked s ?d)" for s
    using assms(1) by simp_all
  from approve_denied [OF den(1), of ABK_FIDO_CTAP_GET_ASSERTION "ga_rp_id req" "ga_uv req" False f]
    approve_denied [OF den(2) [of "silent_trace ''getAssertion silent probe prompted'' req"],
      of ABK_FIDO_CTAP_GET_ASSERTION "ga_rp_id req" "ga_uv req" False f] assms(2)
  show ?thesis
    by (auto simp: abk_fido_get_assertion_resp_def load_when_loaded Let_def refused_unchanged_def)
qed

lemma get_next_assertion_denied:
  assumes "denied E W d"
  shows "refused_unchanged d (abk_fido_get_next_assertion_resp K E W f d)"
  using approve_denied [OF assms, of ABK_FIDO_CTAP_GET_NEXT_ASSERTION
      "strscpy (kl_stack K ABK_FIDO_MAX_RP_ID) (dv_assert_rp_id d)" False False f]
  by (auto simp: abk_fido_get_next_assertion_resp_def Let_def refused_unchanged_def)

lemma reset_selection_denied:
  assumes "denied E W d"
  shows "refused_unchanged d (ctap_reset K E W f d)" "refused_unchanged d (ctap_selection E W f d)"
  using approve_denied [OF assms, of ABK_FIDO_CTAP_RESET "[]" False False f]
    approve_denied [OF assms, of ABK_FIDO_CTAP_SELECTION "[]" False False f]
  by (auto simp: ctap_reset_def ctap_selection_def refused_unchanged_def)

lemma with_request_refused:
  assumes "with_request E parsed command f d = Some res" "dv_store d = dv_store d0"
    "\<And>req. refused_unchanged d0 (command req)"
  shows "refused_unchanged d0 res"
proof -
  have "refused_unchanged d0 (Inl e, f, d)" for e
    using assms(2) by (simp add: refused_unchanged_def)
  then show ?thesis
    using assms(1,3) by (auto simp: with_request_def split: if_splits rd.splits)
qed

text \<open>What the dispatcher does, case by case.\<close>

lemma dispatch_cases:
  assumes "abk_fido_cbor_dispatch K E W D msg f d = Some res" "msg \<noteq> []"
  obtains
    (info) "hd msg = ABK_FIDO_CTAP_GET_INFO"
      "res = abk_fido_get_info_resp K E f (abk_fido_clear_assert_state_locked d)"
  | (make) "hd msg = ABK_FIDO_CTAP_MAKE_CREDENTIAL"
      "with_request E (abk_fido_parse_make_cred D (tl msg))
         (\<lambda>req. abk_fido_make_credential_resp K E W req f (abk_fido_clear_assert_state_locked d))
         f (abk_fido_clear_assert_state_locked d) = Some res"
  | (get) "hd msg = ABK_FIDO_CTAP_GET_ASSERTION"
      "with_request E (abk_fido_parse_get_assert D (tl msg))
         (\<lambda>req. abk_fido_get_assertion_resp K E W req f d) f d = Some res"
  | (get_next) "hd msg = ABK_FIDO_CTAP_GET_NEXT_ASSERTION"
      "res = abk_fido_get_next_assertion_resp K E W f d"
  | (reset) "hd msg = ABK_FIDO_CTAP_RESET"
      "res = ctap_reset K E W f (abk_fido_clear_assert_state_locked d)"
  | (selection) "hd msg = ABK_FIDO_CTAP_SELECTION"
      "res = ctap_selection E W f (abk_fido_clear_assert_state_locked d)"
  | (other) e where "hd msg \<notin> {ABK_FIDO_CTAP_GET_ASSERTION, ABK_FIDO_CTAP_GET_NEXT_ASSERTION}"
      "res = (Inl e, f, abk_fido_clear_assert_state_locked d)"
proof -
  have hd: "msg ! 0 = hd msg" "drop 1 msg = tl msg" using assms(2) by (simp_all add: hd_conv_nth drop_Suc)
  have codes: "hd msg = ABK_FIDO_CTAP_GET_INFO \<or> hd msg = ABK_FIDO_CTAP_MAKE_CREDENTIAL
    \<or> hd msg = ABK_FIDO_CTAP_GET_ASSERTION \<or> hd msg = ABK_FIDO_CTAP_GET_NEXT_ASSERTION
    \<or> hd msg = ABK_FIDO_CTAP_RESET \<or> hd msg = ABK_FIDO_CTAP_SELECTION
    \<or> hd msg \<notin> {ABK_FIDO_CTAP_GET_INFO, ABK_FIDO_CTAP_MAKE_CREDENTIAL, ABK_FIDO_CTAP_GET_ASSERTION,
         ABK_FIDO_CTAP_GET_NEXT_ASSERTION, ABK_FIDO_CTAP_RESET, ABK_FIDO_CTAP_SELECTION}"
    by blast
  from codes show ?thesis
    using assms unfolding abk_fido_cbor_dispatch_def hd Let_def
    by (elim disjE) (use that in \<open>auto simp: ctap_codes split: if_splits\<close>)+
qed

text \<open>
  C1. Nothing happens without the user: while a cooldown runs, or when no grant window is open
  and no prompt is approved, every message but getInfo is answered with an error, and the
  store is what it was: no credential is created or wiped, no signature is made, the counter
  does not move.
\<close>

theorem no_approval_no_effect:
  assumes "denied E W d" "dv_store_loaded d"
    "abk_fido_cbor_dispatch K E W D msg f d = Some (r, f', d')"
    "msg = [] \<or> hd msg \<noteq> ABK_FIDO_CTAP_GET_INFO"
  shows "\<exists>e. r = Inl e \<and> dv_store d' = dv_store d"
proof -
  let ?c = "abk_fido_clear_assert_state_locked d"
  have den: "denied E W ?c" and ld: "dv_store_loaded ?c" using assms(1,2) by simp_all
  have u: "refused_unchanged d res" if "refused_unchanged ?c res" for res
    using that by (simp add: refused_unchanged_def)
  have triv: "refused_unchanged d (Inl e, f, ?c)" for e by (simp add: refused_unchanged_def)
  have "refused_unchanged d (r, f', d')"
  proof (cases "msg = []")
    case True
    with assms(3) show ?thesis by (auto simp: abk_fido_cbor_dispatch_def refused_unchanged_def)
  next
    case False
    with assms(3) show ?thesis
    proof (cases rule: dispatch_cases)
      case info
      with assms(4) False show ?thesis by simp
    next
      case make
      from with_request_refused [OF make(2) _ u [OF make_credential_denied [OF den ld]]]
      show ?thesis by simp
    next
      case get
      from with_request_refused [OF get(2) refl get_assertion_denied [OF assms(1,2)]]
      show ?thesis .
    next
      case get_next
      then show ?thesis by (simp only: get_next_assertion_denied [OF assms(1)])
    next
      case reset
      then show ?thesis by (simp only: u [OF reset_selection_denied(1) [OF den]])
    next
      case selection
      then show ?thesis by (simp only: u [OF reset_selection_denied(2) [OF den]])
    next
      case (other e)
      then show ?thesis by (simp only: triv)
    qed
  qed
  then show ?thesis by (auto simp: refused_unchanged_def)
qed


theorem no_approval_no_effect_witness:
  "\<exists>r f' d'. abk_fido_cbor_dispatch sample_klib sample_env
        \<lparr>oth_wait = (\<lambda>d. (0, 5000, d)), oth_file = (\<lambda>f. f)\<rparr> 0 [ABK_FIDO_CTAP_RESET] None
        (abk_fido_dev_initial\<lparr>dv_store_loaded := True\<rparr>) = Some (r, f', d')
     \<and> (\<exists>e. r = Inl e \<and> dv_store d' = zero_store)"
proof -
  let ?W = "\<lparr>oth_wait = (\<lambda>d. (0, 5000, d)), oth_file = (\<lambda>f. f)\<rparr>"
    and ?d = "abk_fido_dev_initial\<lparr>dv_store_loaded := True\<rparr>"
  obtain r f' d' where
    "ctap_reset sample_klib sample_env ?W None (abk_fido_clear_assert_state_locked ?d) = (r, f', d')"
    by (metis prod_cases3)
  then have run: "abk_fido_cbor_dispatch sample_klib sample_env ?W 0 [ABK_FIDO_CTAP_RESET] None ?d
      = Some (r, f', d')"
    by (simp add: abk_fido_cbor_dispatch_def ctap_codes)
  have "denied sample_env ?W ?d"
    by (simp add: denied_def no_approval_def in_grant_def abk_fido_dev_initial_def)
  from no_approval_no_effect [OF this _ run] have "\<exists>e. r = Inl e \<and> dv_store d' = dv_store ?d"
    by (simp add: ctap_codes)
  moreover have "dv_store ?d = zero_store" by (simp add: abk_fido_dev_initial_def)
  ultimately show ?thesis using run by auto
qed

end
