(* ===== verification/Ctap_Replies.thy ===== *)
theory Ctap_Replies
  imports Ctap_Commands
begin

unbundle bit_operations_syntax

section \<open>What the replies say\<close>

text \<open>
  The payloads of the commands as data items: each encoder fills the caller's array with
  exactly the canonical encoding of one CTAP2 map.  \<open>wr_adds w w' bs\<close> says that the calls
  leading from \<open>w\<close> to \<open>w'\<close> append \<open>bs\<close>, provided there is room for all of it, so only the
  length of the whole reply has to be bounded.
\<close>

subsection \<open>Sequences of writer calls\<close>

definition wr_adds :: "abk_cbor_writer \<Rightarrow> abk_cbor_writer \<Rightarrow> u8 list \<Rightarrow> bool" where
  "wr_adds w w' bs \<longleftrightarrow>
     (\<forall>cap out. wr_built w cap out \<longrightarrow> length (out @ bs) \<le> cap \<longrightarrow> wr_built w' cap (out @ bs))"

lemma wr_adds_step:
  assumes "wr_adds w w' bs"
    "\<And>cap out. wr_built w' cap out \<Longrightarrow> length out + length cs \<le> cap \<Longrightarrow> wr_built w'' cap (out @ cs)"
  shows "wr_adds w w'' (bs @ cs)"
proof (unfold wr_adds_def, intro allI impI)
  fix cap out
  assume "wr_built w cap out" and room: "length (out @ bs @ cs) \<le> cap"
  with assms(1) have "wr_built w' cap (out @ bs)" by (simp add: wr_adds_def)
  from assms(2) [OF this] room show "wr_built w'' cap (out @ bs @ cs)" by simp
qed

definition nul_free :: "string \<Rightarrow> bool" where
  "nul_free s \<longleftrightarrow> 0 \<notin> set (str_bytes s)"

lemma cstr_str_bytes: "nul_free s \<Longrightarrow> cstr (str_bytes s) = str_bytes s"
  by (simp add: nul_free_def cstr_id)

lemma wr_built_ctext:
  assumes "nul_free s" "wr_built w cap out" "length out + length (cbor_enc (ctext s)) \<le> cap"
  shows "wr_built (cbor_text s w) cap (out @ cbor_enc (ctext s))"
  using wr_built_text [OF assms(2), of "str_bytes s"] assms(1,3)
  by (simp only: cbor_text_def cstr_str_bytes)

lemma wr_adds_refl: "wr_adds w w []"
  by (simp add: wr_adds_def)

lemma wr_adds_ctext:
  assumes "wr_adds w w' bs" "nul_free s"
  shows "wr_adds w (cbor_text s w') (bs @ cbor_enc (ctext s))"
  by (rule wr_adds_step [OF assms(1)]) (rule wr_built_ctext [OF assms(2)])

lemma wr_adds_calls:
  assumes "wr_adds w w' bs"
  shows "wr_adds w (abk_cbor_put_uint v w') (bs @ cbor_enc (CUint v))"
    "wr_adds w (abk_cbor_put_int v w') (bs @ cbor_enc (sint_item v))"
    "wr_adds w (abk_cbor_put_bool b w') (bs @ cbor_enc (CBool b))"
    "wr_adds w (abk_cbor_put_bytes cs w') (bs @ cbor_enc (CBytes cs))"
    "wr_adds w (abk_cbor_put_text t w') (bs @ cbor_enc (CText (cstr t)))"
    "wr_adds w (abk_cbor_put_map n w') (bs @ cbor_head 5 n)"
    "wr_adds w (abk_cbor_put_array n w') (bs @ cbor_head 4 n)"
  by (rule wr_adds_step [OF assms], erule (1) wr_built_intros)+

lemmas wr_adds_intros = wr_adds_calls wr_adds_ctext wr_adds_refl

lemma payload_written:
  assumes "wr_adds (abk_cbor_writer_init buf n) w bs" "length bs \<le> n" "n \<le> length buf"
  shows "payload_result w = Inr bs"
proof -
  have "wr_built w n ([] @ bs)"
    using assms wr_built_init [of n n buf] unfolding wr_adds_def by (metis append_Nil order_refl)
  then show ?thesis by (simp add: wr_built_def payload_result_def)
qed

subsection \<open>The attestation\<close>

definition attestation_item :: "u8 list \<Rightarrow> u8 list \<Rightarrow> cbor" where
  "attestation_item auth_data sig = CMap [(CUint 1, ctext ''packed''), (CUint 2, CBytes auth_data),
     (CUint 3, CMap [(ctext ''alg'', CNeg 6), (ctext ''sig'', CBytes sig)])]"

lemma encode_attestation_adds:
  "\<exists>w. encode_attestation payload auth_data sig = payload_result w
     \<and> wr_adds (abk_cbor_writer_init payload ABK_FIDO_MAX_CBOR) w (cbor_enc (attestation_item auth_data sig))"
proof -
  have "wr_adds w0 (abk_cbor_put_bytes sig (cbor_text ''sig'' (abk_cbor_put_int (-7) (cbor_text ''alg''
      (abk_cbor_put_map 2 (abk_cbor_put_int 3 (abk_cbor_put_bytes auth_data (abk_cbor_put_int 2
      (cbor_text ''packed'' (abk_cbor_put_int 1 (abk_cbor_put_map 3 w0)))))))))))
    (((((((((((([] @ cbor_head 5 3) @ cbor_enc (sint_item 1)) @ cbor_enc (ctext ''packed''))
      @ cbor_enc (sint_item 2)) @ cbor_enc (CBytes auth_data)) @ cbor_enc (sint_item 3))
      @ cbor_head 5 2) @ cbor_enc (ctext ''alg'')) @ cbor_enc (sint_item (-7)))
      @ cbor_enc (ctext ''sig'')) @ cbor_enc (CBytes sig)))" for w0
    by (intro wr_adds_intros) (simp_all add: nul_free_def str_bytes_def)
  then show ?thesis
    by (fastforce simp: encode_attestation_def attestation_item_def sint_item_small cose_consts)
qed

lemma attestation_length:
  "length auth_data \<le> 512 \<Longrightarrow> length sig \<le> 80 \<Longrightarrow>
     length (cbor_enc (attestation_item auth_data sig)) \<le> 1536"
  using cbor_head_length [of 2 "word_of_nat (length auth_data)"]
    cbor_head_length [of 2 "word_of_nat (length sig)"]
  by (auto simp: attestation_item_def cbor_head_def)

lemma encode_attestation_reply:
  assumes "length payload = 1536" "length auth_data \<le> 512" "length sig \<le> 80"
  shows "encode_attestation payload auth_data sig = Inr (cbor_enc (attestation_item auth_data sig))"
proof -
  obtain w where w: "encode_attestation payload auth_data sig = payload_result w"
    "wr_adds (abk_cbor_writer_init payload ABK_FIDO_MAX_CBOR) w (cbor_enc (attestation_item auth_data sig))"
    using encode_attestation_adds by blast
  from payload_written [OF w(2)] attestation_length [OF assms(2,3)] assms(1) w(1)
  show ?thesis by (simp add: ABK_FIDO_MAX_CBOR_def)
qed

subsection \<open>The assertion\<close>

definition shows_display :: "abk_fido_credential \<Rightarrow> bool" where
  "shows_display cred \<longleftrightarrow> cr_user_display cred ! 0 \<noteq> 0
     \<and> cstr (cr_user_display cred) \<noteq> cstr (cr_user_name cred)"

definition user_item :: "abk_fido_credential \<Rightarrow> cbor" where
  "user_item cred = CMap
     ([(ctext ''id'', CBytes (take (unat (cr_user_id_len cred)) (cr_user_id cred))),
       (ctext ''name'', CText (cstr (cr_user_name cred)))]
      @ (if shows_display cred then [(ctext ''displayName'', CText (cstr (cr_user_display cred)))] else []))"

definition assertion_item ::
    "abk_fido_credential \<Rightarrow> u8 list \<Rightarrow> u8 list \<Rightarrow> bool \<Rightarrow> nat \<Rightarrow> cbor" where
  "assertion_item cred auth_data sig include_user count = CMap
     ([(CUint 1, CMap [(ctext ''id'', CBytes (cr_cred_id cred)), (ctext ''type'', ctext ''public-key'')]),
       (CUint 2, CBytes auth_data), (CUint 3, CBytes sig)]
      @ (if include_user then [(CUint 4, user_item cred)] else [])
      @ (if count > 1 then [(CUint 5, CUint (word_of_nat count))] else []))"

lemma sint_item_5: "sint_item 4 = CUint 4" "sint_item 5 = CUint 5"
  by (simp_all add: sint_item_def)

lemma user_entity_adds:
  assumes "wr_adds w0 w bs"
  shows "wr_adds w0 (encode_user_entity cred w) (bs @ cbor_enc (CUint 4) @ cbor_enc (user_item cred))"
proof -
  let ?id = "take (unat (cr_user_id_len cred)) (cr_user_id cred)"
  let ?w = "\<lambda>n. abk_cbor_put_text (cr_user_name cred) (cbor_text ''name'' (abk_cbor_put_bytes ?id
    (cbor_text ''id'' (abk_cbor_put_map n (abk_cbor_put_int 4 w)))))"
  let ?bs = "\<lambda>n. (((((bs @ cbor_enc (sint_item 4)) @ cbor_head 5 n) @ cbor_enc (ctext ''id''))
    @ cbor_enc (CBytes ?id)) @ cbor_enc (ctext ''name'')) @ cbor_enc (CText (cstr (cr_user_name cred)))"
  have base: "wr_adds w0 (?w n) (?bs n)" for n
    by (intro wr_adds_intros assms) (simp_all add: nul_free_def str_bytes_def)
  have "wr_adds w0 (abk_cbor_put_text (cr_user_display cred) (cbor_text ''displayName'' (?w 3)))
    ((?bs 3 @ cbor_enc (ctext ''displayName'')) @ cbor_enc (CText (cstr (cr_user_display cred))))"
    by (intro wr_adds_intros base) (simp_all add: nul_free_def str_bytes_def)
  with base [of 2] show ?thesis
    by (simp add: encode_user_entity_def user_item_def shows_display_def sint_item_5 Let_def)
qed

lemma assertion_head_adds:
  "wr_adds w0 (abk_cbor_put_bytes sig (abk_cbor_put_int 3 (abk_cbor_put_bytes auth_data (abk_cbor_put_int 2
    (cbor_text ''public-key'' (cbor_text ''type'' (abk_cbor_put_bytes cred_id (cbor_text ''id''
    (abk_cbor_put_map 2 (abk_cbor_put_int 1 (abk_cbor_put_map n w0)))))))))))
    (((((((((((([] @ cbor_head 5 n) @ cbor_enc (sint_item 1)) @ cbor_head 5 2)
    @ cbor_enc (ctext ''id'')) @ cbor_enc (CBytes cred_id)) @ cbor_enc (ctext ''type''))
    @ cbor_enc (ctext ''public-key'')) @ cbor_enc (sint_item 2)) @ cbor_enc (CBytes auth_data))
    @ cbor_enc (sint_item 3)) @ cbor_enc (CBytes sig)))"
  by (intro wr_adds_intros) (simp_all add: nul_free_def str_bytes_def)

lemma encode_assertion_adds:
  "\<exists>w. encode_assertion_cbor payload cred auth_data sig include_user count = payload_result w
     \<and> wr_adds (abk_cbor_writer_init payload ABK_FIDO_MAX_CBOR) w
         (cbor_enc (assertion_item cred auth_data sig include_user count))"
proof -
  let ?n = "3 + (if include_user then 1 else 0) + (if count > 1 then 1 else 0) :: u64"
  let ?w0 = "abk_cbor_writer_init payload ABK_FIDO_MAX_CBOR"
  obtain w bs where base: "wr_adds ?w0 w bs"
    and w: "w = abk_cbor_put_bytes sig (abk_cbor_put_int 3 (abk_cbor_put_bytes auth_data (abk_cbor_put_int 2
      (cbor_text ''public-key'' (cbor_text ''type'' (abk_cbor_put_bytes (cr_cred_id cred) (cbor_text ''id''
      (abk_cbor_put_map 2 (abk_cbor_put_int 1 (abk_cbor_put_map ?n ?w0))))))))))"
    and bs: "bs = cbor_head 5 ?n @ cbor_enc (CUint 1) @ cbor_head 5 2
      @ cbor_enc (ctext ''id'') @ cbor_enc (CBytes (cr_cred_id cred)) @ cbor_enc (ctext ''type'')
      @ cbor_enc (ctext ''public-key'') @ cbor_enc (CUint 2) @ cbor_enc (CBytes auth_data)
      @ cbor_enc (CUint 3) @ cbor_enc (CBytes sig)"
    using assertion_head_adds [of ?w0 sig auth_data "cr_cred_id cred" ?n]
    by (simp only: append_Nil append_assoc sint_item_small) 
  let ?wu = "if include_user then encode_user_entity cred w else w"
  let ?bu = "if include_user then bs @ cbor_enc (CUint 4) @ cbor_enc (user_item cred) else bs"
  let ?wc = "if count > 1 then abk_cbor_put_uint (word_of_nat count) (abk_cbor_put_int 5 ?wu) else ?wu"
  let ?bc = "if count > 1 then (?bu @ cbor_enc (sint_item 5)) @ cbor_enc (CUint (word_of_nat count)) else ?bu"
  have user: "wr_adds ?w0 ?wu ?bu" using user_entity_adds [OF base] base by simp
  have "wr_adds ?w0 ?wc ?bc"
  proof (cases "count > 1")
    case True
    show ?thesis unfolding if_P [OF True] by (intro wr_adds_calls user)
  next
    case False
    show ?thesis unfolding if_not_P [OF False] by (rule user)
  qed
  moreover have "encode_assertion_cbor payload cred auth_data sig include_user count = payload_result ?wc"
    by (simp add: encode_assertion_cbor_def Let_def w)
  moreover have "?bc = cbor_enc (assertion_item cred auth_data sig include_user count)"
    by (simp add: assertion_item_def bs sint_item_5)
  ultimately show ?thesis by (intro exI [of _ ?wc]) (simp only: simp_thms)
qed

text \<open>Credentials as the store keeps them never make a reply too long.\<close>

lemma head_length_le: "v \<le> 0xffff \<Longrightarrow> length (cbor_head m v) \<le> 3"
  by (simp add: cbor_head_def)

lemma bytes_item_length:
  "length bs \<le> n \<Longrightarrow> n \<le> 0xffff \<Longrightarrow> length (cbor_enc (CBytes bs)) \<le> 3 + n"
  using head_length_le [of "word_of_nat (length bs)" 2]
  by (simp add: word_le_nat_alt unat_of_nat)

lemma text_item_length:
  "length bs \<le> n \<Longrightarrow> n \<le> 0xffff \<Longrightarrow> length (cbor_enc (CText bs)) \<le> 3 + n"
  using head_length_le [of "word_of_nat (length bs)" 3]
  by (simp add: word_le_nat_alt unat_of_nat)


lemma head_small_length: "length (cbor_head m v) \<le> 9"
  using cbor_head_length [of m v] by auto

lemma user_item_length:
  assumes "cred_ok cred"
  shows "length (cbor_enc (user_item cred)) \<le> 230"
proof -
  have u: "length (take (unat (cr_user_id_len cred)) (cr_user_id cred)) \<le> 64"
    and n: "length (cstr (cr_user_name cred)) \<le> 64" "length (cstr (cr_user_display cred)) \<le> 64"
    using assms length_cstr_le [of "cr_user_name cred"] length_cstr_le [of "cr_user_display cred"]
    by (simp_all add: cred_ok_def)
  note lens = bytes_item_length [OF u] text_item_length [OF n(1)] text_item_length [OF n(2)]
  show ?thesis
    using lens unfolding user_item_def
    by (simp add: cbor_head_def split: if_splits)
qed

lemma assertion_length:
  assumes "cred_ok cred" "length auth_data \<le> 200" "length sig \<le> 80"
  shows "length (cbor_enc (assertion_item cred auth_data sig include_user count)) \<le> 1536"
proof -
  have c: "length (cr_cred_id cred) \<le> 32" using assms(1) by (simp add: cred_ok_def)
  note lens = bytes_item_length [OF c] bytes_item_length [OF assms(2)] bytes_item_length [OF assms(3)]
    user_item_length [OF assms(1)] head_small_length [of 0 "word_of_nat count"]
  have small: "length (cbor_head m 1) = 1" "length (cbor_head m 2) = 1" "length (cbor_head m 3) = 1"
    "length (cbor_head m 4) = 1" "length (cbor_head m 5) = 1" "length (cbor_head m 10) = 1" for m
    by (simp_all add: length_small_uint)
  show ?thesis using lens by (simp add: assertion_item_def small)
qed

lemma encode_assertion_reply:
  assumes "length payload = 1536" "cred_ok cred" "length auth_data \<le> 200" "length sig \<le> 80"
  shows "encode_assertion_cbor payload cred auth_data sig include_user count
    = Inr (cbor_enc (assertion_item cred auth_data sig include_user count))"
proof -
  obtain w where w: "encode_assertion_cbor payload cred auth_data sig include_user count = payload_result w"
    "wr_adds (abk_cbor_writer_init payload ABK_FIDO_MAX_CBOR) w
      (cbor_enc (assertion_item cred auth_data sig include_user count))"
    using encode_assertion_adds by blast
  from payload_written [OF w(2)] assertion_length [OF assms(2-4)] assms(1) w(1)
  show ?thesis by (simp add: ABK_FIDO_MAX_CBOR_def)
qed

subsection \<open>getInfo\<close>

definition info_item :: "u8 list \<Rightarrow> cbor" where
  "info_item aaguid = CMap
     [(CUint 1, CArray [ctext ''FIDO_2_0'']), (CUint 2, CArray [ctext ''hmac-secret'']),
      (CUint 3, CBytes aaguid),
      (CUint 4, CMap [(ctext ''rk'', CBool True), (ctext ''up'', CBool True),
         (ctext ''uv'', CBool True), (ctext ''plat'', CBool False)]),
      (CUint 5, CUint 2048), (CUint 7, CUint 16), (CUint 8, CUint 32)]"

lemma sint_item_8: "sint_item 7 = CUint 7" "sint_item 8 = CUint 8"
  by (simp_all add: sint_item_def)

lemma info_head_adds:
  "wr_adds w0 (abk_cbor_put_bytes aaguid (abk_cbor_put_int 3 (cbor_text ''hmac-secret''
     (abk_cbor_put_array 1 (abk_cbor_put_int 2 (cbor_text ''FIDO_2_0'' (abk_cbor_put_array 1
     (abk_cbor_put_int 1 (abk_cbor_put_map 7 w0)))))))))
   ((((((((([] @ cbor_head 5 7) @ cbor_enc (sint_item 1)) @ cbor_head 4 1) @ cbor_enc (ctext ''FIDO_2_0''))
     @ cbor_enc (sint_item 2)) @ cbor_head 4 1) @ cbor_enc (ctext ''hmac-secret''))
     @ cbor_enc (sint_item 3)) @ cbor_enc (CBytes aaguid))"
  by (intro wr_adds_intros) (simp_all add: nul_free_def str_bytes_def)

lemma info_options_adds:
  assumes "wr_adds w0 w bs"
  shows "wr_adds w0 (abk_cbor_put_bool False (cbor_text ''plat'' (abk_cbor_put_bool True (cbor_text ''uv''
     (abk_cbor_put_bool True (cbor_text ''up'' (abk_cbor_put_bool True (cbor_text ''rk''
     (abk_cbor_put_map 4 (abk_cbor_put_int 4 w))))))))))
   ((((((((((bs @ cbor_enc (sint_item 4)) @ cbor_head 5 4) @ cbor_enc (ctext ''rk'')) @ cbor_enc (CBool True))
     @ cbor_enc (ctext ''up'')) @ cbor_enc (CBool True)) @ cbor_enc (ctext ''uv''))
     @ cbor_enc (CBool True)) @ cbor_enc (ctext ''plat'')) @ cbor_enc (CBool False))"
  by (intro wr_adds_intros assms) (simp_all add: nul_free_def str_bytes_def)

lemma info_limits_adds:
  assumes "wr_adds w0 w bs"
  shows "wr_adds w0 (abk_cbor_put_uint 32 (abk_cbor_put_int 8 (abk_cbor_put_uint 16 (abk_cbor_put_int 7
     (abk_cbor_put_uint 2048 (abk_cbor_put_int 5 w))))))
   ((((((bs @ cbor_enc (sint_item 5)) @ cbor_enc (CUint 2048)) @ cbor_enc (sint_item 7))
     @ cbor_enc (CUint 16)) @ cbor_enc (sint_item 8)) @ cbor_enc (CUint 32))"
  by (intro wr_adds_intros assms)


lemma encode_info_reply:
  assumes "length payload = 1536" "length aaguid = 16"
  shows "encode_info payload aaguid = Inr (cbor_enc (info_item aaguid))"
proof -
  let ?w0 = "abk_cbor_writer_init payload ABK_FIDO_MAX_CBOR"
  note adds = info_limits_adds [OF info_options_adds [OF info_head_adds [of ?w0 aaguid]]]
  have "wr_adds ?w0 w (cbor_enc (info_item aaguid)) \<longrightarrow> payload_result w = Inr (cbor_enc (info_item aaguid))" for w
  proof
    assume "wr_adds ?w0 w (cbor_enc (info_item aaguid))"
    moreover have "length (cbor_enc (info_item aaguid)) \<le> 1536"
      using assms(2) by (simp add: info_item_def cbor_head_def)
    ultimately show "payload_result w = Inr (cbor_enc (info_item aaguid))"
      using payload_written assms(1) by (simp add: ABK_FIDO_MAX_CBOR_def)
  qed
  with adds show ?thesis
    by (simp add: encode_info_def Let_def info_item_def sint_item_small sint_item_5 sint_item_8
        ABK_FIDO_MAX_MSG_def ABK_FIDO_MAX_CRED_LIST_ADVERTISED_def ABK_FIDO_MAX_CRED_LIST_def
        ABK_FIDO_MAX_CREDS_def)
qed

text \<open>Sizes of what the library returns, as its documentation fixes them.\<close>

definition klib_sizes :: "klib \<Rightarrow> bool" where
  "klib_sizes K \<longleftrightarrow> (\<forall>n. length (kl_stack K n) = n)
     \<and> (\<forall>alg key data h. kl_shash_digest K alg key data = Inr h \<longrightarrow> length h = 32)
     \<and> (\<forall>n k. kl_ecc_gen_privkey K n = Inr k \<longrightarrow> length k = 4)
     \<and> (\<forall>k p. kl_ecc_make_pub_key K k = Inr p \<longrightarrow> length k = 4 \<longrightarrow> length p = 8)
     \<and> (\<forall>enc key iv bs out. kl_cbc_aes K enc key iv bs = Inr out \<longrightarrow> length out = length bs)"

lemma sample_klib_sizes: "klib_sizes sample_klib"
  by (auto simp: klib_sizes_def sample_klib_def)

lemma stack_length: "klib_sizes K \<Longrightarrow> length (kl_stack K n) = n"
  by (simp add: klib_sizes_def)

lemma sha256_length: "klib_sizes K \<Longrightarrow> abk_fido_sha256 K data = Inr h \<Longrightarrow> length h = 32"
  by (auto simp: klib_sizes_def abk_fido_sha256_def abk_fido_shash_digest_def
      split: option.splits if_splits)

lemma load_never_fails: "fst (abk_fido_load_store_locked K E f d) = None"
  by (auto simp: abk_fido_load_store_locked_def abk_fido_init_new_store_locked_def Let_def
      split: option.splits prod.splits)

text \<open>
  C20. getInfo always answers, and its payload is the canonical encoding of the expected map:
  version \<open>FIDO_2_0\<close> only, the \<open>hmac-secret\<close> extension, the store's AAGUID, options \<open>rk\<close>, \<open>up\<close>
  and \<open>uv\<close> set and \<open>plat\<close> clear (no \<open>clientPin\<close>), message size 2048, 16 credentials per list
  of 32 bytes.  It fills well under the 1536 bytes of the payload array.
\<close>

theorem get_info_reply:
  assumes "klib_sizes K" "length (st_aaguid (dv_store (snd (abk_fido_load_store_locked K E f d)))) = 16"
  shows "abk_fido_get_info_resp K E f d =
    (Inr (cbor_enc (info_item (st_aaguid (dv_store (snd (abk_fido_load_store_locked K E f d)))))), f,
     snd (abk_fido_load_store_locked K E f d))"
proof -
  obtain d' where d': "abk_fido_load_store_locked K E f d = (None, d')"
    using load_never_fails by (metis prod.collapse)
  with encode_info_reply [OF stack_length [OF assms(1)], of "st_aaguid (dv_store d')"] assms(2)
  show ?thesis by (simp add: abk_fido_get_info_resp_def ABK_FIDO_MAX_CBOR_def)
qed

theorem get_info_reply_witness:
  "fst (abk_fido_get_info_resp sample_klib sample_env None
      (abk_fido_dev_initial\<lparr>dv_store_loaded := True\<rparr>)) = Inr (cbor_enc (info_item (replicate 16 0)))"
proof -
  let ?d = "abk_fido_dev_initial\<lparr>dv_store_loaded := True\<rparr>"
  have "abk_fido_load_store_locked sample_klib sample_env None ?d = (None, ?d)"
    by (simp add: abk_fido_load_store_locked_def)
  moreover have "st_aaguid (dv_store ?d) = replicate 16 0"
    by (simp add: abk_fido_dev_initial_def zero_store_def)
  ultimately show ?thesis
    using get_info_reply [OF sample_klib_sizes, of sample_env None ?d] by simp
qed

end
