(* ===== verification/Ctap_Creation.thy ===== *)
theory Ctap_Creation
  imports Ctap_Safety Ctap_Replies
begin

unbundle bit_operations_syntax

section \<open>Creating a credential\<close>

text \<open>
  What makeCredential leaves in the store and what its reply attests.  \<open>registration\<close> is the
  contract of a new credential; the theorem says the command either fulfils it in the first
  free slot or leaves every credential as it was.
\<close>

subsection \<open>The credential\<close>

definition env_sizes :: "kenv \<Rightarrow> bool" where
  "env_sizes E \<longleftrightarrow> (\<forall>name n. length (env_random E name n) = n)"

lemma sample_env_sizes: "env_sizes sample_env"
  by (simp add: env_sizes_def sample_env_def)

lemma length_digits_bytes [simp]: "length (digits_bytes ds) = 8 * length ds"
  by (induction ds) (simp_all add: digits_bytes_def)

lemma cred_ok_fill:
  assumes "env_sizes E" "mk_req_ok req"
  shows "cred_ok (fill_credential E req)"
proof -
  have "unat (mk_user_id_len req) \<le> 64" using assms(2) by (simp add: mk_req_ok_def word_le_nat_alt)
  with assms show ?thesis
    by (simp add: fill_credential_def cred_ok_def zero_credential_def store_consts env_sizes_def
        mk_req_ok_def Let_def has_nul_strscpy)
qed

text \<open>What the request determines of the slot.\<close>

definition names_of_request :: "abk_fido_make_cred_req \<Rightarrow> abk_fido_credential \<Rightarrow> bool" where
  "names_of_request req cred \<longleftrightarrow> cr_in_use cred \<and> cr_resident cred = mk_rk req
     \<and> cstr (cr_rp_id cred) = cstr (mk_rp_id req)
     \<and> take (unat (cr_user_id_len cred)) (cr_user_id cred)
         = take (unat (mk_user_id_len req)) (mk_user_id req)
     \<and> cstr (cr_user_name cred) = (if cstr (mk_user_name req) = [] then str_bytes ''abk-user'' else cstr (mk_user_name req))
     \<and> cstr (cr_user_display cred) = (if cstr (mk_user_display req) = [] then cstr (cr_user_name cred)
         else cstr (mk_user_display req))"

lemma cstr_empty: "a \<noteq> [] \<Longrightarrow> (cstr a = []) = (a ! 0 = 0)"
  by (cases a) (auto simp: cstr_def)

lemma names_fill:
  assumes "mk_req_ok req"
  shows "names_of_request req (fill_credential E req)"
proof -
  have len: "unat (mk_user_id_len req) \<le> 64" "length (mk_user_id req) = 64"
    "length (mk_user_name req) = 64" "length (mk_user_display req) = 64" "length (mk_rp_id req) = 128"
    using assms by (simp_all add: mk_req_ok_def word_le_nat_alt)
  have nul: "length (cstr (mk_rp_id req)) < 128" "length (cstr (mk_user_name req)) < 64"
    "length (cstr (mk_user_display req)) < 64"
    using assms length_cstr_less by (fastforce simp: mk_req_ok_def)+
  have ne: "mk_user_name req \<noteq> []" "mk_user_display req \<noteq> []" using len by auto
  let ?un = "if mk_user_name req ! 0 \<noteq> 0 then mk_user_name req else str_bytes ''abk-user''"
  have abk: "cstr (str_bytes ''abk-user'') = str_bytes ''abk-user''"
    by (rule cstr_str_bytes) (simp add: nul_free_def str_bytes_def)
  have un: "length (cstr ?un) < 64" using nul(2) abk by simp
  have name: "cstr (cr_user_name (fill_credential E req)) = cstr ?un"
    using un by (simp add: fill_credential_def Let_def zero_credential_def store_consts cstr_strscpy)
  have disp: "cstr (cr_user_display (fill_credential E req))
      = (if mk_user_display req ! 0 \<noteq> 0 then cstr (mk_user_display req) else cstr ?un)"
    using nul(3) un by (simp add: fill_credential_def Let_def zero_credential_def store_consts cstr_strscpy)
  have user: "cr_user_id_len (fill_credential E req) = mk_user_id_len req"
    "take (unat (mk_user_id_len req)) (cr_user_id (fill_credential E req))
      = take (unat (mk_user_id_len req)) (mk_user_id req)"
    using len by (simp_all add: fill_credential_def Let_def overwrite_def min_absorb2)
  show ?thesis
    unfolding names_of_request_def name disp user cstr_empty [OF ne(1)] cstr_empty [OF ne(2)]
    using nul(1) abk by (simp add: fill_credential_def Let_def store_consts cstr_strscpy)
qed

text \<open>The key pair only adds the keys, and the secret when it was asked for.\<close>

lemma make_key_pair_fields:
  assumes "make_key_pair K E hmac cred = Inr cred'" "klib_sizes K" "env_sizes E" "cred_ok cred"
  shows "cred_ok cred' \<and> (names_of_request req cred \<longrightarrow> names_of_request req cred')
    \<and> cr_cred_id cred' = cr_cred_id cred
    \<and> cr_hmac_secret cred' = (if hmac then env_random E ''hmac_secret'' 32 else cr_hmac_secret cred)
    \<and> (\<exists>priv pub. kl_ecc_gen_privkey K KEY_DRAW = Inr priv \<and> kl_ecc_make_pub_key K priv = Inr pub
        \<and> cr_priv_key cred' = digits_bytes priv \<and> cr_pub_key cred' = digits_bytes pub)"
proof -
  obtain priv pub where k: "kl_ecc_gen_privkey K KEY_DRAW = Inr priv" "kl_ecc_make_pub_key K priv = Inr pub"
    using assms(1) by (auto simp: make_key_pair_def Let_def split: sum.splits)
  then have l: "length priv = 4" "length pub = 8" using assms(2) by (auto simp: klib_sizes_def)
  have "cred' = (if hmac then cred\<lparr>cr_priv_key := digits_bytes priv, cr_pub_key := digits_bytes pub,
        cr_hmac_secret := env_random E ''hmac_secret'' 32\<rparr>
      else cred\<lparr>cr_priv_key := digits_bytes priv, cr_pub_key := digits_bytes pub\<rparr>)"
    using assms(1) k l by (auto simp: make_key_pair_def abk_fido_p256_scalar_to_bytes_def
        abk_fido_p256_pub_to_bytes_def store_consts)
  with k l assms(3,4) show ?thesis
    by (auto simp: cred_ok_def names_of_request_def env_sizes_def)
qed

subsection \<open>The attestation\<close>

text \<open>The 32 bytes in front of all authenticator data.\<close>

definition rp_hash :: "klib \<Rightarrow> u8 list \<Rightarrow> u8 list" where
  "rp_hash K rp_id = (case abk_fido_sha256 K (cstr rp_id) of Inr hash \<Rightarrow> hash | Inl _ \<Rightarrow> kl_stack K 32)"

lemma authdata_common: "abk_fido_authdata_common K rp flags n = rp_hash K rp @ [flags] @ be32_bytes n"
  by (simp add: abk_fido_authdata_common_def rp_hash_def SHA256_DIGEST_SIZE_def split: sum.split)

lemma length_rp_hash: "klib_sizes K \<Longrightarrow> length (rp_hash K rp) = 32"
  by (auto simp: rp_hash_def stack_length sha256_length split: sum.splits)

definition hmac_true_item :: cbor where
  "hmac_true_item = CMap [(ctext ''hmac-secret'', CBool True)]"

text \<open>What the platform gets to see of a new credential, and what is signed.\<close>

definition attested_auth_data :: "klib \<Rightarrow> abk_fido_store \<Rightarrow> abk_fido_credential \<Rightarrow> bool \<Rightarrow> u8 list" where
  "attested_auth_data K store cred hmac =
     rp_hash K (cr_rp_id cred) @ [0x45] @ be32_bytes (st_sign_count store)
     @ st_aaguid store @ [0, 32] @ cr_cred_id cred
     @ cbor_enc (cose_item (cr_pub_key cred) ABK_FIDO_COSE_ALG_ES256)
     @ (if hmac then cbor_enc hmac_true_item else [])"

lemma length_attested_auth_data:
  assumes "klib_sizes K" "cred_ok cred" "length (st_aaguid store) = 16"
  shows "length (attested_auth_data K store cred hmac) = (if hmac then 178 else 164)"
  using assms length_rp_hash [OF assms(1)] length_cose_item(2) [of "cr_pub_key cred"]
  by (simp add: attested_auth_data_def cred_ok_def hmac_true_item_def cbor_head_def)

lemma authdata_attested:
  assumes "klib_sizes K" "cred_ok cred"
  shows "abk_fido_make_authdata_attested K store cred (ABK_FIDO_CRED_FLAG_UP OR ABK_FIDO_CRED_FLAG_UV) n
    = Inr (attested_auth_data K (store\<lparr>st_sign_count := n\<rparr>) cred False)"
proof -
  have pub: "length (cr_pub_key cred) = 64" and cid: "length (cr_cred_id cred) = 32"
    using assms(2) by (simp_all add: cred_ok_def)
  have len: "length (cbor_enc (cose_item (cr_pub_key cred) ABK_FIDO_COSE_ALG_ES256)) = 77"
    using length_cose_item(2) pub by blast
  from encode_cose_key_built [OF pub, of 128 "kl_stack K 128" ABK_FIDO_COSE_ALG_ES256]
    len stack_length [OF assms(1)]
  obtain buf where "abk_fido_encode_cose_key (cr_pub_key cred) ABK_FIDO_COSE_ALG_ES256 (kl_stack K 128)
      = (None, buf, 77)"
    and "take 77 buf = cbor_enc (cose_item (cr_pub_key cred) ABK_FIDO_COSE_ALG_ES256)" by auto
  with cid show ?thesis
    by (simp add: abk_fido_make_authdata_attested_def authdata_common attested_auth_data_def
        ABK_FIDO_CRED_FLAG_UP_def ABK_FIDO_CRED_FLAG_UV_def ABK_FIDO_CRED_FLAG_AT_def be_bytes_numeral)
qed

lemma extension_appended:
  assumes "klib_sizes K" "length auth_data + 16 + length bs \<le> sz"
    "\<And>w0 w bs0. wr_adds w0 w bs0 \<Longrightarrow> wr_adds w0 (put w) (bs0 @ bs)"
  shows "append_extension K sz put auth_data
    = Inr (auth_data @ cbor_head 5 1 @ cbor_enc (ctext ''hmac-secret'') @ bs)"
proof -
  let ?w0 = "abk_cbor_writer_init (drop (length auth_data) (kl_stack K sz)) (sz - length auth_data)"
  have "wr_adds ?w0 (cbor_text ''hmac-secret'' (abk_cbor_put_map 1 ?w0))
      (([] @ cbor_head 5 1) @ cbor_enc (ctext ''hmac-secret''))"
    by (intro wr_adds_intros) (simp_all add: nul_free_def str_bytes_def)
  from payload_written [OF assms(3) [OF this]] assms(2) stack_length [OF assms(1), of sz]
  show ?thesis by (simp add: append_extension_def Let_def cbor_head_def)
qed

lemma attested_extension:
  assumes "klib_sizes K" "cred_ok cred" "length (st_aaguid store) = 16"
  shows "append_extension K 512 (abk_cbor_put_bool True) (attested_auth_data K store cred False)
    = Inr (attested_auth_data K store cred True)"
proof -
  have room: "length (attested_auth_data K store cred False) + 16 + length (cbor_enc (CBool True)) \<le> 512"
    using length_attested_auth_data [OF assms, of False] by (simp add: cbor_head_def)
  have put: "wr_adds w0 (abk_cbor_put_bool True w) (bs0 @ cbor_enc (CBool True))"
    if "wr_adds w0 w bs0" for w0 w bs0 using that by (rule wr_adds_calls(3))
  from extension_appended [OF assms(1) room put] show ?thesis
    by (simp add: attested_auth_data_def hmac_true_item_def)
qed

text \<open>
  The contract of a new credential and of its reply: the credential carries the names of the
  request, fresh key material and, if asked for, a fresh secret; the reply is the attestation
  map over authenticator data with the flags UP, UV and AT, signed with the new private key
  together with the client's hash.
\<close>

definition registration ::
    "klib \<Rightarrow> kenv \<Rightarrow> abk_fido_store \<Rightarrow> abk_fido_make_cred_req \<Rightarrow> abk_fido_credential \<Rightarrow> u8 list \<Rightarrow> bool" where
  "registration K E store req cred payload \<longleftrightarrow>
     cred_ok cred \<and> names_of_request req cred \<and> cr_cred_id cred = env_random E ''cred_id'' 32
     \<and> cr_hmac_secret cred = (if mk_hmac_secret_requested req then env_random E ''hmac_secret'' 32
         else replicate 32 0)
     \<and> (\<exists>priv pub sig. kl_ecc_gen_privkey K KEY_DRAW = Inr priv \<and> kl_ecc_make_pub_key K priv = Inr pub
          \<and> cr_priv_key cred = digits_bytes priv \<and> cr_pub_key cred = digits_bytes pub
          \<and> sign_auth_data K (cr_priv_key cred)
              (attested_auth_data K store cred (mk_hmac_secret_requested req)) (mk_client_data_hash req) = Inr sig
          \<and> payload = cbor_enc (attestation_item
              (attested_auth_data K store cred (mk_hmac_secret_requested req)) sig))"

lemma sign_length: "sign_auth_data K priv auth_data hash = Inr sig \<Longrightarrow> length sig \<le> 80"
  using signature_length by (fastforce simp: sign_auth_data_def split: sum.splits)

lemma attest_registers:
  assumes "attest_credential K E req store = Inr (cred, payload)"
    "klib_sizes K" "env_sizes E" "mk_req_ok req" "length (st_aaguid store) = 16"
  shows "registration K E store req cred payload"
proof -
  let ?hm = "mk_hmac_secret_requested req"
  let ?auth = "\<lambda>c. attested_auth_data K store c ?hm"
  have fill: "cred_ok (fill_credential E req)" "names_of_request req (fill_credential E req)"
    using cred_ok_fill [OF assms(3,4)] names_fill [OF assms(4)] by blast+
  have secret: "cr_hmac_secret (fill_credential E req) = replicate 32 0"
    "cr_cred_id (fill_credential E req) = env_random E ''cred_id'' 32"
    by (simp_all add: fill_credential_def Let_def zero_credential_def store_consts)
  obtain c where kp: "make_key_pair K E ?hm (fill_credential E req) = Inr c"
    using assms(1) by (auto simp: attest_credential_def split: sum.splits)
  note fields = make_key_pair_fields [OF kp assms(2,3) fill(1), of req]
  then have c: "cred_ok c" by blast
  have auth: "(case abk_fido_make_authdata_attested K store c
        (ABK_FIDO_CRED_FLAG_UP OR ABK_FIDO_CRED_FLAG_UV) (st_sign_count store) of
      Inl e \<Rightarrow> Inl e
    | Inr a \<Rightarrow> (if ?hm then append_extension K 512 (abk_cbor_put_bool True) a else Inr a)) = Inr (?auth c)"
    using authdata_attested [OF assms(2) c] attested_extension [OF assms(2) c assms(5)] by simp
  then obtain a where "abk_fido_make_authdata_attested K store c
        (ABK_FIDO_CRED_FLAG_UP OR ABK_FIDO_CRED_FLAG_UV) (st_sign_count store) = Inr a"
    "(if ?hm then append_extension K 512 (abk_cbor_put_bool True) a else Inr a) = Inr (?auth c)"
    by (auto split: sum.splits)
  with assms(1) kp obtain sig where sig: "sign_auth_data K (cr_priv_key c) (?auth c) (mk_client_data_hash req) = Inr sig"
    and enc: "encode_attestation (kl_stack K ABK_FIDO_MAX_CBOR) (?auth c) sig = Inr payload" and cred: "cred = c"
    by (auto simp: attest_credential_def split: sum.splits)
  have "payload = cbor_enc (attestation_item (?auth c) sig)"
    using enc encode_attestation_reply [OF stack_length [OF assms(2)] _ sign_length [OF sig], of "?auth c"]
      length_attested_auth_data [OF assms(2) c assms(5), of ?hm]
    by (simp add: ABK_FIDO_MAX_CBOR_def)
  with fields fill(2) secret sig cred show ?thesis by (auto simp: registration_def)
qed


subsection \<open>The command\<close>

text \<open>The credentials as a client can see them: a slot not in use holds nothing.\<close>

definition live_creds :: "abk_fido_store \<Rightarrow> abk_fido_credential option list" where
  "live_creds s = map (\<lambda>c. if cr_in_use c then Some c else None) (st_creds s)"

lemma find_first:
  "find P [0..<n] = Some i \<Longrightarrow> i < n \<and> P i \<and> (\<forall>j<i. \<not> P j)"
  by (auto simp: find_Some_iff)

lemma alloc_slot:
  assumes "abk_fido_alloc_credential_locked store = Inr slot"
  shows "slot < 32 \<and> \<not> cr_in_use (st_creds store ! slot) \<and> (\<forall>i < slot. cr_in_use (st_creds store ! i))"
  using assms find_first
  by (fastforce simp: abk_fido_alloc_credential_locked_def ABK_FIDO_MAX_CREDS_def split: option.splits)

lemma alloc_full:
  "abk_fido_alloc_credential_locked store = Inl e \<Longrightarrow>
     e = ENOSPC \<and> (\<forall>i<32. cr_in_use (st_creds store ! i))"
  by (auto simp: abk_fido_alloc_credential_locked_def ABK_FIDO_MAX_CREDS_def find_None_iff
      split: option.splits)

lemma live_creds_revert:
  assumes "\<not> cr_in_use (st_creds s ! slot)"
  shows "live_creds (s\<lparr>st_creds := (st_creds s)[slot := zero_credential]\<rparr>) = live_creds s"
proof -
  let ?f = "\<lambda>c. if cr_in_use c then Some c else None"
  have "?f zero_credential = None" by (simp add: zero_credential_def)
  then have "live_creds (s\<lparr>st_creds := (st_creds s)[slot := zero_credential]\<rparr>) = (live_creds s)[slot := None]"
    by (simp add: live_creds_def map_update)
  also have "\<dots> = live_creds s"
    using assms by (cases "slot < length (st_creds s)") (simp_all add: live_creds_def list_update_same_conv list_update_beyond)
  finally show ?thesis .
qed

text \<open>What the whole step after the approval may do; \<open>creation_outcome\<close> names it.\<close>

definition creation_outcome ::
    "klib \<Rightarrow> kenv \<Rightarrow> abk_fido_make_cred_req \<Rightarrow> abk_fido_store \<Rightarrow> reply \<Rightarrow> abk_fido_store \<Rightarrow> bool" where
  "creation_outcome K E req s r s' =
     (case r of
        Inl e \<Rightarrow> live_creds s' = live_creds s \<and> st_sign_count s' = st_sign_count s
          \<and> (mk_excluded req s \<longrightarrow> e = EEXIST)
          \<and> (\<not> mk_excluded req s \<and> (\<forall>i<32. cr_in_use (st_creds s ! i)) \<longrightarrow> e = ENOSPC)
      | Inr payload \<Rightarrow> \<not> mk_excluded req s
          \<and> (\<exists>slot cred. slot < 32 \<and> \<not> cr_in_use (st_creds s ! slot)
              \<and> (\<forall>i < slot. cr_in_use (st_creds s ! i))
              \<and> s' = s\<lparr>st_creds := (st_creds s)[slot := cred]\<rparr>
              \<and> registration K E s req cred payload))"

lemma set_slot_store [simp]:
  "dv_store (set_slot slot cred d) = (dv_store d)\<lparr>st_creds := (st_creds (dv_store d))[slot := cred]\<rparr>"
  by (simp add: set_slot_def)

lemma mk_create_outcome:
  assumes "mk_create K E req f d = (r, f', d')"
    "klib_sizes K" "env_sizes E" "mk_req_ok req" "store_ok (dv_store d)"
  shows "creation_outcome K E req (dv_store d) r (dv_store d')"
proof (cases "mk_excluded req (dv_store d)")
  case True
  with assms(1) show ?thesis by (auto simp: mk_create_def creation_outcome_def)
next
  case False
  note notex = False
  show ?thesis
  proof (cases "abk_fido_alloc_credential_locked (dv_store d)")
    case (Inl e)
    with assms(1) notex alloc_full [OF Inl] show ?thesis
      by (auto simp: mk_create_def creation_outcome_def)
  next
    case (Inr slot)
    note slot = alloc_slot [OF Inr]
    then have room: "\<not> (\<forall>i<32. cr_in_use (st_creds (dv_store d) ! i))" by auto
    show ?thesis
    proof (cases "attest_credential K E req (dv_store d)")
      case (Inl e)
      with assms(1) notex Inr room slot live_creds_revert show ?thesis
        by (auto simp: mk_create_def creation_outcome_def)
    next
      case (Inr cp)
      obtain cred payload where cp: "cp = (cred, payload)" by fastforce
      have aaguid: "length (st_aaguid (dv_store d)) = 16" using assms(5) by (simp add: store_ok_def)
      have reg: "registration K E (dv_store d) req cred payload"
        using attest_registers [OF _ assms(2,3,4) aaguid] Inr cp by blast
      have "commit_and_persist K E payload f (set_slot slot cred d) = (r, f', d')"
        using assms(1) notex Inr cp \<open>abk_fido_alloc_credential_locked (dv_store d) = Inr slot\<close>
        by (simp add: mk_create_def)
      note commit = commit_frame [OF this]
      show ?thesis
        unfolding creation_outcome_def commit(1,2) using notex slot reg by auto
    qed
  qed
qed

text \<open>
  C3. After the approval makeCredential either registers a credential or changes none.  On
  success no excluded credential was present, the first free slot holds a credential with the
  names of the request, the fresh identifier and the fresh key pair, every other slot and the
  counter are untouched, and the reply is the attestation over exactly that credential, signed
  with its own key.  On an error (whichever of the library calls failed) the usable
  credentials and the counter are those from before; an excluded credential gives \<open>-EEXIST\<close> and
  a full store \<open>-ENOSPC\<close>.
\<close>

theorem make_credential_outcome:
  assumes "\<not> abk_fido_is_selection_make_credential req" "\<not> mk_pin_auth_present req"
    "\<not> mk_up_disabled req" "abk_fido_load_store_locked K E f d = (None, d0)"
    "ctap_approve E W ABK_FIDO_CTAP_MAKE_CREDENTIAL (mk_rp_id req) (mk_uv req) (mk_rk req) f
       (abk_fido_set_last_trace_locked (mk_trace req) d0) = (None, E1, f1, d1)"
    "klib_sizes K" "env_sizes E1" "mk_req_ok req" "store_ok (dv_store d1)"
    "abk_fido_make_credential_resp K E W req f d = (r, f', d')"
  shows "creation_outcome K E1 req (dv_store d1) r (dv_store d')"
proof -
  have "mk_create K E1 req f1 d1 = (r, f', d')"
    using assms(1-5,10) by (simp add: abk_fido_make_credential_resp_def)
  from mk_create_outcome [OF this assms(6-9)] show ?thesis .
qed


text \<open>A loaded device inside its grant window, for examples.\<close>

definition granted_device :: abk_fido_device where
  "granted_device = abk_fido_dev_initial\<lparr>dv_store_loaded := True, dv_auth_cache_valid := True,
     dv_auth_cache_expires := 2000\<rparr>"

lemma granted_device_simps [simp]:
  "dv_store granted_device = zero_store" "dv_store_loaded granted_device"
  "in_grant sample_env granted_device" "\<not> in_cooldown sample_env granted_device"
  by (simp_all add: granted_device_def abk_fido_dev_initial_def in_grant_def in_cooldown_def
      time_before_def sample_env_def)

lemma approve_in_grant:
  assumes "in_grant E d" "\<not> in_cooldown E d"
  shows "\<exists>d'. ctap_approve E W cmd rp uv rk f d = (None, E, f, d') \<and> dv_store d' = dv_store d
    \<and> d' = snd (auth_check E cmd rp d)"
  using assms auth_begin_early [of E d "oth_wait W" cmd rp uv rk] auth_check_cases [of E cmd rp d]
  by (simp add: ctap_approve_def)

theorem make_credential_outcome_witness:
  "\<exists>r f' d'. abk_fido_make_credential_resp sample_klib sample_env
      \<lparr>oth_wait = (\<lambda>d. (0, 5000, d)), oth_file = (\<lambda>f. f)\<rparr> zero_make_cred_req None granted_device = (r, f', d')
    \<and> creation_outcome sample_klib sample_env zero_make_cred_req zero_store r (dv_store d')"
proof -
  let ?W = "\<lparr>oth_wait = (\<lambda>d. (0, 5000, d)), oth_file = (\<lambda>f. f)\<rparr>"
  let ?req = zero_make_cred_req
  let ?dt = "abk_fido_set_last_trace_locked (mk_trace ?req) granted_device"
  have "cstr (mk_rp_id ?req) = []" by (simp add: zero_make_cred_req_def cstr_def store_consts)
  then have flags: "\<not> abk_fido_is_selection_make_credential ?req" "\<not> mk_pin_auth_present ?req"
    "\<not> mk_up_disabled ?req"
    by (simp_all add: abk_fido_is_selection_make_credential_def str_bytes_def zero_make_cred_req_def)
  have load: "abk_fido_load_store_locked sample_klib sample_env None granted_device = (None, granted_device)"
    by (simp add: load_when_loaded)
  obtain d1 where ap: "ctap_approve sample_env ?W ABK_FIDO_CTAP_MAKE_CREDENTIAL (mk_rp_id ?req) (mk_uv ?req)
      (mk_rk ?req) None ?dt = (None, sample_env, None, d1)" "dv_store d1 = zero_store"
    using approve_in_grant [of sample_env ?dt ?W] by auto
  obtain r f' d' where run: "abk_fido_make_credential_resp sample_klib sample_env ?W ?req None granted_device
      = (r, f', d')" by (metis prod_cases3)
  have "store_ok (dv_store d1)" using ap(2) store_ok_zero by simp
  from make_credential_outcome [OF flags load ap(1) sample_klib_sizes sample_env_sizes mk_req_ok_zero this run]
  show ?thesis using run ap(2) by auto
qed

end
