(* ===== verification/Ctap_Assertions.thy ===== *)
theory Ctap_Assertions
  imports Ctap_Creation
begin

unbundle bit_operations_syntax

section \<open>Assertions\<close>

text \<open>
  What one assertion says and does to the store, the walk over several matching credentials
  with getNextAssertion, the \<open>hmac-secret\<close> output, and reset.
\<close>

subsection \<open>One assertion\<close>

definition hmac_output_item :: "u8 list \<Rightarrow> cbor" where
  "hmac_output_item output = CMap [(ctext ''hmac-secret'', CBytes output)]"

definition asserted_auth_data :: "klib \<Rightarrow> u8 list \<Rightarrow> u32 \<Rightarrow> u8 list option \<Rightarrow> u8 list" where
  "asserted_auth_data K rp_id n output = rp_hash K rp_id @ [0x05] @ be32_bytes n
     @ (case output of None \<Rightarrow> [] | Some out \<Rightarrow> cbor_enc (hmac_output_item out))"

definition output_ok :: "u8 list option \<Rightarrow> bool" where
  "output_ok output \<longleftrightarrow> (case output of None \<Rightarrow> True | Some out \<Rightarrow> length out = 64)"

lemma length_asserted_auth_data:
  "klib_sizes K \<Longrightarrow> output_ok output \<Longrightarrow> length (asserted_auth_data K rp n output) \<le> 200"
  using length_rp_hash [of K rp]
  by (auto simp: asserted_auth_data_def output_ok_def hmac_output_item_def cbor_head_def split: option.splits)

text \<open>
  The contract of a reply: the assertion map with the credential's identifier, authenticator
  data with the flags UP and UV and the given counter, and a signature with its key.
\<close>

definition assertion_reply ::
    "klib \<Rightarrow> abk_fido_credential \<Rightarrow> u8 list \<Rightarrow> u8 list \<Rightarrow> bool \<Rightarrow> nat \<Rightarrow> u8 list option \<Rightarrow> u32 \<Rightarrow> u8 list \<Rightarrow> bool" where
  "assertion_reply K cred rp_id client_data_hash include_user count output n payload \<longleftrightarrow>
     (\<exists>sig. sign_auth_data K (cr_priv_key cred) (asserted_auth_data K rp_id n output) client_data_hash = Inr sig
        \<and> payload = cbor_enc (assertion_item cred (asserted_auth_data K rp_id n output) sig include_user count))"

lemma assertion_extension:
  assumes "klib_sizes K" "length out = 64"
  shows "append_extension K 200 (abk_cbor_put_bytes out) (asserted_auth_data K rp n None)
    = Inr (asserted_auth_data K rp n (Some out))"
proof -
  have room: "length (asserted_auth_data K rp n None) + 16 + length (cbor_enc (CBytes out)) \<le> 200"
    using length_rp_hash [OF assms(1), of rp] assms(2) by (simp add: asserted_auth_data_def cbor_head_def)
  have put: "wr_adds w0 (abk_cbor_put_bytes out w) (bs0 @ cbor_enc (CBytes out))"
    if "wr_adds w0 w bs0" for w0 w bs0 using that by (rule wr_adds_calls(4))
  from extension_appended [OF assms(1) room put] show ?thesis
    by (simp add: asserted_auth_data_def hmac_output_item_def)
qed

text \<open>The payload is the reply of the contract, or the signature failed.\<close>

lemma assertion_payload_reply:
  assumes "klib_sizes K" "output_ok output" "cred_ok cred"
  shows "case assertion_payload K cred rp_id hash include_user count output n of
     Inr payload \<Rightarrow> assertion_reply K cred rp_id hash include_user count output n payload
   | Inl e \<Rightarrow> sign_auth_data K (cr_priv_key cred) (asserted_auth_data K rp_id n output) hash = Inl e"
proof -
  let ?auth = "asserted_auth_data K rp_id n output"
  have plain: "abk_fido_make_authdata_assert K rp_id (ABK_FIDO_CRED_FLAG_UP OR ABK_FIDO_CRED_FLAG_UV) n
      = asserted_auth_data K rp_id n None"
    by (simp add: abk_fido_make_authdata_assert_def authdata_common asserted_auth_data_def
        ABK_FIDO_CRED_FLAG_UP_def ABK_FIDO_CRED_FLAG_UV_def)
  have ext: "(case output of None \<Rightarrow> Inr (asserted_auth_data K rp_id n None)
      | Some out \<Rightarrow> append_extension K 200 (abk_cbor_put_bytes out) (asserted_auth_data K rp_id n None))
      = Inr ?auth"
    using assertion_extension [OF assms(1)] assms(2) by (simp add: output_ok_def split: option.splits)
  show ?thesis
  proof (cases "sign_auth_data K (cr_priv_key cred) ?auth hash")
    case (Inl e)
    then show ?thesis by (simp add: assertion_payload_def plain ext)
  next
    case (Inr sig)
    then show ?thesis
      using encode_assertion_reply [OF stack_length [OF assms(1)] assms(3)
          length_asserted_auth_data [OF assms(1,2)] sign_length [OF Inr]]
      by (auto simp: assertion_payload_def plain ext assertion_reply_def ABK_FIDO_MAX_CBOR_def)
  qed
qed

definition counted :: "abk_fido_store \<Rightarrow> abk_fido_store" where
  "counted s = s\<lparr>st_sign_count := st_sign_count s + 1\<rparr>"

lemma counted_simps [simp]:
  "st_creds (counted s) = st_creds s" "st_sign_count (counted s) = st_sign_count s + 1"
  "st_aaguid (counted s) = st_aaguid s" "store_ok (counted s) = store_ok s"
  by (simp_all add: counted_def store_ok_def)

lemma store_cred_ok: "store_ok s \<Longrightarrow> i < 32 \<Longrightarrow> cred_ok (st_creds s ! i)"
  by (simp add: store_ok_def list_all_length)

text \<open>The counter moves before anything can fail, and only it moves.\<close>

lemma encode_assertion_outcome:
  assumes "abk_fido_encode_assertion_locked K E slot rp_id hash include_user count output f d = (r, f', d')"
    "klib_sizes K" "output_ok output" "store_ok (dv_store d)" "slot < 32"
  shows "dv_store d' = counted (dv_store d) \<and> assert_view d' = assert_view d \<and> auth_view d' = auth_view d
    \<and> dv_store_loaded d' = dv_store_loaded d
    \<and> (case r of
         Inr payload \<Rightarrow> assertion_reply K (st_creds (dv_store d) ! slot) rp_id hash include_user count output
           (st_sign_count (dv_store d) + 1) payload
       | Inl e \<Rightarrow> sign_auth_data K (cr_priv_key (st_creds (dv_store d) ! slot))
           (asserted_auth_data K rp_id (st_sign_count (dv_store d) + 1) output) hash = Inl e)"
proof -
  let ?n = "st_sign_count (dv_store d) + 1"
  let ?d = "d\<lparr>dv_store := counted (dv_store d)\<rparr>"
  let ?p = "assertion_payload K (st_creds (dv_store d) ! slot) rp_id hash include_user count output ?n"
  have views: "assert_view ?d = assert_view d" "auth_view ?d = auth_view d"
    by (simp_all add: assert_view_def auth_view_def)
  note p = assertion_payload_reply [OF assms(2,3) store_cred_ok [OF assms(4,5)],
      where rp_id = rp_id and hash = hash and include_user = include_user and count = count and n = ?n]
  have run: "abk_fido_encode_assertion_locked K E slot rp_id hash include_user count output f d
      = (case ?p of Inl e \<Rightarrow> (Inl e, f, ?d) | Inr payload \<Rightarrow> commit_and_persist K E payload f ?d)"
    by (simp add: abk_fido_encode_assertion_locked_def Let_def counted_def split: sum.split)
  show ?thesis
  proof (cases ?p)
    case (Inl e)
    with p run assms(1) views show ?thesis by auto
  next
    case (Inr payload)
    with run assms(1) have "commit_and_persist K E payload f ?d = (r, f', d')" by simp
    note c = commit_frame [OF this]
    show ?thesis using p Inr unfolding c by (simp add: views)
  qed
qed

subsection \<open>hmac-secret\<close>

lemma hmac_sha256_length:
  "klib_sizes K \<Longrightarrow> abk_fido_hmac_sha256 K key data = Inr h \<Longrightarrow> length h = 32"
  by (auto simp: klib_sizes_def abk_fido_hmac_sha256_def split: option.splits if_splits)

lemma aes_length:
  "klib_sizes K \<Longrightarrow> abk_fido_aes256_cbc K key iv bs enc = Inr out \<Longrightarrow> length out = length bs"
  by (auto simp: klib_sizes_def abk_fido_aes256_cbc_def split: option.splits if_splits)

text \<open>Everything a successful \<open>hmac-secret\<close> output went through.\<close>

lemma hmac_success:
  assumes "abk_fido_hmac_get_secret_locked K cred req = (Inr out, spill)"
  shows "\<exists>shared digest salt o1 o2. abk_fido_ecdh_p256 K (cr_priv_key cred) (ga_hmac_key_agreement req) = Inr shared
    \<and> abk_fido_hmac_sha256 K shared (ga_hmac_salt_enc req) = Inr digest
    \<and> take 16 digest = ga_hmac_salt_auth req \<and> spill = drop 16 digest
    \<and> abk_fido_aes256_cbc K shared abk_fido_hmac_zero_iv (ga_hmac_salt_enc req) False = Inr salt
    \<and> abk_fido_hmac_sha256 K (cr_hmac_secret cred) (take 32 salt) = Inr o1
    \<and> abk_fido_hmac_sha256 K (cr_hmac_secret cred) (take 32 (drop 32 salt)) = Inr o2
    \<and> abk_fido_aes256_cbc K shared abk_fido_hmac_zero_iv (o1 @ o2) True = Inr out
    \<and> \<not> list_all (\<lambda>b. b = 0) (cr_hmac_secret cred)"
  using assms
  by (auto simp: abk_fido_hmac_get_secret_locked_def Let_def parse_consts split: if_splits sum.splits)

lemma hmac_output_length:
  assumes "fst (abk_fido_hmac_get_secret_locked K cred req) = Inr out" "klib_sizes K"
  shows "length out = 64"
proof -
  from assms(1) obtain spill where "abk_fido_hmac_get_secret_locked K cred req = (Inr out, spill)"
    by (metis prod.collapse)
  from hmac_success [OF this] hmac_sha256_length [OF assms(2)] aes_length [OF assms(2)]
  show ?thesis by fastforce
qed

text \<open>What AES-CBC is relied on for: decryption under the same key and vector undoes encryption.\<close>

definition cbc_inverse :: "klib \<Rightarrow> bool" where
  "cbc_inverse K \<longleftrightarrow> (\<forall>key iv bs out. length bs mod 16 = 0 \<longrightarrow> kl_cbc_aes K True key iv bs = Inr out \<longrightarrow>
     length out = length bs \<and> kl_cbc_aes K False key iv out = Inr bs)"

text \<open>
  C10. The \<open>hmac-secret\<close> output is what the platform expects: when the computation succeeds, the
  credential has a secret, the salts were authenticated under the shared secret (the first 16
  bytes of their HMAC), and decrypting the output with that shared secret gives the HMACs of
  the two decrypted salts under the credential's secret, first salt first.
\<close>

theorem hmac_secret_output:
  assumes "cbc_inverse K" "klib_sizes K"
    "abk_fido_hmac_get_secret_locked K cred req = (Inr out, spill)"
  shows "\<exists>shared salt o1 o2. abk_fido_ecdh_p256 K (cr_priv_key cred) (ga_hmac_key_agreement req) = Inr shared
    \<and> (\<exists>digest. abk_fido_hmac_sha256 K shared (ga_hmac_salt_enc req) = Inr digest
        \<and> take 16 digest = ga_hmac_salt_auth req)
    \<and> abk_fido_aes256_cbc K shared abk_fido_hmac_zero_iv (ga_hmac_salt_enc req) False = Inr salt
    \<and> abk_fido_hmac_sha256 K (cr_hmac_secret cred) (take 32 salt) = Inr o1
    \<and> abk_fido_hmac_sha256 K (cr_hmac_secret cred) (take 32 (drop 32 salt)) = Inr o2
    \<and> abk_fido_aes256_cbc K shared abk_fido_hmac_zero_iv out False = Inr (o1 @ o2)
    \<and> (\<exists>b\<in>set (cr_hmac_secret cred). b \<noteq> 0)"
proof -
  from hmac_success [OF assms(3)] obtain shared digest salt o1 o2 where
    s: "abk_fido_ecdh_p256 K (cr_priv_key cred) (ga_hmac_key_agreement req) = Inr shared"
      "abk_fido_hmac_sha256 K shared (ga_hmac_salt_enc req) = Inr digest" "take 16 digest = ga_hmac_salt_auth req"
      "abk_fido_aes256_cbc K shared abk_fido_hmac_zero_iv (ga_hmac_salt_enc req) False = Inr salt"
      "abk_fido_hmac_sha256 K (cr_hmac_secret cred) (take 32 salt) = Inr o1"
      "abk_fido_hmac_sha256 K (cr_hmac_secret cred) (take 32 (drop 32 salt)) = Inr o2"
    and enc: "abk_fido_aes256_cbc K shared abk_fido_hmac_zero_iv (o1 @ o2) True = Inr out"
    and sec: "\<not> list_all (\<lambda>b. b = 0) (cr_hmac_secret cred)" by blast
  have "length (o1 @ o2) = 64" using hmac_sha256_length [OF assms(2)] s(5,6) by fastforce
  with enc have k: "kl_alloc_tfm K ''cbc(aes)'' = None" "kl_mem_ok K" "kl_skcipher_setkey K shared = None"
    "kl_cbc_aes K True shared abk_fido_hmac_zero_iv (o1 @ o2) = Inr out"
    by (auto simp: abk_fido_aes256_cbc_def split: if_splits option.splits)
  have "length (o1 @ o2) mod 16 = 0" using \<open>length (o1 @ o2) = 64\<close> by simp
  with assms(1) k(4) have "length out = 64" "kl_cbc_aes K False shared abk_fido_hmac_zero_iv out = Inr (o1 @ o2)"
    unfolding cbc_inverse_def using \<open>length (o1 @ o2) = 64\<close> by metis+
  with k have "abk_fido_aes256_cbc K shared abk_fido_hmac_zero_iv out False = Inr (o1 @ o2)"
    by (simp add: abk_fido_aes256_cbc_def AES_BLOCK_SIZE_def)
  with s sec show ?thesis by (fastforce simp: list_all_iff)
qed



lemma sample_cbc_inverse: "cbc_inverse sample_klib"
  by (simp add: cbc_inverse_def sample_klib_def)

lemma sample_hmac_run:
  "abk_fido_hmac_get_secret_locked sample_klib (zero_credential\<lparr>cr_hmac_secret := replicate 32 1\<rparr>)
     zero_get_assert_req = (Inr (replicate 64 1), replicate 16 0)"
  by (simp add: abk_fido_hmac_get_secret_locked_def abk_fido_ecdh_p256_def abk_fido_kpp_run_sync_def
      abk_fido_sha256_def abk_fido_shash_digest_def abk_fido_hmac_sha256_def abk_fido_aes256_cbc_def
      sample_klib_def zero_get_assert_req_def parse_consts AES_BLOCK_SIZE_def Let_def list_all_iff
      flip: replicate_add)

theorem hmac_secret_output_witness:
  "abk_fido_aes256_cbc sample_klib (replicate 32 0) abk_fido_hmac_zero_iv (replicate 64 1) False
     = Inr (replicate 32 1 @ replicate 32 1)"
proof -
  have "abk_fido_ecdh_p256 sample_klib (cr_priv_key (zero_credential\<lparr>cr_hmac_secret := replicate 32 1\<rparr>))
      (ga_hmac_key_agreement zero_get_assert_req) = Inr (replicate 32 0)"
    by (simp add: abk_fido_ecdh_p256_def abk_fido_kpp_run_sync_def abk_fido_sha256_def
        abk_fido_shash_digest_def sample_klib_def zero_get_assert_req_def)
  moreover have "abk_fido_hmac_sha256 sample_klib (replicate 32 1) bs = Inr (replicate 32 1)" for bs
    by (simp add: abk_fido_hmac_sha256_def sample_klib_def)
  ultimately show ?thesis
    using hmac_secret_output [OF sample_cbc_inverse sample_klib_sizes sample_hmac_run] by auto
qed


subsection \<open>getAssertion\<close>

text \<open>The others keep the store well formed while a prompt is up.\<close>

definition others_ok :: "others \<Rightarrow> bool" where
  "others_ok W \<longleftrightarrow> (\<forall>d. store_ok (dv_store d) \<longrightarrow> store_ok (dv_store (snd (snd (oth_wait W d)))))"

lemma auth_begin_store_ok:
  assumes "others_ok W" "store_ok (dv_store d)"
    "ctap_approve E W cmd rp uv rk f d = (ret, E', f', d')"
  shows "store_ok (dv_store d')"
proof (cases "in_cooldown E d \<or> in_grant E d")
  case True
  then show ?thesis using assms auth_begin_early [OF True, of "oth_wait W" cmd rp uv rk]
    by (auto simp: ctap_approve_def)
next
  case False
  then have f: "\<not> in_cooldown E d" "\<not> in_grant E d" by simp_all
  obtain w now d1 where w: "oth_wait W (auth_posted E cmd rp uv rk d) = (w, now, d1)"
    by (metis prod_cases3)
  have "store_ok (dv_store (auth_posted E cmd rp uv rk d))" using assms(2) by (simp add: auth_posted_def)
  with assms(1) w have "store_ok (dv_store d1)" unfolding others_ok_def by (metis snd_conv)
  moreover obtain ret' d2 where c: "auth_conclude (E\<lparr>env_now := now\<rparr>) cmd (dv_auth_request_id d + 1) w d1 = (ret', d2)"
    by fastforce
  then have "dv_store d2 = dv_store d1"
    using auth_conclude_simps(2) [of "E\<lparr>env_now := now\<rparr>" cmd "dv_auth_request_id d + 1" w d1] by simp
  ultimately show ?thesis
    using assms(3) auth_begin_prompt [OF f, of "oth_wait W" cmd rp uv rk w now d1] w c
    by (simp add: ctap_approve_def)
qed

lemma collect_bound: "i \<in> set (abk_fido_collect_rp_credentials_locked req n store) \<Longrightarrow> i < 32"
  by (auto simp: collect_eq dest: in_set_takeD)


lemma begin_continuation_simps [simp]:
  "dv_store (begin_continuation E req slots d) = dv_store d"
  "auth_view (begin_continuation E req slots d) = auth_view d"
  "dv_store_loaded (begin_continuation E req slots d) = dv_store_loaded d"
  by (simp_all add: begin_continuation_def auth_view_def abk_fido_set_last_trace_locked_def)

text \<open>The answer that follows an approval.\<close>

lemma ga_answer_outcome:
  assumes "ga_answer K E req slots f d = (Inr payload, f', d')"
    "klib_sizes K" "store_ok (dv_store d)" "slots \<noteq> []" "slots ! 0 < 32"
  shows "\<exists>hout d1. (hout = None \<longleftrightarrow> \<not> ga_hmac_secret_requested req)
    \<and> assertion_reply K (st_creds (dv_store d) ! (slots ! 0)) (ga_rp_id req) (ga_client_data_hash req)
        (ga_allow_count req = 0 \<or> length slots > 1 \<or> cr_resident (st_creds (dv_store d) ! (slots ! 0)))
        (length slots) hout (st_sign_count (dv_store d) + 1) payload
    \<and> dv_store d1 = counted (dv_store d) \<and> auth_view d1 = auth_view d \<and> assert_view d1 = assert_view d
    \<and> d' = (if length slots > 1 then begin_continuation E req slots d1 else d1)"
proof -
  let ?cred = "st_creds (dv_store d) ! (slots ! 0)"
  let ?user = "ga_allow_count req = 0 \<or> length slots > 1 \<or> cr_resident ?cred"
  obtain hout where out: "(if ga_hmac_secret_requested req
      then map_sum id Some (fst (abk_fido_hmac_get_secret_locked K ?cred req)) else Inr None) = Inr hout"
    using assms(1) by (auto simp: ga_answer_def Let_def split: sum.splits)
  then have ok: "output_ok hout \<and> (hout = None \<longleftrightarrow> \<not> ga_hmac_secret_requested req)"
    using hmac_output_length [OF _ assms(2), of ?cred req]
    by (cases "fst (abk_fido_hmac_get_secret_locked K ?cred req)")
      (auto simp: output_ok_def split: if_splits)
  obtain r f1 d1 where e: "abk_fido_encode_assertion_locked K E (slots ! 0) (ga_rp_id req)
      (ga_client_data_hash req) ?user (length slots) hout f d = (r, f1, d1)" by (metis prod_cases3)
  have r: "r = Inr payload" "d' = (if length slots > 1 then begin_continuation E req slots d1 else d1)"
    using assms(1) out e by (auto simp: ga_answer_def Let_def split: sum.splits)
  from encode_assertion_outcome [OF e assms(2) ok [THEN conjunct1] assms(3,5)] ok r show ?thesis by auto
qed

lemma loaded_clear: "dv_store_loaded d \<Longrightarrow> abk_fido_load_store_locked K E f (abk_fido_clear_assert_state_locked d)
    = (None, abk_fido_clear_assert_state_locked d)"
  by (simp add: load_when_loaded)

text \<open>
  C2. A signature is only made after an approval, and only with a credential the request
  matches: when getAssertion answers, the store had matching slots when the request came in,
  the approval was granted for this relying party, the reply is the assertion of the first of
  these slots over the request's own client hash, and the only change of the store is the
  counter, advanced by one and signed.
\<close>

theorem get_assertion_outcome:
  assumes "dv_store_loaded d" "store_ok (dv_store d)" "others_ok W" "klib_sizes K"
    "abk_fido_get_assertion_resp K E W req f d = (Inr payload, f', d')"
  shows "\<exists>slots hout d0 E1 f1 d1. slots = filter (\<lambda>i. answers req (st_creds (dv_store d) ! i)) [0..<32]
    \<and> slots \<noteq> [] \<and> dv_store d0 = dv_store d \<and> auth_view d0 = auth_view d
    \<and> ctap_approve E W ABK_FIDO_CTAP_GET_ASSERTION (ga_rp_id req) (ga_uv req) False f d0 = (None, E1, f1, d1)
    \<and> assertion_reply K (st_creds (dv_store d1) ! hd slots) (ga_rp_id req) (ga_client_data_hash req)
        (ga_allow_count req = 0 \<or> length slots > 1 \<or> cr_resident (st_creds (dv_store d1) ! hd slots))
        (length slots) hout (st_sign_count (dv_store d1) + 1) payload
    \<and> (hout = None \<longleftrightarrow> \<not> ga_hmac_secret_requested req)
    \<and> dv_store d' = counted (dv_store d1)"
proof -
  let ?slots = "abk_fido_collect_rp_credentials_locked req 32 (dv_store d)"
  let ?t = "abk_fido_set_last_trace_locked (ga_trace req) (abk_fido_clear_assert_state_locked d)"
  let ?d0 = "if ga_up_disabled req then abk_fido_set_last_trace_locked
      (silent_trace ''getAssertion silent probe prompted'' req) ?t else ?t"
  have slots: "?slots = filter (\<lambda>i. answers req (st_creds (dv_store d) ! i)) [0..<32]"
    using length_filter_le [of "\<lambda>i. answers req (st_creds (dv_store d) ! i)" "[0..<32]"]
    by (simp add: collect_eq)
  have ne: "?slots \<noteq> []" and ans: "(case ctap_approve E W ABK_FIDO_CTAP_GET_ASSERTION (ga_rp_id req) (ga_uv req) False f ?d0 of
      (Some e, _, f, d) \<Rightarrow> (Inl e, f, d) | (None, E, f, d) \<Rightarrow> ga_answer K E req ?slots f d) = (Inr payload, f', d')"
    using assms(1,5) unfolding abk_fido_get_assertion_resp_def loaded_clear [OF assms(1)]
    by (auto simp: Let_def ABK_FIDO_MAX_CREDS_def split: if_splits)
  from ans obtain E1 f1 d1 where ap: "ctap_approve E W ABK_FIDO_CTAP_GET_ASSERTION (ga_rp_id req) (ga_uv req) False f ?d0
      = (None, E1, f1, d1)" and ga: "ga_answer K E1 req ?slots f1 d1 = (Inr payload, f', d')"
    by (auto split: prod.splits option.splits)
  have d0: "dv_store ?d0 = dv_store d" "auth_view ?d0 = auth_view d" by simp_all
  have ok: "store_ok (dv_store d1)" using auth_begin_store_ok [OF assms(3) _ ap] assms(2) d0(1) by simp
  have hd: "hd ?slots = ?slots ! 0" using ne by (rule hd_conv_nth)
  have "?slots ! 0 < 32" using collect_bound nth_mem [of 0 ?slots] ne by blast
  from ga_answer_outcome [OF ga assms(4) ok ne this] obtain hout d2 where
    out: "(hout = None \<longleftrightarrow> \<not> ga_hmac_secret_requested req)"
      "assertion_reply K (st_creds (dv_store d1) ! (?slots ! 0)) (ga_rp_id req) (ga_client_data_hash req)
        (ga_allow_count req = 0 \<or> length ?slots > 1 \<or> cr_resident (st_creds (dv_store d1) ! (?slots ! 0)))
        (length ?slots) hout (st_sign_count (dv_store d1) + 1) payload"
      "dv_store d2 = counted (dv_store d1)"
      "d' = (if length ?slots > 1 then begin_continuation E1 req ?slots d2 else d2)" by blast
  have "dv_store d' = counted (dv_store d1)" using out(3,4) by simp
  with slots ne d0 ap out(1,2) hd show ?thesis by metis
qed


text \<open>The library never fails: every signature succeeds.\<close>

definition signs :: "klib \<Rightarrow> bool" where
  "signs K \<longleftrightarrow> (\<forall>priv auth hash. \<exists>sig. sign_auth_data K priv auth hash = Inr sig)"

lemma signs_never_fails: "signs K \<Longrightarrow> sign_auth_data K priv auth hash \<noteq> Inl e"
  unfolding signs_def by (metis Inl_Inr_False)

definition signing_klib :: klib where
  "signing_klib = sample_klib\<lparr>kl_vli_cmp := (\<lambda>_ _. -1), kl_vli_is_zero := (\<lambda>_. False)\<rparr>"

lemma signing_klib_sizes: "klib_sizes signing_klib"
  by (auto simp: klib_sizes_def signing_klib_def sample_klib_def)

lemma signing_klib_tries: "\<exists>r s. ecdsa_try signing_klib n d z = SignDone r s"
proof -
  have "kl_ecc_gen_privkey signing_klib n = Inr [1, 0, 0, 0]"
    "kl_ecc_make_pub_key signing_klib [1, 0, 0, 0] = Inr [1, 0, 0, 0, 1, 0, 0, 0]"
    "\<not> kl_vli_is_zero signing_klib ds" "kl_vli_cmp signing_klib xs ys = -1" for ds xs ys
    by (simp_all add: signing_klib_def sample_klib_def)
  moreover from this(4) have "vli_reduce signing_klib reduce_fuel xs = Some xs" for xs
    by (simp add: reduce_fuel_def numeral_2_eq_2)
  ultimately show ?thesis by (simp add: ecdsa_try_def Let_def)
qed

lemma signing_klib_signs: "signs signing_klib"
proof -
  have "\<exists>sig. abk_fido_ecdsa_sign_p256 signing_klib priv h = Inr sig" for priv h
  proof -
    let ?d = "abk_fido_digits_from_bytes signing_klib priv 32 (replicate 4 0) ECC_CURVE_NIST_P256_DIGITS"
    let ?z = "abk_fido_digits_from_bytes signing_klib h 32 (replicate 4 0) ECC_CURVE_NIST_P256_DIGITS"
    obtain r s where "ecdsa_try signing_klib 0 ?d ?z = SignDone r s" using signing_klib_tries by blast
    moreover have "(16 :: nat) = Suc 15" by simp
    ultimately have "sign_loop signing_klib 16 0 ?d ?z = Inr (r, s)" by (simp only: sign_loop.simps sign_try.case)
    with der_signature_ok [OF length_digits_to_bytes length_digits_to_bytes, of r s] show ?thesis
      by (auto simp: abk_fido_ecdsa_sign_p256_def Let_def ECC_CURVE_NIST_P256_DIGITS_def)
  qed
  then show ?thesis
    by (simp add: signs_def sign_auth_data_def abk_fido_sha256_def abk_fido_shash_digest_def
        signing_klib_def sample_klib_def)
qed

text \<open>
  Requests that match nothing never disturb the user: they are answered at once, a silent
  probe with \<open>-EPROTO\<close> (user presence required) and any other with \<open>-ENOENT\<close>, without a prompt,
  without opening or closing the approval windows and without a change of the store or its file.
\<close>

theorem no_match_no_prompt:
  assumes "dv_store_loaded d" "\<not> ga_pin_auth_present req"
    "filter (\<lambda>i. answers req (st_creds (dv_store d) ! i)) [0..<32] = []"
    "abk_fido_get_assertion_resp K E W req f d = (r, f', d')"
  shows "r = Inl (if ga_up_disabled req then ABK_FIDO_ERR_UP_REQUIRED else ENOENT)
    \<and> auth_view d' = auth_view d \<and> dv_store d' = dv_store d \<and> f' = f"
proof -
  have "abk_fido_collect_rp_credentials_locked req ABK_FIDO_MAX_CREDS (dv_store d) = []"
    using assms(3) by (simp add: collect_eq)
  with assms(1,2,4) show ?thesis
    by (auto simp: abk_fido_get_assertion_resp_def loaded_clear Let_def split: if_splits)
qed

theorem no_match_no_prompt_witness:
  "\<exists>r f' d'. abk_fido_get_assertion_resp sample_klib sample_env
       \<lparr>oth_wait = (\<lambda>d. (0, 5000, d)), oth_file = (\<lambda>f. f)\<rparr> zero_get_assert_req None granted_device = (r, f', d')
     \<and> r = Inl ENOENT \<and> f' = None"
proof -
  let ?W = "\<lparr>oth_wait = (\<lambda>d. (0, 5000, d)), oth_file = (\<lambda>f. f)\<rparr>"
  obtain r f' d' where run: "abk_fido_get_assertion_resp sample_klib sample_env ?W zero_get_assert_req None
      granted_device = (r, f', d')" by (metis prod_cases3)
  have "filter (\<lambda>i. answers zero_get_assert_req (st_creds zero_store ! i)) [0..<32] = []"
    by (simp add: filter_empty_conv answers_def zero_store_def zero_credential_def ABK_FIDO_MAX_CREDS_def)
  then show ?thesis
    using no_match_no_prompt [OF _ _ _ run] run by (simp add: zero_get_assert_req_def)
qed


subsection \<open>Serving every account\<close>

lemma auth_check_grant:
  assumes "in_grant E d" "\<not> in_cooldown E d"
  shows "in_grant E (snd (auth_check E cmd rp d)) \<and> \<not> in_cooldown E (snd (auth_check E cmd rp d))
    \<and> assert_view (snd (auth_check E cmd rp d)) = assert_view d
    \<and> dv_store_loaded (snd (auth_check E cmd rp d)) = dv_store_loaded d"
  using assms
  by (auto simp: auth_check_def in_grant_def in_cooldown_def Let_def assert_view_def
      abk_fido_set_last_trace_locked_def)

text \<open>Inside the grant window an approval costs nothing and changes nothing that matters.\<close>

lemma approve_granted:
  assumes "in_grant E d" "\<not> in_cooldown E d"
  shows "\<exists>d'. ctap_approve E W cmd rp uv rk f d = (None, E, f, d') \<and> dv_store d' = dv_store d
    \<and> in_grant E d' \<and> \<not> in_cooldown E d' \<and> assert_view d' = assert_view d
    \<and> dv_store_loaded d' = dv_store_loaded d"
  using approve_in_grant [OF assms, of W cmd rp uv rk f] auth_check_grant [OF assms, of cmd rp] by blast

text \<open>A pending continuation: \<open>slots\<close> are being served and \<open>i\<close> is next.\<close>

definition continuation ::
    "kenv \<Rightarrow> nat list \<Rightarrow> u8 list \<Rightarrow> u8 list \<Rightarrow> nat \<Rightarrow> abk_fido_device \<Rightarrow> bool" where
  "continuation E slots hash rp i d \<longleftrightarrow> dv_assert_valid d \<and> dv_assert_count d = length slots
     \<and> dv_assert_next d = i \<and> i < length slots \<and> take (length slots) (dv_assert_slots d) = slots
     \<and> dv_assert_client_data_hash d = hash \<and> cstr (dv_assert_rp_id d) = rp \<and> length rp < 128
     \<and> time_before (env_now E) (dv_assert_expires d)"

lemma continuation_view:
  "assert_view d = assert_view d' \<Longrightarrow> continuation E slots hash rp i d = continuation E slots hash rp i d'"
  by (simp add: continuation_def assert_view_def)

definition window_open :: "kenv \<Rightarrow> bool" where
  "window_open E \<longleftrightarrow> time_before (env_now E) (env_now E + env_msecs E ABK_FIDO_ASSERT_WINDOW_MS)"

lemma next_served_last:
  assumes "continuation E slots hash rp i d" "length slots \<le> i + 1"
  shows "\<not> dv_assert_valid (next_served E rp' n d)"
  using assms by (simp add: next_served_def continuation_def abk_fido_set_last_trace_locked_def)

lemma next_served_more:
  assumes "continuation E slots hash rp i d" "i + 1 < length slots" "window_open E"
  shows "continuation E slots hash rp (i + 1) (next_served E rp' n d)"
  using assms by (simp add: next_served_def continuation_def abk_fido_set_last_trace_locked_def window_open_def)

lemma next_served_frame [simp]:
  "dv_store (next_served E rp n d) = dv_store d" "auth_view (next_served E rp n d) = auth_view d"
  by (simp_all add: next_served_def auth_view_def abk_fido_set_last_trace_locked_def
      abk_fido_clear_assert_state_locked_def Let_def)

lemma reply_cstr:
  "cstr a = cstr b \<Longrightarrow> assertion_reply K c a hash user n out k p = assertion_reply K c b hash user n out k p"
  by (simp add: assertion_reply_def asserted_auth_data_def rp_hash_def)

lemma next_assertion_serves:
  assumes cont: "continuation E slots hash rp i d"
    and grant: "in_grant E d" "\<not> in_cooldown E d"
    and slots: "\<forall>j<length slots. slots ! j < 32 \<and> cr_in_use (st_creds (dv_store d) ! (slots ! j))"
    and store: "store_ok (dv_store d)" and lib: "klib_sizes K" "signs K" and window: "window_open E"
  shows "\<exists>payload f' d'. abk_fido_get_next_assertion_resp K E W f d = (Inr payload, f', d')
    \<and> assertion_reply K (st_creds (dv_store d) ! (slots ! i)) rp hash True 1 None
        (st_sign_count (dv_store d) + 1) payload
    \<and> dv_store d' = counted (dv_store d) \<and> in_grant E d' \<and> \<not> in_cooldown E d'
    \<and> (if i + 1 < length slots then continuation E slots hash rp (i + 1) d' else \<not> dv_assert_valid d')"
proof -
  let ?rp = "strscpy (kl_stack K ABK_FIDO_MAX_RP_ID) (dv_assert_rp_id d)"
  have i: "i < length slots" and nx: "dv_assert_next d = i" "dv_assert_count d = length slots" "dv_assert_valid d"
    "dv_assert_client_data_hash d = hash" "time_before (env_now E) (dv_assert_expires d)"
    using cont by (simp_all add: continuation_def)
  have "take (length slots) (dv_assert_slots d) ! i = slots ! i" using cont by (simp add: continuation_def)
  then have slot: "dv_assert_slots d ! i = slots ! i" using i by simp
  have rp: "cstr ?rp = cstr rp"
    using cont cstr_strscpy [of "dv_assert_rp_id d" "kl_stack K 128"] stack_length [OF lib(1), of 128]
    by (auto simp: continuation_def store_consts)
  obtain d1 where ap: "ctap_approve E W ABK_FIDO_CTAP_GET_NEXT_ASSERTION ?rp False False f d = (None, E, f, d1)"
    and d1: "dv_store d1 = dv_store d" "in_grant E d1" "\<not> in_cooldown E d1" "assert_view d1 = assert_view d"
    using approve_granted [OF grant] by blast
  have c1: "continuation E slots hash rp i d1" using cont continuation_view [OF d1(4)] by simp
  then have n1: "dv_assert_valid d1" "dv_assert_next d1 = i" by (simp_all add: continuation_def)
  obtain r f2 d2 where e: "abk_fido_encode_assertion_locked K E (slots ! i) ?rp hash True 1 None f d1 = (r, f2, d2)"
    by (metis prod_cases3)
  have si: "slots ! i < 32" "cr_in_use (st_creds (dv_store d) ! (slots ! i))" using slots i by blast+
  have out: "output_ok None" by (simp add: output_ok_def)
  have "store_ok (dv_store d1)" using store d1(1) by simp
  note o = encode_assertion_outcome [OF e lib(1) out this si(1)]
  have "r \<noteq> Inl err" for err using o signs_never_fails [OF lib(2)] by (auto split: sum.splits)
  then obtain payload where r: "r = Inr payload" by (cases r) blast+
  have run: "abk_fido_get_next_assertion_resp K E W f d = (Inr payload, f2, next_served E ?rp (i + 1) d2)"
    using nx i slot si ap n1 e r by (simp add: abk_fido_get_next_assertion_resp_def ABK_FIDO_MAX_CREDS_def Let_def)
  have "assertion_reply K (st_creds (dv_store d) ! (slots ! i)) rp hash True 1 None
      (st_sign_count (dv_store d) + 1) payload"
    using o r d1(1) reply_cstr [OF rp] by simp
  moreover have "dv_store d2 = counted (dv_store d)" "auth_view d2 = auth_view d1" "assert_view d2 = assert_view d1"
    using o d1(1) by simp_all
  moreover from this(2) have "in_grant E (next_served E ?rp (i + 1) d2)" "\<not> in_cooldown E (next_served E ?rp (i + 1) d2)"
    using auth_view_windows [of "next_served E ?rp (i + 1) d2" d1 E] d1(2,3) by simp_all
  moreover have "continuation E slots hash rp i d2"
    using c1 continuation_view [OF \<open>assert_view d2 = assert_view d1\<close>] by simp
  ultimately show ?thesis
    using run next_served_last [of E slots hash rp i d2 ?rp "i + 1"] next_served_more [of E slots hash rp i d2 ?rp "i + 1"]
      i window by (auto simp: not_less)
qed


text \<open>\<open>n\<close> calls of getNextAssertion, and their replies.\<close>

fun serve_rest ::
    "klib \<Rightarrow> kenv \<Rightarrow> others \<Rightarrow> nat \<Rightarrow> store_file \<Rightarrow> abk_fido_device \<Rightarrow> reply list \<times> store_file \<times> abk_fido_device" where
  "serve_rest K E W 0 f d = ([], f, d)"
| "serve_rest K E W (Suc n) f d =
     (case abk_fido_get_next_assertion_resp K E W f d of
        (r, f, d) \<Rightarrow> (case serve_rest K E W n f d of (rs, f, d) \<Rightarrow> (r # rs, f, d)))"

text \<open>The replies to the slots from \<open>i\<close> on, the counter starting after \<open>n\<close>.\<close>

fun replies_for ::
    "klib \<Rightarrow> abk_fido_credential list \<Rightarrow> u8 list \<Rightarrow> u8 list \<Rightarrow> nat list \<Rightarrow> u32 \<Rightarrow> reply list \<Rightarrow> bool" where
  "replies_for K creds rp hash [] n rs \<longleftrightarrow> rs = []"
| "replies_for K creds rp hash (s # ss) n rs \<longleftrightarrow>
     (\<exists>payload rs'. rs = Inr payload # rs' \<and> assertion_reply K (creds ! s) rp hash True 1 None (n + 1) payload
        \<and> replies_for K creds rp hash ss (n + 1) rs')"

lemma serve_rest_serves:
  assumes "continuation E slots hash rp i d" "in_grant E d" "\<not> in_cooldown E d"
    "\<forall>j<length slots. slots ! j < 32 \<and> cr_in_use (st_creds (dv_store d) ! (slots ! j))"
    "store_ok (dv_store d)" "klib_sizes K" "signs K" "window_open E" "n = length slots - i"
  shows "\<exists>rs f' d'. serve_rest K E W n f d = (rs, f', d') \<and> \<not> dv_assert_valid d'
    \<and> replies_for K (st_creds (dv_store d)) rp hash (drop i slots) (st_sign_count (dv_store d)) rs"
  using assms(1-5,9)
proof (induction n arbitrary: i d f)
  case 0
  then show ?case by (simp add: continuation_def)
next
  case (Suc n)
  from next_assertion_serves [OF Suc.prems(1-5) assms(6-8), of W f] obtain payload f1 d1 where
    1: "abk_fido_get_next_assertion_resp K E W f d = (Inr payload, f1, d1)"
      "assertion_reply K (st_creds (dv_store d) ! (slots ! i)) rp hash True 1 None
        (st_sign_count (dv_store d) + 1) payload"
      "dv_store d1 = counted (dv_store d)" "in_grant E d1" "\<not> in_cooldown E d1"
      "if i + 1 < length slots then continuation E slots hash rp (i + 1) d1 else \<not> dv_assert_valid d1"
    by blast
  have i: "i < length slots" using Suc.prems(1) by (simp add: continuation_def)
  then have drop: "drop i slots = slots ! i # drop (i + 1) slots" by (simp add: Cons_nth_drop_Suc)
  show ?case
  proof (cases "i + 1 < length slots")
    case True
    have "\<forall>j<length slots. slots ! j < 32 \<and> cr_in_use (st_creds (dv_store d1) ! (slots ! j))"
      "store_ok (dv_store d1)" using Suc.prems(4,5) 1(3) by simp_all
    moreover have "continuation E slots hash rp (i + 1) d1" "n = length slots - (i + 1)"
      using 1(6) True Suc.prems(6) by simp_all
    ultimately obtain rs f' d' where "serve_rest K E W n f1 d1 = (rs, f', d')" "\<not> dv_assert_valid d'"
      "replies_for K (st_creds (dv_store d1)) rp hash (drop (i + 1) slots) (st_sign_count (dv_store d1)) rs"
      using Suc.IH [of "i + 1" d1 f1] 1(4,5) by blast
    with 1(1-3) drop show ?thesis by simp
  next
    case False
    then have "n = 0" "drop (i + 1) slots = []" using Suc.prems(6) by simp_all
    with False 1(1,2,6) drop show ?thesis by simp
  qed
qed

lemma continuation_begins:
  assumes "length slots \<le> 32" "1 < length slots" "length (dv_assert_slots d) = 32"
    "length (dv_assert_rp_id d) = 128" "length (cstr (ga_rp_id req)) < 128" "window_open E"
  shows "continuation E slots (ga_client_data_hash req) (cstr (ga_rp_id req)) 1 (begin_continuation E req slots d)"
  using assms cstr_strscpy [of "ga_rp_id req" "dv_assert_rp_id d"]
  by (simp add: continuation_def begin_continuation_def abk_fido_set_last_trace_locked_def
      overwrite_def window_open_def)

text \<open>
  C9. Every account is served: when several credentials match and getAssertion has answered
  with the first, the client gets one assertion per remaining credential, in slot order, each
  with its own key, for the same relying party and client hash and with the counter going up
  by one each time, by asking once per credential inside the grant window; after the last one
  the continuation is closed.  (The library's signatures are assumed to succeed.)
\<close>

theorem every_account_served:
  assumes "slots = filter (\<lambda>i. answers req (st_creds (dv_store d) ! i)) [0..<32]" "1 < length slots"
    "dv_store_loaded d" "store_ok (dv_store d)" "in_grant E d" "\<not> in_cooldown E d" "window_open E"
    "length (dv_assert_slots d) = 32" "length (dv_assert_rp_id d) = 128" "ga_req_ok req"
    "klib_sizes K" "signs K"
    "abk_fido_get_assertion_resp K E W req f d = (Inr payload, f1, d1)"
  shows "\<exists>rs f' d'. serve_rest K E W (length slots - 1) f1 d1 = (rs, f', d') \<and> \<not> dv_assert_valid d'
    \<and> replies_for K (st_creds (dv_store d)) (cstr (ga_rp_id req)) (ga_client_data_hash req) (tl slots)
        (st_sign_count (dv_store d) + 1) rs"
proof -
  have coll: "abk_fido_collect_rp_credentials_locked req ABK_FIDO_MAX_CREDS (dv_store d) = slots"
    and len: "length slots \<le> 32"
    using length_filter_le [of "\<lambda>i. answers req (st_creds (dv_store d) ! i)" "[0..<32]"] assms(1)
    by (simp_all add: collect_eq ABK_FIDO_MAX_CREDS_def)
  have ne: "slots \<noteq> []" using assms(2) by auto
  let ?t = "abk_fido_set_last_trace_locked (ga_trace req) (abk_fido_clear_assert_state_locked d)"
  let ?d0 = "if ga_up_disabled req then abk_fido_set_last_trace_locked
      (silent_trace ''getAssertion silent probe prompted'' req) ?t else ?t"
  have g0: "in_grant E ?d0" "\<not> in_cooldown E ?d0" using assms(5,6) by simp_all
  obtain d2 where ap: "ctap_approve E W ABK_FIDO_CTAP_GET_ASSERTION (ga_rp_id req) (ga_uv req) False f ?d0
      = (None, E, f, d2)"
    and d2: "dv_store d2 = dv_store d" "in_grant E d2" "\<not> in_cooldown E d2" "assert_view d2 = assert_view ?d0"
    using approve_granted [OF g0, of W ABK_FIDO_CTAP_GET_ASSERTION "ga_rp_id req" "ga_uv req" False f] by auto
  have ga: "ga_answer K E req slots f d2 = (Inr payload, f1, d1)"
    using assms(3,13) ne coll ap unfolding abk_fido_get_assertion_resp_def loaded_clear [OF assms(3)]
    by (simp add: Let_def split: if_splits)
  have all: "\<forall>j<length slots. slots ! j < 32 \<and> cr_in_use (st_creds (dv_store d) ! (slots ! j))"
  proof (intro allI impI)
    fix j assume "j < length slots"
    then have "slots ! j \<in> set slots" by simp
    then show "slots ! j < 32 \<and> cr_in_use (st_creds (dv_store d) ! (slots ! j))"
      unfolding assms(1) by (auto simp: answers_def)
  qed
  then have s0: "slots ! 0 < 32" using ne by auto
  have ok2: "store_ok (dv_store d2)" using assms(4) d2(1) by simp
  from ga_answer_outcome [OF ga assms(11) ok2 ne s0] obtain d3 where
    d3: "dv_store d3 = counted (dv_store d)" "auth_view d3 = auth_view d2" "assert_view d3 = assert_view d2"
      "d1 = begin_continuation E req slots d3" using assms(2) d2(1) by auto
  have arr: "length (dv_assert_slots d3) = 32" "length (dv_assert_rp_id d3) = 128"
    using d3(3) d2(4) assms(8,9)
    by (simp_all add: assert_view_def abk_fido_clear_assert_state_locked_def abk_fido_set_last_trace_locked_def
        split: if_splits)
  have rp: "length (cstr (ga_rp_id req)) < 128"
    using assms(10) length_cstr_less [of "ga_rp_id req"] by (simp add: ga_req_ok_def)
  have c: "continuation E slots (ga_client_data_hash req) (cstr (ga_rp_id req)) 1 d1"
    unfolding d3(4) by (rule continuation_begins [OF len assms(2) arr rp assms(7)])
  have g1: "in_grant E d1" "\<not> in_cooldown E d1"
    using auth_view_windows [of d1 d2 E] d3(2,4) d2(2,3) by simp_all
  have "\<forall>j<length slots. slots ! j < 32 \<and> cr_in_use (st_creds (dv_store d1) ! (slots ! j))" "store_ok (dv_store d1)"
    using all assms(4) d3(1,4) by simp_all
  from serve_rest_serves [OF c g1 this assms(11,12,7) refl, of W f1] d3(1,4)
  show ?thesis by (simp add: drop_Suc)
qed


subsection \<open>An example: two accounts\<close>

definition sample_account :: abk_fido_credential where
  "sample_account = zero_credential\<lparr>cr_in_use := True\<rparr>"

definition two_accounts :: abk_fido_device where
  "two_accounts = granted_device\<lparr>dv_store := zero_store\<lparr>st_creds :=
     sample_account # sample_account # replicate 30 zero_credential\<rparr>\<rparr>"

lemma sample_others_ok: "others_ok sample_others"
  by (simp add: others_ok_def sample_others_def)

lemma two_accounts_simps:
  "dv_store_loaded two_accounts" "in_grant sample_env two_accounts" "\<not> in_cooldown sample_env two_accounts"
  "length (dv_assert_slots two_accounts) = 32" "length (dv_assert_rp_id two_accounts) = 128"
  by (simp_all add: two_accounts_def granted_device_def abk_fido_dev_initial_def in_grant_def in_cooldown_def
      time_before_def sample_env_def store_consts)

lemma two_accounts_ok: "store_ok (dv_store two_accounts)"
proof -
  have "cred_ok zero_credential" "cred_ok sample_account"
    by (simp_all add: cred_ok_def sample_account_def zero_credential_def store_consts has_nul_def)
  then show ?thesis
    by (simp add: two_accounts_def store_ok_def zero_store_def list_all_iff)
qed

lemma two_accounts_match:
  "filter (\<lambda>i. answers zero_get_assert_req (st_creds (dv_store two_accounts) ! i)) [0..<32] = [0, 1]"
proof -
  have yes: "answers zero_get_assert_req sample_account"
    by (simp add: answers_def sample_account_def zero_credential_def zero_get_assert_req_def
        abk_fido_rp_matches_request_def abk_fido_credential_matches_allow_def)
  have no: "\<not> answers zero_get_assert_req zero_credential"
    by (simp add: answers_def zero_credential_def)
  have creds: "st_creds (dv_store two_accounts) = sample_account # sample_account # replicate 30 zero_credential"
    by (simp add: two_accounts_def)
  have "[0..<32] = 0 # 1 # [2..<32]" by (simp add: upt_conv_Cons)
  moreover have "filter (\<lambda>i. answers zero_get_assert_req (st_creds (dv_store two_accounts) ! i)) [2..<32] = []"
    unfolding creds using no by (auto simp: filter_empty_conv nth_Cons')
  ultimately show ?thesis using yes unfolding creds by simp
qed

lemma sample_window_open: "window_open sample_env"
  by (simp add: window_open_def time_before_def sample_env_def ABK_FIDO_ASSERT_WINDOW_MS_def)

lemma ga_req_ok_sample: "ga_req_ok zero_get_assert_req"
  by (simp add: ga_req_ok_def zero_get_assert_req_def parse_consts has_nul_def list_all_iff ref_ok_def zero_ref_def)

lemma two_accounts_answer:
  "\<exists>payload f' d'. abk_fido_get_assertion_resp signing_klib sample_env sample_others zero_get_assert_req None
     two_accounts = (Inr payload, f', d')"
proof -
  let ?req = zero_get_assert_req and ?E = sample_env and ?d = two_accounts
  let ?t = "abk_fido_set_last_trace_locked (ga_trace ?req) (abk_fido_clear_assert_state_locked ?d)"
  have flags: "\<not> ga_pin_auth_present ?req" "\<not> ga_up_disabled ?req" "\<not> ga_hmac_secret_requested ?req"
    by (simp_all add: zero_get_assert_req_def)
  have "in_grant ?E ?t" "\<not> in_cooldown ?E ?t" using two_accounts_simps by simp_all
  then obtain d2 where ap: "ctap_approve ?E sample_others ABK_FIDO_CTAP_GET_ASSERTION (ga_rp_id ?req) (ga_uv ?req) False None ?t
      = (None, ?E, None, d2)" and d2: "dv_store d2 = dv_store ?d"
    using approve_granted [of ?E ?t sample_others] by fastforce
  have "store_ok (dv_store d2)" using two_accounts_ok d2 by simp
  moreover obtain r f1 d1 where e: "abk_fido_encode_assertion_locked signing_klib ?E 0 (ga_rp_id ?req)
      (ga_client_data_hash ?req) True 2 None None d2 = (r, f1, d1)" by (metis prod_cases3)
  moreover have "output_ok None" by (simp add: output_ok_def)
  ultimately have "r \<noteq> Inl err" for err
    using encode_assertion_outcome [OF e signing_klib_sizes] signs_never_fails [OF signing_klib_signs]
    by (fastforce split: sum.splits)
  then obtain payload where "r = Inr payload" by (cases r) blast+
  then have "ga_answer signing_klib ?E ?req [0, 1] None d2
      = (Inr payload, f1, begin_continuation ?E ?req [0, 1] d1)"
    using e flags(3) by (simp add: ga_answer_def Let_def numeral_2_eq_2)
  moreover have "abk_fido_collect_rp_credentials_locked ?req ABK_FIDO_MAX_CREDS (dv_store ?d) = [0, 1]"
    using two_accounts_match by (simp add: collect_eq ABK_FIDO_MAX_CREDS_def)
  ultimately show ?thesis
    using flags ap loaded_clear [OF two_accounts_simps(1), of signing_klib ?E None]
    by (simp add: abk_fido_get_assertion_resp_def Let_def)
qed

theorem get_assertion_outcome_witness:
  "\<exists>payload d'. dv_store d' = counted (dv_store two_accounts)
     \<and> (\<exists>f'. abk_fido_get_assertion_resp signing_klib sample_env sample_others zero_get_assert_req None two_accounts
          = (Inr payload, f', d'))"
proof -
  obtain payload f' d' where run: "abk_fido_get_assertion_resp signing_klib sample_env sample_others
      zero_get_assert_req None two_accounts = (Inr payload, f', d')"
    using two_accounts_answer by blast
  from get_assertion_outcome [OF two_accounts_simps(1) two_accounts_ok sample_others_ok signing_klib_sizes run]
  obtain d0 E1 f1 d1 where
    d0: "dv_store d0 = dv_store two_accounts" "auth_view d0 = auth_view two_accounts"
    and ap: "ctap_approve sample_env sample_others ABK_FIDO_CTAP_GET_ASSERTION (ga_rp_id zero_get_assert_req)
       (ga_uv zero_get_assert_req) False None d0 = (None, E1, f1, d1)"
    and d': "dv_store d' = counted (dv_store d1)" by blast
  have "in_grant sample_env d0" "\<not> in_cooldown sample_env d0"
    using auth_view_windows [OF d0(2), of sample_env] two_accounts_simps by simp_all
  from approve_granted [OF this, of sample_others ABK_FIDO_CTAP_GET_ASSERTION "ga_rp_id zero_get_assert_req"
      "ga_uv zero_get_assert_req" False None] ap d0(1)
  have "dv_store d1 = dv_store two_accounts" by auto
  with d' run show ?thesis by auto
qed

theorem every_account_served_witness:
  "\<exists>payload f1 d1 r f' d'. abk_fido_get_assertion_resp signing_klib sample_env sample_others zero_get_assert_req None
        two_accounts = (Inr payload, f1, d1)
     \<and> serve_rest signing_klib sample_env sample_others 1 f1 d1 = ([Inr r], f', d') \<and> \<not> dv_assert_valid d'"
proof -
  obtain payload f1 d1 where run: "abk_fido_get_assertion_resp signing_klib sample_env sample_others
      zero_get_assert_req None two_accounts = (Inr payload, f1, d1)"
    using two_accounts_answer by blast
  have "1 < length [0, 1 :: nat]" by simp
  from every_account_served [OF two_accounts_match [symmetric] this two_accounts_simps(1) two_accounts_ok
      two_accounts_simps(2,3) sample_window_open two_accounts_simps(4,5) ga_req_ok_sample
      signing_klib_sizes signing_klib_signs run]
  show ?thesis using run by auto
qed

end
