(* ===== verification/Store_Invariant.thy ===== *)
theory Store_Invariant
  imports Ctap_Assertions
begin

section \<open>The store invariant, and reset\<close>

text \<open>
  \<open>store_ok\<close> (array lengths, 32 slots, terminated names, user handles of at most 64 bytes) is
  the type invariant everything else relies on.  Here: arbitrary file contents cannot break it
  (the reader clamps and terminates), and no command does.  Then what reset achieves, and when
  it does not.
\<close>

subsection \<open>Whatever the file holds\<close>

lemma view_v1_ok: "length bs = 452 \<Longrightarrow> disk_cred_v1_ok (cred_v1_view bs)"
  by (simp add: disk_cred_v1_ok_def cred_v1_view_def)

lemma view_ok: "length bs = 484 \<Longrightarrow> disk_cred_ok (cred_view bs)"
  by (simp add: disk_cred_ok_def disk_cred_v1_ok_def cred_view_def cred_v1_view_def
      abk_fido_store_disk_cred_v1.defs abk_fido_store_disk_cred.defs)

lemma disk_view_ok:
  assumes "length bs = 84 + 32 * w" "\<And>c. length c = w \<Longrightarrow> ok (cv c)"
  shows "layout_ok ok (disk_view cv w bs)"
proof -
  have "length (field_at (i * w) w (drop 84 bs)) = w" if "i < 32" for i
  proof -
    have "i * w + w \<le> 32 * w" using that mult_le_mono1 [of "Suc i" 32 w] by simp
    then show ?thesis using assms(1) by simp
  qed
  with assms show ?thesis by (simp add: layout_ok_def disk_view_def ABK_FIDO_MAX_CREDS_def list_all_iff)
qed

lemma from_disk_ok:
  assumes "store_ok s" "length buf = SIZEOF_STORE_DISK"
    "abk_fido_store_from_disk_into K (store_disk_of buf) s = (ret, s', reason)"
  shows "store_ok s'"
proof -
  have "layout_ok disk_cred_ok (store_disk_of buf)"
    unfolding store_disk_of_def using assms(2) by (intro disk_view_ok view_ok) (simp_all add: SIZEOF_STORE_DISK_def)
  then have "store_ok (store_from_layout (\<lambda>dc. cred_from_disk dc (dc_hmac_secret dc)) (store_disk_of buf))"
    by (rule store_from_layout_ok) (simp add: cred_from_disk_ok disk_cred_ok_def)
  with assms(1,3) show ?thesis
    by (auto simp: abk_fido_store_from_disk_into_def Let_def split: if_splits)
qed

lemma from_disk_v1_ok:
  assumes "store_ok s" "length buf = SIZEOF_STORE_DISK_V1"
    "abk_fido_store_from_disk_v1_into K (store_disk_v1_of buf) s = (ret, s', reason)"
  shows "store_ok s'"
proof -
  have "layout_ok disk_cred_v1_ok (store_disk_v1_of buf)"
    unfolding store_disk_v1_of_def using assms(2)
    by (intro disk_view_ok view_v1_ok) (simp_all add: SIZEOF_STORE_DISK_V1_def)
  then have "store_ok (store_from_layout
      (\<lambda>dc. cred_from_disk dc (replicate ABK_FIDO_HMAC_SECRET_LEN 0)) (store_disk_v1_of buf))"
    by (rule store_from_layout_ok) (simp add: cred_from_disk_ok store_consts)
  with assms(1,3) show ?thesis
    by (auto simp: abk_fido_store_from_disk_v1_into_def Let_def split: if_splits)
qed

lemma read_store_ok:
  assumes "store_ok s" "abk_fido_read_store_from_path_locked K E f s d = (ret, s', reason, d')"
  shows "store_ok s'"
proof -
  have v2: "store_ok s2" if "length buf = SIZEOF_STORE_DISK"
    "abk_fido_store_from_disk_into K (store_disk_of buf) s = (r, s2, reas)" for buf r s2 reas
    using from_disk_ok [OF assms(1) that] .
  have v1: "store_ok s2" if "length buf = SIZEOF_STORE_DISK_V1"
    "abk_fido_store_from_disk_v1_into K (store_disk_v1_of buf) s = (r, s2, reas)" for buf r s2 reas
    using from_disk_v1_ok [OF assms(1) that] .
  show ?thesis
    using assms v1 v2
    by (auto simp: abk_fido_read_store_from_path_locked_def split: sum.splits if_splits prod.splits option.splits)
qed

lemma fresh_store_ok:
  "env_sizes E \<Longrightarrow> store_ok (zero_store\<lparr>st_aaguid := env_random E a 16, st_pin_token := env_random E b 32,
     st_pin_retries := n\<rparr>)"
  using store_ok_zero by (simp add: store_ok_def env_sizes_def)

lemma load_store_ok:
  assumes "store_ok (dv_store d)" "env_sizes E" "abk_fido_load_store_locked K E f d = (ret, d')"
  shows "store_ok (dv_store d')"
proof -
  obtain r s reason d1 where r: "abk_fido_read_store_from_path_locked K E f (dv_store d) d = (r, s, reason, d1)"
    by (metis prod_cases4)
  note s = read_store_ok [OF assms(1) r]
  show ?thesis
  proof (cases "dv_store_loaded d")
    case True
    with assms(1,3) show ?thesis by (auto simp: load_when_loaded)
  next
    case False
    with assms(3) r s fresh_store_ok [OF assms(2)] store_ok_dropped_pin [OF s] show ?thesis
      by (cases r; cases "env_persist E")
        (auto simp: abk_fido_load_store_locked_def abk_fido_init_new_store_locked_def Let_def)
  qed
qed


subsection \<open>Every command keeps the invariant\<close>

lemma approve_env_sizes:
  assumes "env_sizes E" "ctap_approve E W cmd rp uv rk f d = (ret, E', f', d')"
  shows "env_sizes E'"
proof -
  have "\<exists>now. E' = E\<lparr>env_now := now\<rparr> \<or> E' = E"
    using assms(2) by (auto simp: ctap_approve_def abk_fido_auth_begin_locked_def split: prod.splits option.splits)
  with assms(1) show ?thesis by (auto simp: env_sizes_def)
qed

lemma store_ok_slot:
  "store_ok s \<Longrightarrow> cred_ok c \<Longrightarrow> store_ok (s\<lparr>st_creds := (st_creds s)[i := c]\<rparr>)"
  by (auto simp: store_ok_def list_all_iff dest!: subsetD [OF set_update_subset_insert])

lemma zero_credential_ok: "cred_ok zero_credential"
  using store_ok_zero by (simp add: store_ok_def zero_store_def ABK_FIDO_MAX_CREDS_def list_all_iff)

definition keeps_store_ok :: "reply \<times> store_file \<times> abk_fido_device \<Rightarrow> bool" where
  "keeps_store_ok res = store_ok (dv_store (snd (snd res)))"

lemma commit_store: "dv_store (snd (snd (commit_and_persist K E p f d))) = dv_store d"
  using commit_frame(2) by (metis prod.collapse)

lemma mk_create_ok:
  assumes "store_ok (dv_store d)" "klib_sizes K" "env_sizes E" "mk_req_ok req"
  shows "keeps_store_ok (mk_create K E req f d)"
proof -
  have aaguid: "length (st_aaguid (dv_store d)) = 16" using assms(1) by (simp add: store_ok_def)
  have "cred_ok cred" if "attest_credential K E req (dv_store d) = Inr (cred, p)" for cred p
    using attest_registers [OF that assms(2-4) aaguid] by (simp add: registration_def)
  with assms(1) store_ok_slot zero_credential_ok show ?thesis
    by (auto simp: mk_create_def keeps_store_ok_def commit_store split: sum.splits)
qed

lemma make_credential_ok:
  assumes "store_ok (dv_store d)" "others_ok W" "klib_sizes K" "env_sizes E" "mk_req_ok req"
  shows "keeps_store_ok (abk_fido_make_credential_resp K E W req f d)"
proof -
  obtain ret d0 where l: "abk_fido_load_store_locked K E f d = (ret, d0)" by fastforce
  then have d0: "store_ok (dv_store d0)" using load_store_ok assms(1,4) by blast
  have ap: "store_ok (dv_store d1) \<and> env_sizes E1"
    if "ctap_approve E W cmd rp uv rk f (abk_fido_set_last_trace_locked t d0) = (r, E1, f1, d1)"
    for cmd rp uv rk t r E1 f1 d1
    using auth_begin_store_ok [OF assms(2) _ that] approve_env_sizes [OF assms(4) that] d0 by simp
  show ?thesis
    using l d0 ap mk_create_ok [OF _ assms(3) _ assms(5)]
    by (auto simp: abk_fido_make_credential_resp_def abk_fido_make_selection_credential_resp_def Let_def
        keeps_store_ok_def split: prod.split option.split)
qed

lemma encode_assertion_store:
  "dv_store (snd (snd (abk_fido_encode_assertion_locked K E slot rp hash user n out f d))) = counted (dv_store d)"
  by (auto simp: abk_fido_encode_assertion_locked_def Let_def counted_def commit_store split: sum.split)

lemma ga_answer_store:
  "store_ok (dv_store d) \<Longrightarrow> keeps_store_ok (ga_answer K E req slots f d)"
  using encode_assertion_store [of K E "slots ! 0" "ga_rp_id req" "ga_client_data_hash req"]
  by (auto simp: ga_answer_def Let_def keeps_store_ok_def split: sum.split prod.split)
    (metis counted_simps(4) snd_conv)+

lemma get_assertion_ok:
  assumes "store_ok (dv_store d)" "others_ok W" "env_sizes E"
  shows "keeps_store_ok (abk_fido_get_assertion_resp K E W req f d)"
proof -
  let ?c = "abk_fido_clear_assert_state_locked d"
  obtain ret d0 where l: "abk_fido_load_store_locked K E f ?c = (ret, d0)" by fastforce
  have "store_ok (dv_store ?c)" using assms(1) by simp
  then have d0: "store_ok (dv_store d0)" using load_store_ok assms(3) l by blast
  have ap: "store_ok (dv_store d1)"
    if "ctap_approve E W cmd rp uv rk f x = (r, E1, f1, d1)" "dv_store x = dv_store d0" for cmd rp uv rk x r E1 f1 d1
    using auth_begin_store_ok [OF assms(2) _ that(1)] d0 that(2) by simp
  show ?thesis
    using l d0 ap ga_answer_store
    by (auto simp: abk_fido_get_assertion_resp_def Let_def split: prod.split option.split)
      (auto simp: keeps_store_ok_def)
qed

lemma get_next_assertion_ok:
  assumes "store_ok (dv_store d)" "others_ok W"
  shows "keeps_store_ok (abk_fido_get_next_assertion_resp K E W f d)"
proof -
  let ?rp = "strscpy (kl_stack K ABK_FIDO_MAX_RP_ID) (dv_assert_rp_id d)"
  obtain r E1 f1 d1 where ap: "ctap_approve E W ABK_FIDO_CTAP_GET_NEXT_ASSERTION ?rp False False f d = (r, E1, f1, d1)"
    by (metis prod_cases4)
  have "store_ok (dv_store d1)" using auth_begin_store_ok [OF assms(2,1) ap] .
  moreover obtain r2 f2 d2 where e: "abk_fido_encode_assertion_locked K E1 (dv_assert_slots d ! dv_assert_next d) ?rp
      (dv_assert_client_data_hash d) True 1 None f1 d1 = (r2, f2, d2)" by (metis prod_cases3)
  moreover from e have "dv_store d2 = counted (dv_store d1)" using encode_assertion_store by (metis snd_conv)
  ultimately show ?thesis
    using assms(1) ap
    by (cases r; cases r2) (simp_all add: abk_fido_get_next_assertion_resp_def Let_def keeps_store_ok_def)
qed

lemma reset_ok:
  assumes "store_ok (dv_store d)" "others_ok W" "env_sizes E"
  shows "keeps_store_ok (ctap_reset K E W f d)" "keeps_store_ok (ctap_selection E W f d)"
proof -
  obtain r E1 f1 d1 where ap: "ctap_approve E W ABK_FIDO_CTAP_RESET [] False False f d = (r, E1, f1, d1)"
    by (metis prod_cases4)
  have "store_ok (dv_store d1)" "store_ok (wiped_store E1)"
    using auth_begin_store_ok [OF assms(2,1) ap] approve_env_sizes [OF assms(3) ap] store_ok_zero
    by (simp_all add: wiped_store_def store_ok_def env_sizes_def)
  with ap show "keeps_store_ok (ctap_reset K E W f d)"
    by (cases r) (simp_all add: ctap_reset_def keeps_store_ok_def commit_store)
  obtain r E1 f1 d1 where ap: "ctap_approve E W ABK_FIDO_CTAP_SELECTION [] False False f d = (r, E1, f1, d1)"
    by (metis prod_cases4)
  from auth_begin_store_ok [OF assms(2,1) ap] ap show "keeps_store_ok (ctap_selection E W f d)"
    by (cases r) (simp_all add: ctap_selection_def keeps_store_ok_def)
qed


lemma with_request_ok:
  assumes "with_request E parsed command f d = Some res" "store_ok (dv_store d)"
    "\<And>req r. parsed = ROk req r \<Longrightarrow> keeps_store_ok (command req)"
  shows "keeps_store_ok res"
  using assms by (auto simp: with_request_def keeps_store_ok_def split: if_splits rd.splits)

lemma dispatch_store_ok:
  assumes "store_ok (dv_store d)" "others_ok W" "klib_sizes K" "env_sizes E" "length msg < 2 ^ 63"
    "abk_fido_cbor_dispatch K E W D msg f d = Some (r, f', d')"
  shows "store_ok (dv_store d')"
proof -
  let ?c = "abk_fido_clear_assert_state_locked d"
  have c: "store_ok (dv_store ?c)" using assms(1) by simp
  have "keeps_store_ok (r, f', d')"
  proof (cases "msg = []")
    case True
    with assms(1,6) show ?thesis by (auto simp: abk_fido_cbor_dispatch_def keeps_store_ok_def)
  next
    case False
    with assms(6) show ?thesis
    proof (cases rule: dispatch_cases)
      case info
      obtain ret d0 where "abk_fido_load_store_locked K E f ?c = (ret, d0)" by fastforce
      with info(2) load_store_ok [OF c assms(4)] show ?thesis
        by (cases ret) (auto simp: abk_fido_get_info_resp_def keeps_store_ok_def)
    next
      case make
      have "length (tl msg) < 2 ^ 63" using assms(5) by simp
      from make with_request_ok [OF make(2) c] make_credential_ok [OF c assms(2-4)]
        parse_make_cred_ok [OF this] show ?thesis by blast
    next
      case get
      from with_request_ok [OF get(2) assms(1)] get_assertion_ok [OF assms(1,2,4)] show ?thesis by blast
    next
      case get_next
      with get_next_assertion_ok [OF assms(1,2), of K E f] show ?thesis by simp
    next
      case reset
      with reset_ok(1) [OF c assms(2,4), of K f] show ?thesis by simp
    next
      case selection
      with reset_ok(2) [OF c assms(2,4), of f] show ?thesis by simp
    next
      case (other e)
      with c show ?thesis by (simp add: keeps_store_ok_def)
    qed
  qed
  then show ?thesis by (simp add: keeps_store_ok_def)
qed

text \<open>
  C7. The store is well formed after every message: whatever bytes arrive, whatever the store
  file holds and whichever allocations, reads, writes and library calls fail, dispatching a
  message keeps every array of the store at its length, every name terminated and every user
  handle within its array, provided the operations that run during a prompt do.
\<close>

theorem dispatch_keeps_store_ok:
  assumes "store_ok (dv_store d)" "others_ok W" "klib_sizes K" "env_sizes E" "length msg < 2 ^ 63"
    "abk_fido_cbor_dispatch K E W D msg f d = Some (r, f', d')"
  shows "store_ok (dv_store d')"
  using assms by (rule dispatch_store_ok)

theorem dispatch_keeps_store_ok_witness:
  "\<exists>r f' d'. abk_fido_cbor_dispatch sample_klib sample_env sample_others 0 [ABK_FIDO_CTAP_RESET] (Some [1, 2, 3])
      granted_device = Some (r, f', d') \<and> store_ok (dv_store d')"
proof -
  obtain r f' d' where
    "ctap_reset sample_klib sample_env sample_others (Some [1, 2, 3]) (abk_fido_clear_assert_state_locked granted_device)
      = (r, f', d')" by (metis prod_cases3)
  then have run: "abk_fido_cbor_dispatch sample_klib sample_env sample_others 0 [ABK_FIDO_CTAP_RESET] (Some [1, 2, 3])
      granted_device = Some (r, f', d')"
    by (simp add: abk_fido_cbor_dispatch_def ctap_codes)
  have "store_ok (dv_store granted_device)" using store_ok_zero by simp
  from dispatch_keeps_store_ok [OF this sample_others_ok sample_klib_sizes sample_env_sizes _ run] run
  show ?thesis by simp
qed

subsection \<open>Reset\<close>

text \<open>
  A reset can be undone by the next request: when the store was never loaded since boot (no
  getInfo or other loading command before) and the file cannot be opened for writing, an
  approved reset reports success, and the next command that loads the store brings every
  credential of the file back, with the old counter.
\<close>

theorem reset_undone_by_load:
  assumes "ctap_approve E W ABK_FIDO_CTAP_RESET [] False False f d = (None, E1, Some (store_blob K s), d1)"
    "\<not> dv_store_loaded d1" "env_persist E1" "env_cred_ok E1" "env_open_err E1 = Some e"
    "store_ok s" "env_ok E2"
  shows "\<exists>f' d' d''. ctap_reset K E W f d = (Inr [], f', d')
    \<and> abk_fido_load_store_locked K E2 f' d' = (None, d'')
    \<and> dv_store d'' = dropped_pin (store_canon s)"
proof -
  let ?d = "d1\<lparr>dv_store := wiped_store E1, dv_store_dirty := True\<rparr>"
  obtain f' d' where p: "abk_fido_maybe_persist_locked K E1 (Some (store_blob K s)) ?d = (None, f', d')"
    using persist_frame(1) by (metis prod_cases3)
  have w: "abk_fido_write_store_to_path_locked E1 bs (Some (store_blob K s))
      = (Some e, snprintf_to 96 (''persist open '' @ ABK_FIDO_STORE_PATH @ '' failed: '' @ err_str e),
         Some (store_blob K s))" for bs
    using assms(4,5) by (simp add: abk_fido_write_store_to_path_locked_def abk_fido_filp_open_kernel_def)
  have f': "f' = Some (store_blob K s)"
    using p assms(3) by (auto simp: abk_fido_maybe_persist_locked_def w split: if_splits)
  have "\<not> dv_store_loaded d'" using persist_frame(5) [OF p] assms(2) by simp
  from load_blob [OF assms(7,6) this, of K] obtain d'' where
    "abk_fido_load_store_locked K E2 f' d' = (None, d'')" "dv_store d'' = dropped_pin (store_canon s)"
    unfolding f' by blast
  moreover have "ctap_reset K E W f d = (Inr [], f', d')"
    using assms(1) p by (simp add: ctap_reset_def commit_and_persist_def)
  ultimately show ?thesis by blast
qed

theorem reset_undone_by_load_witness:
  "\<exists>f' d' d''. ctap_reset sample_klib (sample_env\<lparr>env_open_err := Some EIO\<rparr>) sample_others
        (Some (store_blob sample_klib (dv_store two_accounts))) (granted_device\<lparr>dv_store_loaded := False\<rparr>) = (Inr [], f', d')
    \<and> abk_fido_load_store_locked sample_klib sample_env f' d' = (None, d'')
    \<and> dv_store d'' = dropped_pin (store_canon (dv_store two_accounts))"
proof -
  let ?E = "sample_env\<lparr>env_open_err := Some EIO\<rparr>" and ?d = "granted_device\<lparr>dv_store_loaded := False\<rparr>"
  let ?f = "Some (store_blob sample_klib (dv_store two_accounts))"
  have g: "in_grant ?E ?d" "\<not> in_cooldown ?E ?d"
    using granted_device_simps(3,4) by (simp_all add: in_grant_def in_cooldown_def)
  obtain d1 where "ctap_approve ?E sample_others ABK_FIDO_CTAP_RESET [] False False ?f ?d = (None, ?E, ?f, d1)"
    and "\<not> dv_store_loaded d1"
    using approve_granted [OF g, of sample_others ABK_FIDO_CTAP_RESET "[]" False False ?f] by auto
  from reset_undone_by_load [OF this _ _ _ two_accounts_ok sample_env_ok] show ?thesis
    by (simp add: sample_env_def)
qed

end
