(* ===== verification/Fifo_Interface.thy ===== *)
theory Fifo_Interface
  imports Abk_Prelude
begin

section \<open>FIFO contracts and ring buffers\<close>

text \<open>
  The queues of the two drivers are ring buffers over fixed arrays.  This theory states what
  their clients rely on as locales: removing the oldest element (\<open>fifo\<close>), and two ways to
  add one, refusing it when the queue is full (\<open>bounded_fifo\<close>, the report queues of
  \<open>core.c\<close>) or giving up the oldest one (\<open>dropping_fifo\<close>, the backlogs of \<open>abkfidovhid.c\<close>).
  The client lemmas, about whole sequences of operations, are proved once here.  The list
  view of a ring (\<open>ring_list\<close>) and its lemmas serve every interpretation.
\<close>

subsection \<open>Rings\<close>

definition ring_list :: "'a list \<Rightarrow> nat \<Rightarrow> nat \<Rightarrow> nat \<Rightarrow> 'a list" where
  "ring_list items h n k = map (\<lambda>i. items ! ((h + i) mod n)) [0..<k]"

lemma length_ring_list [simp]: "length (ring_list items h n k) = k"
  by (simp add: ring_list_def)

lemma ring_list_0 [simp]: "ring_list items h n 0 = []"
  by (simp add: ring_list_def)

lemma ring_slots_distinct:
  fixes h :: nat
  assumes "i < k" "k < n"
  shows "(h + i) mod n \<noteq> (h + k) mod n"
proof
  assume "(h + i) mod n = (h + k) mod n"
  then have "n dvd (h + k) - (h + i)" using assms
    by (metis add_le_cancel_left less_imp_le mod_eq_dvd_iff_nat)
  then have "n dvd k - i" by simp
  moreover have "0 < k - i" "k - i < n" using assms by auto
  ultimately show False by (simp add: nat_dvd_not_less)
qed

lemma ring_list_push:
  assumes "k < n" "length items = n"
  shows "ring_list (items[(h + k) mod n := x]) h n (Suc k) = ring_list items h n k @ [x]"
proof -
  have "items[(h + k) mod n := x] ! ((h + i) mod n) = items ! ((h + i) mod n)" if "i < k" for i
    using ring_slots_distinct [OF that assms(1), of h] by simp
  moreover have "(h + k) mod n < length items" using assms by simp
  ultimately show ?thesis by (simp add: ring_list_def)
qed

lemma ring_list_pop:
  assumes "h < n"
  shows "ring_list items h n (Suc k) = items ! h # ring_list items ((h + 1) mod n) n k"
proof -
  have "((h + 1) mod n + i) mod n = (h + Suc i) mod n" for i
    by (simp add: mod_add_left_eq)
  then show ?thesis
    using assms by (simp add: ring_list_def upt_conv_Cons map_Suc_upt [symmetric] o_def
        del: upt_Suc)
qed

lemma ring_list_elem:
  "n = length items \<Longrightarrow> 0 < n \<Longrightarrow> x \<in> set (ring_list items h n k) \<Longrightarrow> x \<in> set items"
  by (auto simp: ring_list_def)

subsection \<open>Sequences of operations\<close>

text \<open>Adding a list of elements one by one, and taking out as many as asked for.\<close>

fun push_each :: "('a \<Rightarrow> 'q \<Rightarrow> bool \<times> 'q) \<Rightarrow> 'a list \<Rightarrow> 'q \<Rightarrow> 'q" where
  "push_each enq [] q = q"
| "push_each enq (x # xs) q = push_each enq xs (snd (enq x q))"

fun pop_each :: "('q \<Rightarrow> 'a option \<times> 'q) \<Rightarrow> nat \<Rightarrow> 'q \<Rightarrow> 'a list \<times> 'q" where
  "pop_each deq 0 q = ([], q)"
| "pop_each deq (Suc n) q =
     (case deq q of
        (None, q') \<Rightarrow> ([], q')
      | (Some x, q') \<Rightarrow> (case pop_each deq n q' of (xs, q'') \<Rightarrow> (x # xs, q'')))"

subsection \<open>Contracts\<close>

locale fifo =
  fixes contents :: "'q \<Rightarrow> 'a list"
    and good :: "'q \<Rightarrow> bool"
    and deq :: "'q \<Rightarrow> 'a option \<times> 'q"
  assumes deq_empty: "good q \<Longrightarrow> contents q = [] \<Longrightarrow> deq q = (None, q)"
    and deq_first: "good q \<Longrightarrow> contents q = x # xs \<Longrightarrow> fst (deq q) = Some x"
    and deq_rest: "good q \<Longrightarrow> contents q = x # xs \<Longrightarrow> contents (snd (deq q)) = xs"
    and deq_good: "good q \<Longrightarrow> good (snd (deq q))"
begin

lemma deq_cases:
  assumes "good q"
  obtains (empty) "contents q = []" "deq q = (None, q)"
  | (elem) x xs q' where "contents q = x # xs" "deq q = (Some x, q')" "contents q' = xs" "good q'"
proof (cases "contents q")
  case Nil
  with deq_empty [OF assms] show ?thesis by (auto intro: empty)
next
  case (Cons x xs)
  with assms have "deq q = (Some x, snd (deq q))"
    by (metis deq_first prod.collapse)
  with Cons deq_rest [OF assms Cons] deq_good [OF assms] show ?thesis by (blast intro: elem)
qed

lemma pop_each_contents:
  "good q \<Longrightarrow> fst (pop_each deq n q) = take n (contents q)
     \<and> contents (snd (pop_each deq n q)) = drop n (contents q) \<and> good (snd (pop_each deq n q))"
proof (induction n arbitrary: q)
  case 0
  then show ?case by simp
next
  case (Suc n)
  from Suc.prems show ?case
  proof (cases rule: deq_cases)
    case empty
    with Suc.prems show ?thesis by simp
  next
    case (elem x xs q')
    with Suc.IH [of q'] show ?thesis by (auto split: prod.splits)
  qed
qed

end

locale bounded_fifo = fifo contents good deq
  for contents :: "'q \<Rightarrow> 'a list" and good and deq +
  fixes enq :: "'a \<Rightarrow> 'q \<Rightarrow> bool \<times> 'q"
    and elem_ok :: "'a \<Rightarrow> bool"
    and cap :: nat
  assumes enq_room: "good q \<Longrightarrow> elem_ok x \<Longrightarrow> length (contents q) < cap \<Longrightarrow>
      fst (enq x q) \<and> contents (snd (enq x q)) = contents q @ [x]"
    and enq_full: "good q \<Longrightarrow> elem_ok x \<Longrightarrow> cap \<le> length (contents q) \<Longrightarrow> enq x q = (False, q)"
    and enq_good: "good q \<Longrightarrow> elem_ok x \<Longrightarrow> good (snd (enq x q))"
    and within_cap: "good q \<Longrightarrow> length (contents q) \<le> cap"
begin

lemma enq_contents:
  "good q \<Longrightarrow> elem_ok x \<Longrightarrow> contents (snd (enq x q)) = take cap (contents q @ [x])"
  by (cases "length (contents q) < cap") (auto simp: enq_room enq_full within_cap not_less)

lemma push_each_contents:
  "good q \<Longrightarrow> list_all elem_ok xs \<Longrightarrow>
     contents (push_each enq xs q) = take cap (contents q @ xs) \<and> good (push_each enq xs q)"
proof (induction xs arbitrary: q)
  case Nil
  then show ?case by (simp add: within_cap)
next
  case (Cons x xs)
  let ?q = "snd (enq x q)"
  from Cons.prems have good: "good ?q" by (simp add: enq_good)
  with Cons have *: "contents (push_each enq xs ?q) = take cap (contents ?q @ xs)
      \<and> good (push_each enq xs ?q)"
    by simp
  have "take cap (contents ?q @ xs) = take cap (contents q @ x # xs)"
  proof (cases "length (contents q) < cap")
    case True
    with Cons.prems show ?thesis by (simp add: enq_room)
  next
    case False
    with Cons.prems show ?thesis by (simp add: enq_full not_less)
  qed
  with * show ?case by simp
qed

text \<open>What fits is delivered, in order, and nothing else.\<close>

lemma push_then_pop:
  assumes "good q" "list_all elem_ok xs" "contents q = []" "length xs \<le> cap"
  shows "fst (pop_each deq (length xs) (push_each enq xs q)) = xs"
  using push_each_contents [OF assms(1,2)] pop_each_contents [of "push_each enq xs q" "length xs"]
    assms(3,4) by simp

end

locale dropping_fifo = fifo contents good deq
  for contents :: "'q \<Rightarrow> 'a list" and good and deq +
  fixes enq :: "'a \<Rightarrow> 'q \<Rightarrow> bool \<times> 'q"
    and elem_ok :: "'a \<Rightarrow> bool"
    and cap :: nat
  assumes enq_room: "good q \<Longrightarrow> elem_ok x \<Longrightarrow> length (contents q) < cap \<Longrightarrow>
      contents (snd (enq x q)) = contents q @ [x]"
    and enq_full: "good q \<Longrightarrow> elem_ok x \<Longrightarrow> length (contents q) = cap \<Longrightarrow>
      contents (snd (enq x q)) = tl (contents q) @ [x]"
    and enq_good: "good q \<Longrightarrow> elem_ok x \<Longrightarrow> good (snd (enq x q))"
    and within_cap: "good q \<Longrightarrow> length (contents q) \<le> cap"
    and cap_pos: "0 < cap"
begin

lemma enq_contents:
  assumes "good q" "elem_ok x"
  shows "contents (snd (enq x q)) =
    drop (Suc (length (contents q)) - cap) (contents q @ [x])"
proof (cases "length (contents q) < cap")
  case True
  with assms show ?thesis by (simp add: enq_room)
next
  case False
  with within_cap [OF assms(1)] have eq: "length (contents q) = cap" by simp
  with cap_pos have "contents q \<noteq> []" by auto
  with assms eq show ?thesis by (cases "contents q") (simp_all add: enq_full)
qed

text \<open>After any burst the queue holds the newest elements, at most \<open>cap\<close> of them, in order.\<close>

lemma push_each_contents:
  "good q \<Longrightarrow> list_all elem_ok xs \<Longrightarrow>
     contents (push_each enq xs q) =
       drop (length (contents q) + length xs - cap) (contents q @ xs)
     \<and> good (push_each enq xs q)"
proof (induction xs arbitrary: q)
  case Nil
  then show ?case using within_cap [of q] by simp
next
  case (Cons x xs)
  let ?q = "snd (enq x q)"
  from Cons.prems have good: "good ?q" by (simp add: enq_good)
  with Cons have *: "contents (push_each enq xs ?q) =
      drop (length (contents ?q) + length xs - cap) (contents ?q @ xs)
      \<and> good (push_each enq xs ?q)"
    by simp
  have "drop (length (contents ?q) + length xs - cap) (contents ?q @ xs)
      = drop (length (contents q) + length (x # xs) - cap) (contents q @ x # xs)"
  proof (cases "length (contents q) < cap")
    case True
    with Cons.prems show ?thesis by (simp add: enq_room)
  next
    case False
    with within_cap Cons.prems have eq: "length (contents q) = cap" by (simp add: le_antisym)
    with cap_pos obtain y ys where c: "contents q = y # ys" by (cases "contents q") auto
    with Cons.prems eq have "contents ?q = ys @ [x]" by (simp add: enq_full)
    with c eq show ?thesis by simp
  qed
  with * show ?case by simp
qed

end

end
