(* ===== verification/Report_Queue.thy ===== *)
theory Report_Queue
  imports Fifo_Interface
begin

section \<open>The report queues (\<open>struct abk_fido_queue\<close>)\<close>

text \<open>
  The bounded queues of 64-byte HID reports between the USB endpoints, the character devices
  and the CTAP worker.  \<open>abk_fido_queue_push\<close> refuses a report when 32 are waiting;
  \<open>abk_fido_queue_pop\<close> hands out the oldest.  Each operation holds the queue's spin lock for
  all it does, so it is one step here; the wake-up of sleeping readers changes no state.
\<close>

definition ABK_FIDO_REPORT_LEN :: nat where
  "ABK_FIDO_REPORT_LEN = 64"

definition ABK_FIDO_QUEUE_DEPTH :: nat where
  "ABK_FIDO_QUEUE_DEPTH = 32"

record abk_fido_report =
  rep_len :: nat
  rep_data :: "u8 list"

record abk_fido_queue =
  q_head :: nat
  q_tail :: nat
  q_count :: nat
  q_items :: "abk_fido_report list"

definition zero_report :: abk_fido_report where
  "zero_report = \<lparr>rep_len = 0, rep_data = replicate ABK_FIDO_REPORT_LEN 0\<rparr>"

text \<open>\<open>abk_fido_queue_init\<close> resets the indices and leaves the slots alone.\<close>

definition abk_fido_queue_init :: "abk_fido_queue \<Rightarrow> abk_fido_queue" where
  "abk_fido_queue_init q = q\<lparr>q_head := 0, q_tail := 0, q_count := 0\<rparr>"

text \<open>A queue in freshly zeroed memory (\<open>kzalloc\<close> or a static object), then initialised.\<close>

definition new_queue :: abk_fido_queue where
  "new_queue = abk_fido_queue_init
     \<lparr>q_head = 0, q_tail = 0, q_count = 0, q_items = replicate ABK_FIDO_QUEUE_DEPTH zero_report\<rparr>"

text \<open>\<open>data\<close> is \<open>None\<close> for a null pointer; \<open>len\<close> bytes are copied from it.\<close>

definition abk_fido_queue_push ::
    "abk_fido_queue \<Rightarrow> u8 list option \<Rightarrow> nat \<Rightarrow> bool \<times> abk_fido_queue" where
  "abk_fido_queue_push q data len =
     (case data of
        None \<Rightarrow> (False, q)
      | Some bytes \<Rightarrow>
          if len = 0 \<or> ABK_FIDO_REPORT_LEN < len then (False, q)
          else if q_count q = ABK_FIDO_QUEUE_DEPTH then (False, q)
          else
            (let slot = \<lparr>rep_len = len,
                   rep_data = overwrite 0 (take len bytes) (replicate ABK_FIDO_REPORT_LEN 0)\<rparr>
             in (True, q\<lparr>q_items := (q_items q)[q_tail q := slot],
                         q_tail := (q_tail q + 1) mod ABK_FIDO_QUEUE_DEPTH,
                         q_count := q_count q + 1\<rparr>)))"

definition abk_fido_queue_pop ::
    "abk_fido_queue \<Rightarrow> abk_fido_report option \<times> abk_fido_queue" where
  "abk_fido_queue_pop q =
     (if q_count q = 0 then (None, q)
      else (Some (q_items q ! q_head q),
            q\<lparr>q_head := (q_head q + 1) mod ABK_FIDO_QUEUE_DEPTH, q_count := q_count q - 1\<rparr>))"

definition abk_fido_queue_empty :: "abk_fido_queue \<Rightarrow> bool" where
  "abk_fido_queue_empty q \<longleftrightarrow> q_count q = 0"

lemmas queue_consts = ABK_FIDO_REPORT_LEN_def ABK_FIDO_QUEUE_DEPTH_def

subsection \<open>The list a queue holds\<close>

definition queue_list :: "abk_fido_queue \<Rightarrow> abk_fido_report list" where
  "queue_list q = ring_list (q_items q) (q_head q) ABK_FIDO_QUEUE_DEPTH (q_count q)"

definition queue_ok :: "abk_fido_queue \<Rightarrow> bool" where
  "queue_ok q \<longleftrightarrow> length (q_items q) = ABK_FIDO_QUEUE_DEPTH \<and> q_head q < ABK_FIDO_QUEUE_DEPTH
     \<and> q_count q \<le> ABK_FIDO_QUEUE_DEPTH
     \<and> q_tail q = (q_head q + q_count q) mod ABK_FIDO_QUEUE_DEPTH
     \<and> list_all (\<lambda>r. length (rep_data r) = ABK_FIDO_REPORT_LEN) (q_items q)"

definition full_report :: "u8 list \<Rightarrow> abk_fido_report" where
  "full_report p = \<lparr>rep_len = ABK_FIDO_REPORT_LEN, rep_data = p\<rparr>"

definition report_ok :: "abk_fido_report \<Rightarrow> bool" where
  "report_ok r \<longleftrightarrow> rep_len r = ABK_FIDO_REPORT_LEN \<and> length (rep_data r) = ABK_FIDO_REPORT_LEN"

definition push_report :: "abk_fido_report \<Rightarrow> abk_fido_queue \<Rightarrow> bool \<times> abk_fido_queue" where
  "push_report r q = abk_fido_queue_push q (Some (rep_data r)) (rep_len r)"

lemma queue_ok_init [wf_intros]: "queue_ok new_queue"
  by (simp add: queue_ok_def new_queue_def abk_fido_queue_init_def queue_consts zero_report_def
      list_all_length)

lemma queue_list_init [simp]: "queue_list new_queue = []"
  by (simp add: queue_list_def new_queue_def abk_fido_queue_init_def)

lemma length_queue_list [simp]: "length (queue_list q) = q_count q"
  by (simp add: queue_list_def)

lemma queue_list_Nil_iff: "queue_list q = [] \<longleftrightarrow> q_count q = 0"
  by (metis length_0_conv length_queue_list)

lemma queue_push_ok [wf_intros]:
  assumes "queue_ok q" "\<And>bytes. data = Some bytes \<Longrightarrow> len \<le> length bytes"
  shows "queue_ok (snd (abk_fido_queue_push q data len))"
proof (cases data)
  case None
  with assms show ?thesis by (simp add: abk_fido_queue_push_def)
next
  case (Some bytes)
  show ?thesis
  proof (cases "len = 0 \<or> ABK_FIDO_REPORT_LEN < len \<or> q_count q = ABK_FIDO_QUEUE_DEPTH")
    case True
    with assms(1) Some show ?thesis by (auto simp: abk_fido_queue_push_def)
  next
    case False
    with assms(1) Some assms(2) [OF Some] show ?thesis
      by (auto simp: abk_fido_queue_push_def queue_ok_def queue_consts mod_simps
          list_all_length nth_list_update)
  qed
qed

lemma queue_pop_ok [wf_intros]:
  assumes "queue_ok q"
  shows "queue_ok (snd (abk_fido_queue_pop q))"
proof (cases "q_count q")
  case 0
  with assms show ?thesis by (simp add: abk_fido_queue_pop_def)
next
  case (Suc n)
  then have "(Suc (q_head q) mod 32 + n) mod 32 = (q_head q + q_count q) mod 32"
    by (simp add: mod_simps)
  with assms Suc show ?thesis
    by (simp add: abk_fido_queue_pop_def queue_ok_def queue_consts)
qed

lemma queue_list_push:
  assumes "queue_ok q" "report_ok r" "q_count q < ABK_FIDO_QUEUE_DEPTH"
  shows "fst (push_report r q) \<and> queue_list (snd (push_report r q)) = queue_list q @ [r]"
proof -
  have "overwrite 0 (take (rep_len r) (rep_data r)) (replicate ABK_FIDO_REPORT_LEN 0) = rep_data r"
    using assms(2) by (simp add: report_ok_def overwrite_def)
  then have slot: "\<lparr>rep_len = rep_len r, rep_data =
      overwrite 0 (take (rep_len r) (rep_data r)) (replicate ABK_FIDO_REPORT_LEN 0)\<rparr> = r"
    by simp
  show ?thesis
    using assms ring_list_push [of "q_count q" 32 "q_items q" "q_head q" r] slot
    by (simp add: push_report_def abk_fido_queue_push_def queue_list_def queue_ok_def
        report_ok_def queue_consts)
qed

lemma queue_list_full:
  "queue_ok q \<Longrightarrow> q_count q = ABK_FIDO_QUEUE_DEPTH \<Longrightarrow> push_report r q = (False, q)"
  by (simp add: push_report_def abk_fido_queue_push_def)

lemma queue_list_pop:
  assumes "queue_ok q" "q_count q = Suc n"
  shows "queue_list q = q_items q ! q_head q # queue_list (snd (abk_fido_queue_pop q))"
  using assms ring_list_pop [of "q_head q" 32 "q_items q" n]
  by (simp add: queue_list_def abk_fido_queue_pop_def queue_ok_def queue_consts)

lemma queue_pop_cons:
  assumes "queue_ok q" "queue_list q = r # rs"
  shows "abk_fido_queue_pop q = (Some r, snd (abk_fido_queue_pop q))"
    and "queue_list (snd (abk_fido_queue_pop q)) = rs"
proof -
  from assms(2) obtain n where n: "q_count q = Suc n"
    by (metis length_Cons length_queue_list)
  have eq: "q_items q ! q_head q # queue_list (snd (abk_fido_queue_pop q)) = r # rs"
    using queue_list_pop [OF assms(1) n] assms(2) by simp
  from eq n show "abk_fido_queue_pop q = (Some r, snd (abk_fido_queue_pop q))"
    by (simp add: abk_fido_queue_pop_def)
  from eq show "queue_list (snd (abk_fido_queue_pop q)) = rs" by simp
qed

interpretation rq: bounded_fifo queue_list queue_ok abk_fido_queue_pop push_report report_ok
  ABK_FIDO_QUEUE_DEPTH
proof (unfold_locales, goal_cases)
  case (1 q)
  then show ?case by (simp add: queue_list_Nil_iff abk_fido_queue_pop_def)
next
  case (2 q x xs)
  then show ?case using queue_pop_cons(1) by (metis fst_conv)
next
  case (3 q x xs)
  then show ?case by (rule queue_pop_cons(2))
next
  case (4 q)
  then show ?case by (rule queue_pop_ok)
next
  case (5 q x)
  then show ?case by (simp add: queue_list_push)
next
  case (6 q x)
  then have "q_count q = ABK_FIDO_QUEUE_DEPTH" by (simp add: queue_ok_def)
  with 6 show ?case by (simp add: queue_list_full)
next
  case (7 q x)
  then show ?case
    unfolding push_report_def by (auto intro!: queue_push_ok simp: report_ok_def)
next
  case (8 q)
  then show ?case by (simp add: queue_ok_def)
qed

subsection \<open>What the queue guarantees\<close>

text \<open>
  C37. The report queue delivers in order and drops only what does not fit: after a burst of
  reports it holds what it held before followed by the new ones, cut at 32, and popping \<open>n\<close>
  times hands out the first \<open>n\<close> of them in that order and leaves the rest.
\<close>

theorem report_queue_fifo:
  assumes "queue_ok q" "list_all report_ok rs"
  shows "queue_list (push_each push_report rs q) = take ABK_FIDO_QUEUE_DEPTH (queue_list q @ rs)
    \<and> queue_ok (push_each push_report rs q)
    \<and> fst (pop_each abk_fido_queue_pop n (push_each push_report rs q)) =
        take n (take ABK_FIDO_QUEUE_DEPTH (queue_list q @ rs))
    \<and> queue_list (snd (pop_each abk_fido_queue_pop n (push_each push_report rs q))) =
        drop n (take ABK_FIDO_QUEUE_DEPTH (queue_list q @ rs))"
  using rq.push_each_contents [OF assms] rq.pop_each_contents [of "push_each push_report rs q" n]
  by simp

theorem report_queue_fifo_witness:
  "fst (pop_each abk_fido_queue_pop 40
     (push_each push_report (replicate 40 (full_report (replicate 64 7))) new_queue))
   = replicate 32 (full_report (replicate 64 7))"
proof -
  have "report_ok (full_report (replicate 64 7))"
    by (simp add: report_ok_def full_report_def queue_consts)
  then have "list_all report_ok (replicate 40 (full_report (replicate 64 7)))"
    by (simp add: list_all_length)
  from report_queue_fifo [OF queue_ok_init this, of 40] show ?thesis
    by (simp add: queue_consts)
qed

end
