(* ===== verification/Hid_Transport.thy ===== *)
theory Hid_Transport
  imports Report_Queue Device_State
begin

unbundle bit_operations_syntax

section \<open>A transport and its packets (\<open>struct abk_fido_usb\<close>)\<close>

text \<open>
  One transport: the USB gadget function or the character device for local consumers.  A
  message is cut into 64-byte reports that go through \<open>tx_packets\<close>; with the gadget,
  \<open>abk_fido_tx_kick\<close> hands one at a time to the controller and \<open>abk_fido_tx_complete\<close> follows
  up.  An endpoint request is its buffer (\<open>None\<close> for a null pointer); \<open>us_in_flight\<close> collects
  what was handed to the controller on the IN endpoint, oldest first.  The work item, the
  locks, the misc device and the pointers of the USB core are not state here.
\<close>

record abk_fido_usb =
  us_in_ep :: bool
  us_out_ep :: bool
  us_in_req :: "u8 list option"
  us_out_req :: "u8 list option list"
  us_tx_pending :: bool
  us_online :: bool
  us_rx_packets :: abk_fido_queue
  us_debug_rx :: abk_fido_queue
  us_tx_packets :: abk_fido_queue
  us_misc_registered :: bool
  us_misc_name :: string
  us_idle :: u8
  us_protocol :: u8
  us_userspace :: bool
  us_in_flight :: "u8 list list"

text \<open>\<open>abk_fido_user_usb\<close> after module initialisation.\<close>

definition abk_fido_user_usb :: abk_fido_usb where
  "abk_fido_user_usb = \<lparr>us_in_ep = False, us_out_ep = False, us_in_req = None, us_out_req = replicate 4 None,
     us_tx_pending = False, us_online = True, us_rx_packets = new_queue, us_debug_rx = new_queue,
     us_tx_packets = new_queue, us_misc_registered = False,
     us_misc_name = ''abk_fido_ctap'', us_idle = 0, us_protocol = 0,
     us_userspace = True, us_in_flight = []\<rparr>"

text \<open>
  What a transport meets during one operation: the result of queueing a transfer on the IN
  endpoint; the effect of dequeueing the pending IN transfer (its completion may run within
  the call); what keepalives, completions and readers do to it while a CTAP command runs; and
  whether the copy of a complete message and the buffer of a reply can be allocated.
\<close>

record usb_env =
  ue_queue_in :: ret
  ue_dequeue :: "abk_fido_usb \<Rightarrow> abk_fido_usb"
  ue_during :: "abk_fido_usb \<Rightarrow> abk_fido_usb"
  ue_msg_ok :: bool
  ue_reply_ok :: bool

text \<open>An instance for examples: nothing fails and nobody interferes.\<close>

definition sample_usb_env :: usb_env where
  "sample_usb_env = \<lparr>ue_queue_in = None, ue_dequeue = (\<lambda>u. u), ue_during = (\<lambda>u. u),
     ue_msg_ok = True, ue_reply_ok = True\<rparr>"

definition ABK_FIDO_HID_PING :: u8 where "ABK_FIDO_HID_PING = 0x01"
definition ABK_FIDO_HID_INIT :: u8 where "ABK_FIDO_HID_INIT = 0x06"
definition ABK_FIDO_HID_WINK :: u8 where "ABK_FIDO_HID_WINK = 0x08"
definition ABK_FIDO_HID_CBOR :: u8 where "ABK_FIDO_HID_CBOR = 0x10"
definition ABK_FIDO_HID_CANCEL :: u8 where "ABK_FIDO_HID_CANCEL = 0x11"
definition ABK_FIDO_HID_ERROR :: u8 where "ABK_FIDO_HID_ERROR = 0x3f"
definition ABK_FIDO_HID_KEEPALIVE :: u8 where "ABK_FIDO_HID_KEEPALIVE = 0x3b"
definition ABK_FIDO_CID_BROADCAST :: u32 where "ABK_FIDO_CID_BROADCAST = 0xffffffff"

lemmas hid_codes = ABK_FIDO_HID_PING_def ABK_FIDO_HID_INIT_def ABK_FIDO_HID_WINK_def
  ABK_FIDO_HID_CBOR_def ABK_FIDO_HID_CANCEL_def ABK_FIDO_HID_ERROR_def ABK_FIDO_HID_KEEPALIVE_def

subsection \<open>Cutting a message into reports\<close>

text \<open>\<open>memset\<close> and the stores into \<open>packet[64]\<close>.\<close>

definition packet_of :: "u8 list \<Rightarrow> u8 list" where
  "packet_of bs = overwrite 0 bs (replicate ABK_FIDO_REPORT_LEN 0)"

definition init_packet :: "u32 \<Rightarrow> u8 \<Rightarrow> u8 list \<Rightarrow> u8 list" where
  "init_packet cid cmd payload =
     packet_of (be32_bytes cid @ [cmd OR 0x80] @ be_bytes 2 (length payload)
       @ take (ABK_FIDO_REPORT_LEN - 7) payload)"

function cont_packets :: "u32 \<Rightarrow> u8 \<Rightarrow> u8 list \<Rightarrow> u8 list list" where
  "cont_packets cid seq rest =
     (if rest = [] then []
      else packet_of (be32_bytes cid @ [seq] @ take (ABK_FIDO_REPORT_LEN - 5) rest)
        # cont_packets cid (seq + 1) (drop (ABK_FIDO_REPORT_LEN - 5) rest))"
  by pat_completeness auto
termination by (relation "measure (\<lambda>(cid, seq, rest). length rest)") (auto simp: ABK_FIDO_REPORT_LEN_def)

declare cont_packets.simps [simp del]

definition hid_packets :: "u32 \<Rightarrow> u8 \<Rightarrow> u8 list \<Rightarrow> u8 list list" where
  "hid_packets cid cmd payload =
     init_packet cid cmd payload # cont_packets cid 0 (drop (ABK_FIDO_REPORT_LEN - 7) payload)"

subsection \<open>The transmit side\<close>

text \<open>
  The order of the code: the report is taken from the queue first, and put back at its end
  when a transfer turns out to be pending.
\<close>

definition abk_fido_tx_kick :: "usb_env \<Rightarrow> abk_fido_usb \<Rightarrow> abk_fido_usb" where
  "abk_fido_tx_kick U usb =
     (if \<not> us_online usb \<or> us_in_req usb = None then usb
      else
        (case abk_fido_queue_pop (us_tx_packets usb) of
           (None, q) \<Rightarrow> usb\<lparr>us_tx_packets := q\<rparr>
         | (Some report, q) \<Rightarrow>
             (let usb = usb\<lparr>us_tx_packets := q\<rparr> in
              if us_tx_pending usb then
                usb\<lparr>us_tx_packets := snd (abk_fido_queue_push (us_tx_packets usb) (Some (rep_data report)) (rep_len report))\<rparr>
              else
                (let usb = usb\<lparr>us_tx_pending := True,
                       us_in_req := Some (overwrite 0 (take (rep_len report) (rep_data report))
                         (replicate ABK_FIDO_REPORT_LEN 0))\<rparr>
                 in case ue_queue_in U of
                      Some e \<Rightarrow> usb\<lparr>us_tx_pending := False\<rparr>
                    | None \<Rightarrow> usb\<lparr>us_in_flight := us_in_flight usb @ [the (us_in_req usb)]\<rparr>))))"

definition abk_fido_tx_complete :: "usb_env \<Rightarrow> abk_fido_usb \<Rightarrow> abk_fido_usb" where
  "abk_fido_tx_complete U usb = abk_fido_tx_kick U (usb\<lparr>us_tx_pending := False\<rparr>)"

definition push_tx :: "u8 list \<Rightarrow> abk_fido_usb \<Rightarrow> abk_fido_usb" where
  "push_tx packet usb =
     usb\<lparr>us_tx_packets := snd (abk_fido_queue_push (us_tx_packets usb) (Some packet) ABK_FIDO_REPORT_LEN)\<rparr>"

definition abk_fido_send_hid_message ::
    "usb_env \<Rightarrow> u32 \<Rightarrow> u8 \<Rightarrow> u8 list \<Rightarrow> abk_fido_usb \<Rightarrow> abk_fido_usb" where
  "abk_fido_send_hid_message U cid cmd payload usb =
     (let usb = fold push_tx (hid_packets cid cmd payload) usb
      in if us_userspace usb then usb else abk_fido_tx_kick U usb)"

definition abk_fido_send_hid_error :: "usb_env \<Rightarrow> u32 \<Rightarrow> u8 \<Rightarrow> abk_fido_usb \<Rightarrow> abk_fido_usb" where
  "abk_fido_send_hid_error U cid err usb = abk_fido_send_hid_message U cid ABK_FIDO_HID_ERROR [err] usb"

definition ABK_FIDO_HID_ERR_OTHER :: u8 where "ABK_FIDO_HID_ERR_OTHER = 0x7f"

definition abk_fido_send_cbor_result ::
    "usb_env \<Rightarrow> u32 \<Rightarrow> u8 \<Rightarrow> u8 list \<Rightarrow> abk_fido_usb \<Rightarrow> abk_fido_usb" where
  "abk_fido_send_cbor_result U cid status payload usb =
     (if \<not> ue_reply_ok U then abk_fido_send_hid_error U cid ABK_FIDO_HID_ERR_OTHER usb
      else abk_fido_send_hid_message U cid ABK_FIDO_HID_CBOR (status # payload) usb)"

subsection \<open>The receive side and the character devices\<close>

text \<open>\<open>status_ok\<close>: the transfer ended with status 0; \<open>buf\<close> holds the \<open>actual\<close> bytes.\<close>

definition abk_fido_out_complete :: "bool \<Rightarrow> nat \<Rightarrow> u8 list \<Rightarrow> abk_fido_usb \<Rightarrow> abk_fido_usb" where
  "abk_fido_out_complete status_ok actual buf usb =
     (if status_ok \<and> actual = ABK_FIDO_REPORT_LEN then
        usb\<lparr>us_debug_rx := snd (abk_fido_queue_push (us_debug_rx usb) (Some buf) actual),
            us_rx_packets := snd (abk_fido_queue_push (us_rx_packets usb) (Some buf) actual)\<rparr>
      else usb)"

text \<open>
  A reader that finds its queue empty sleeps unless it asked not to: \<open>wait\<close> gives the queue
  when it wakes up, or \<open>None\<close> when a signal ends the wait.  \<open>copy_ok\<close>: the user's buffer can
  be written.  A write takes the bytes the user's buffer holds (\<open>None\<close>: it cannot be read).
\<close>

definition read_report ::
    "(abk_fido_queue \<Rightarrow> abk_fido_queue option) \<Rightarrow> bool \<Rightarrow> bool \<Rightarrow> nat \<Rightarrow> abk_fido_queue
      \<Rightarrow> (errno + u8 list) \<times> abk_fido_queue" where
  "read_report wait nonblock copy_ok count q =
     (let deliver = (\<lambda>r q. (if copy_ok then Inr (take (rep_len r) (rep_data r)) else Inl EFAULT, q))
      in if count < ABK_FIDO_REPORT_LEN then (Inl EINVAL, q)
         else case abk_fido_queue_pop q of
                (Some r, q) \<Rightarrow> deliver r q
              | (None, q) \<Rightarrow>
                  if nonblock then (Inl EAGAIN, q)
                  else case wait q of
                         None \<Rightarrow> (Inl ERESTARTSYS, q)
                       | Some q \<Rightarrow>
                           (case abk_fido_queue_pop q of
                              (Some r, q) \<Rightarrow> deliver r q
                            | (None, q) \<Rightarrow> (Inl EAGAIN, q)))"

definition abk_fido_misc_read ::
    "(abk_fido_queue \<Rightarrow> abk_fido_queue option) \<Rightarrow> bool \<Rightarrow> bool \<Rightarrow> nat \<Rightarrow> abk_fido_usb
      \<Rightarrow> (errno + u8 list) \<times> abk_fido_usb" where
  "abk_fido_misc_read wait nonblock copy_ok count usb =
     (case read_report wait nonblock copy_ok count (us_debug_rx usb) of
        (r, q) \<Rightarrow> (r, usb\<lparr>us_debug_rx := q\<rparr>))"

definition abk_fido_user_read ::
    "(abk_fido_queue \<Rightarrow> abk_fido_queue option) \<Rightarrow> bool \<Rightarrow> bool \<Rightarrow> nat \<Rightarrow> abk_fido_usb
      \<Rightarrow> (errno + u8 list) \<times> abk_fido_usb" where
  "abk_fido_user_read wait nonblock copy_ok count usb =
     (case read_report wait nonblock copy_ok count (us_tx_packets usb) of
        (r, q) \<Rightarrow> (r, usb\<lparr>us_tx_packets := q\<rparr>))"

definition abk_fido_misc_write ::
    "usb_env \<Rightarrow> u8 list option \<Rightarrow> nat \<Rightarrow> abk_fido_usb \<Rightarrow> (errno + nat) \<times> abk_fido_usb" where
  "abk_fido_misc_write U packet count usb =
     (if count \<noteq> ABK_FIDO_REPORT_LEN then (Inl EINVAL, usb)
      else case packet of
             None \<Rightarrow> (Inl EFAULT, usb)
           | Some bs \<Rightarrow>
               (case abk_fido_queue_push (us_tx_packets usb) (Some bs) count of
                  (ok, q) \<Rightarrow>
                    if \<not> ok then (Inl EBUSY, usb\<lparr>us_tx_packets := q\<rparr>)
                    else (Inr count, abk_fido_tx_kick U (usb\<lparr>us_tx_packets := q\<rparr>))))"

definition abk_fido_user_write ::
    "u8 list option \<Rightarrow> nat \<Rightarrow> abk_fido_usb \<Rightarrow> (errno + nat) \<times> abk_fido_usb" where
  "abk_fido_user_write packet count usb =
     (if count \<noteq> ABK_FIDO_REPORT_LEN then (Inl EINVAL, usb)
      else case packet of
             None \<Rightarrow> (Inl EFAULT, usb)
           | Some bs \<Rightarrow>
               (case abk_fido_queue_push (us_rx_packets usb) (Some bs) count of
                  (ok, q) \<Rightarrow>
                    (if ok then Inr count else Inl EBUSY, usb\<lparr>us_rx_packets := q\<rparr>)))"

text \<open>The poll masks: always writable, readable while a report waits.\<close>

datatype poll_bit = POLL_OUT | POLL_IN

definition abk_fido_misc_poll :: "abk_fido_usb \<Rightarrow> poll_bit list" where
  "abk_fido_misc_poll usb =
     POLL_OUT # (if \<not> abk_fido_queue_empty (us_debug_rx usb) then [POLL_IN] else [])"

definition abk_fido_user_poll :: "abk_fido_usb \<Rightarrow> poll_bit list" where
  "abk_fido_user_poll usb =
     POLL_OUT # (if \<not> abk_fido_queue_empty (us_tx_packets usb) then [POLL_IN] else [])"

subsection \<open>Keepalives\<close>

text \<open>
  The delayed work that runs while an approval is awaited.  \<open>usbs\<close> gives the two transports;
  the pointer \<open>auth_usb\<close> picks one.
\<close>

definition ABK_FIDO_KEEPALIVE_STATUS_PROCESSING :: u8 where
  "ABK_FIDO_KEEPALIVE_STATUS_PROCESSING = 1"

definition abk_fido_auth_keepalive_worker ::
    "usb_env \<Rightarrow> (usb_ref \<Rightarrow> abk_fido_usb) \<Rightarrow> abk_fido_device \<Rightarrow> (usb_ref \<Rightarrow> abk_fido_usb) \<times> abk_fido_device" where
  "abk_fido_auth_keepalive_worker U usbs d =
     (let d = d\<lparr>dv_auth_keepalive_armed := False\<rparr>;
          pending = dv_auth_pending d \<and> \<not> dv_auth_decided d
      in case dv_auth_usb d of
           None \<Rightarrow> (usbs, d)
         | Some r \<Rightarrow>
             if \<not> pending then (usbs, d)
             else (usbs(r := abk_fido_send_hid_message U (dv_auth_cid d) ABK_FIDO_HID_KEEPALIVE
                     [ABK_FIDO_KEEPALIVE_STATUS_PROCESSING] (usbs r)),
                   d\<lparr>dv_auth_keepalive_armed := True\<rparr>))"

subsection \<open>What the transmit queue holds after a message\<close>

lemma packet_of_length [simp]: "length bs \<le> ABK_FIDO_REPORT_LEN \<Longrightarrow> length (packet_of bs) = ABK_FIDO_REPORT_LEN"
  by (simp add: packet_of_def)

lemma cont_packets_length: "p \<in> set (cont_packets cid seq rest) \<Longrightarrow> length p = ABK_FIDO_REPORT_LEN"
proof (induction cid seq rest rule: cont_packets.induct)
  case (1 cid seq rest)
  from "1.prems" show ?case
    by (subst (asm) cont_packets.simps)
      (use "1.IH" in \<open>auto simp: ABK_FIDO_REPORT_LEN_def split: if_splits dest!: packet_of_length [symmetric]\<close>)
qed

lemma hid_packets_length: "p \<in> set (hid_packets cid cmd payload) \<Longrightarrow> length p = ABK_FIDO_REPORT_LEN"
  using cont_packets_length by (auto simp: hid_packets_def init_packet_def ABK_FIDO_REPORT_LEN_def)

lemma cont_packets_count: "length (cont_packets cid seq rest) = (length rest + 58) div 59"
proof (induction cid seq rest rule: cont_packets.induct)
  case (1 cid seq rest)
  show ?case
  proof (cases "rest = []")
    case False
    have "(length rest + 58) div 59 = Suc ((length rest - 59 + 58) div 59)"
      using False by (cases "length rest \<le> 59"; cases rest) (auto simp: le_div_geq)
    with False 1 show ?thesis
      by (subst cont_packets.simps) (simp add: ABK_FIDO_REPORT_LEN_def)
  qed (subst cont_packets.simps, simp)
qed

lemma hid_packets_count: "length (hid_packets cid cmd payload) = Suc ((length payload - 57 + 58) div 59)"
  by (simp add: hid_packets_def cont_packets_count ABK_FIDO_REPORT_LEN_def)

lemma hid_packets_fit:
  "length payload \<le> 1886 \<Longrightarrow> length (hid_packets cid cmd payload) \<le> ABK_FIDO_QUEUE_DEPTH"
  using div_le_mono [of "length payload - 57 + 58" 1887 59]
  by (simp add: hid_packets_count ABK_FIDO_QUEUE_DEPTH_def)

lemma fold_push_tx:
  "fold push_tx ps usb =
     usb\<lparr>us_tx_packets := push_each push_report (map full_report ps) (us_tx_packets usb)\<rparr>"
  by (induction ps arbitrary: usb) (simp_all add: push_tx_def push_report_def full_report_def)

lemma full_reports_ok: "\<forall>p\<in>set ps. length p = ABK_FIDO_REPORT_LEN \<Longrightarrow> list_all report_ok (map full_report ps)"
  by (auto simp: list_all_iff report_ok_def full_report_def)

lemma push_message:
  assumes "queue_ok q"
  shows "queue_list (push_each push_report (map full_report (hid_packets cid cmd payload)) q) =
      take ABK_FIDO_QUEUE_DEPTH (queue_list q @ map full_report (hid_packets cid cmd payload))"
    and "queue_ok (push_each push_report (map full_report (hid_packets cid cmd payload)) q)"
  using rq.push_each_contents [OF assms full_reports_ok] hid_packets_length by blast+

lemma user_send:
  assumes "us_userspace usb" "queue_ok (us_tx_packets usb)"
  shows "queue_list (us_tx_packets (abk_fido_send_hid_message U cid cmd payload usb)) =
      take ABK_FIDO_QUEUE_DEPTH (queue_list (us_tx_packets usb) @ map full_report (hid_packets cid cmd payload))"
  using assms push_message(1) [OF assms(2)] by (simp add: abk_fido_send_hid_message_def fold_push_tx)

lemma kick_pending:
  assumes "us_online usb" "us_in_req usb = Some buf" "us_tx_pending usb" "queue_ok (us_tx_packets usb)"
    "queue_list (us_tx_packets usb) = r # rs" "report_ok r"
  shows "queue_list (us_tx_packets (abk_fido_tx_kick U usb)) = rs @ [r]"
proof -
  obtain q where q: "abk_fido_queue_pop (us_tx_packets usb) = (Some r, q)" "queue_list q = rs" "queue_ok q"
    using queue_pop_cons [OF assms(4,5)] queue_pop_ok [OF assms(4)] by (metis prod.collapse snd_conv)
  have "length (r # rs) \<le> ABK_FIDO_QUEUE_DEPTH"
    using assms(4,5) by (metis length_queue_list queue_ok_def)
  with q have "q_count q < ABK_FIDO_QUEUE_DEPTH" by (simp flip: length_queue_list)
  with queue_list_push [OF q(3) assms(6)] q show ?thesis
    using assms by (simp add: abk_fido_tx_kick_def push_report_def)
qed

text \<open>
  A reply that is sent while a transfer (a keepalive, say) is still pending on the
  gadget's IN endpoint goes out in the wrong order: its first report, the one with the
  length and the command, ends up behind its last one.
\<close>

theorem pending_reply_reordered:
  assumes "\<not> us_userspace usb" "us_online usb" "us_in_req usb = Some buf" "us_tx_pending usb"
    "queue_ok (us_tx_packets usb)" "queue_list (us_tx_packets usb) = []" "length payload \<le> 1886"
  shows "queue_list (us_tx_packets (abk_fido_send_hid_message U cid cmd payload usb)) =
    map full_report (cont_packets cid 0 (drop (ABK_FIDO_REPORT_LEN - 7) payload) @ [init_packet cid cmd payload])"
proof -
  define q where "q = push_each push_report (map full_report (hid_packets cid cmd payload)) (us_tx_packets usb)"
  have sent: "abk_fido_send_hid_message U cid cmd payload usb = abk_fido_tx_kick U (usb\<lparr>us_tx_packets := q\<rparr>)"
    using assms(1) by (simp add: abk_fido_send_hid_message_def fold_push_tx q_def)
  have ok: "queue_ok q" unfolding q_def by (rule push_message(2) [OF assms(5)])
  have "queue_list q = map full_report (hid_packets cid cmd payload)"
    using push_message(1) [OF assms(5)] assms(6) hid_packets_fit [OF assms(7)] by (simp add: q_def)
  then have l: "queue_list q = full_report (init_packet cid cmd payload)
      # map full_report (cont_packets cid 0 (drop (ABK_FIDO_REPORT_LEN - 7) payload))"
    by (simp add: hid_packets_def)
  have r: "report_ok (full_report (init_packet cid cmd payload))"
    using hid_packets_length [of _ cid cmd payload] by (simp add: report_ok_def full_report_def hid_packets_def)
  show ?thesis
    unfolding sent using kick_pending [of "usb\<lparr>us_tx_packets := q\<rparr>" buf] assms(2-4) ok l r by simp
qed

text \<open>The gadget while the controller still holds a keepalive.\<close>

definition busy_gadget :: abk_fido_usb where
  "busy_gadget = abk_fido_user_usb\<lparr>us_userspace := False, us_in_ep := True,
     us_in_req := Some (replicate ABK_FIDO_REPORT_LEN 0), us_tx_pending := True\<rparr>"

theorem pending_reply_reordered_witness:
  "map (\<lambda>r. take 5 (rep_data r)) (queue_list (us_tx_packets
     (abk_fido_send_hid_message sample_usb_env 7 ABK_FIDO_HID_CBOR (replicate 100 0) busy_gadget)))
   = [[0, 0, 0, 7, 0], [0, 0, 0, 7, 0x90]]"
proof -
  have "map (\<lambda>r. take 5 (rep_data r)) (map full_report (cont_packets 7 0
      (drop (ABK_FIDO_REPORT_LEN - 7) (replicate 100 0)) @ [init_packet 7 ABK_FIDO_HID_CBOR (replicate 100 0)]))
      = [[0, 0, 0, 7, 0], [0, 0, 0, 7, 0x90]]" by code_simp
  moreover have "queue_ok (us_tx_packets busy_gadget)" "queue_list (us_tx_packets busy_gadget) = []"
    by (simp_all add: busy_gadget_def abk_fido_user_usb_def queue_ok_init)
  ultimately show ?thesis
    by (subst pending_reply_reordered [where buf = "replicate ABK_FIDO_REPORT_LEN 0"])
      (simp_all add: busy_gadget_def abk_fido_user_usb_def)
qed

end
