(* ===== verification/Report_Descriptor.thy ===== *)
theory Report_Descriptor
  imports Abk_Prelude
begin

unbundle bit_operations_syntax

section \<open>HID report descriptors\<close>

text \<open>
  What a host reads out of a report descriptor (the HID specification, 6.2.2): short items of a
  prefix byte and up to four data bytes.  Enough of the items is interpreted to say which
  reports a device has: the usage of its application collection, whether reports are numbered,
  and the bits of its input and output reports.
\<close>

function hid_items :: "u8 list \<Rightarrow> (u8 \<times> nat) list option" where
  "hid_items [] = Some []"
| "hid_items (p # rest) =
     (let n = (if p AND 3 = 3 then 4 else unat (p AND 3))
      in if length rest < n then None
         else (case hid_items (drop n rest) of
                 None \<Rightarrow> None
               | Some items \<Rightarrow> Some ((p AND 0xFC, le_val (take n rest)) # items)))"
  by pat_completeness auto
termination by (relation "measure length") auto

record report_layout =
  rl_usage_page :: nat
  rl_usages :: "nat list"
  rl_size :: nat
  rl_count :: nat
  rl_numbered :: bool
  rl_collection :: "(nat \<times> nat list) option"
  rl_input_bits :: nat
  rl_output_bits :: nat

definition no_reports :: report_layout where
  "no_reports = \<lparr>rl_usage_page = 0, rl_usages = [], rl_size = 0, rl_count = 0, rl_numbered = False,
     rl_collection = None, rl_input_bits = 0, rl_output_bits = 0\<rparr>"

text \<open>Main items (input, output, collection) use up the usages before them.\<close>

definition hid_item :: "u8 \<times> nat \<Rightarrow> report_layout \<Rightarrow> report_layout" where
  "hid_item it l = (case it of (tag, v) \<Rightarrow>
     if tag = 0x04 then l\<lparr>rl_usage_page := v\<rparr>
     else if tag = 0x08 then l\<lparr>rl_usages := rl_usages l @ [v]\<rparr>
     else if tag = 0x74 then l\<lparr>rl_size := v\<rparr>
     else if tag = 0x94 then l\<lparr>rl_count := v\<rparr>
     else if tag = 0x84 then l\<lparr>rl_numbered := True\<rparr>
     else if tag = 0xA0 then
       l\<lparr>rl_collection := (if rl_collection l = None then Some (rl_usage_page l, rl_usages l) else rl_collection l),
         rl_usages := []\<rparr>
     else if tag = 0x80 then l\<lparr>rl_input_bits := rl_input_bits l + rl_size l * rl_count l, rl_usages := []\<rparr>
     else if tag = 0x90 then l\<lparr>rl_output_bits := rl_output_bits l + rl_size l * rl_count l, rl_usages := []\<rparr>
     else l)"

definition report_layout_of :: "u8 list \<Rightarrow> report_layout option" where
  "report_layout_of desc = map_option (\<lambda>items. fold hid_item items no_reports) (hid_items desc)"

text \<open>
  A CTAP HID authenticator: usage page F1D0, usage 1, one unnumbered report of 64 bytes in each
  direction.
\<close>

definition ctap_hid_layout :: "u8 list \<Rightarrow> bool" where
  "ctap_hid_layout desc \<longleftrightarrow>
     (case report_layout_of desc of
        None \<Rightarrow> False
      | Some l \<Rightarrow> rl_collection l = Some (0xF1D0, [1]) \<and> \<not> rl_numbered l
          \<and> rl_input_bits l = 64 * 8 \<and> rl_output_bits l = 64 * 8)"

subsection \<open>Standard descriptors\<close>

text \<open>How a host walks a block of descriptors: each begins with its length.\<close>

function walk_descs :: "u8 list \<Rightarrow> u8 list list option" where
  "walk_descs [] = Some []"
| "walk_descs (n # rest) =
     (if n = 0 \<or> length rest + 1 < unat n then None
      else (case walk_descs (drop (unat n - 1) rest) of
              None \<Rightarrow> None
            | Some ds \<Rightarrow> Some ((n # take (unat n - 1) rest) # ds)))"
  by pat_completeness auto
termination by (relation "measure length") auto

lemma walk_descs_Cons:
  assumes "d \<noteq> []" "unat (hd d) = length d" "walk_descs rest = Some ds"
  shows "walk_descs (d @ rest) = Some (d # ds)"
proof -
  obtain n bs where d: "d = n # bs" using assms(1) by (cases d) auto
  with assms(2) have "unat n = Suc (length bs)" "n \<noteq> 0" by auto
  with d assms(3) show ?thesis by simp
qed

lemma walk_descs_concat:
  "\<forall>d\<in>set ds. d \<noteq> [] \<and> unat (hd d) = length d \<Longrightarrow> walk_descs (concat ds) = Some ds"
  by (induction ds) (auto intro: walk_descs_Cons)

end
