(* ===== verification/Usb_Function.thy ===== *)
theory Usb_Function
  imports Hid_Transport Report_Descriptor
begin

unbundle bit_operations_syntax

section \<open>The USB gadget function\<close>

text \<open>
  What the composite framework calls: control requests, enabling and disabling the interface,
  binding to a configuration.  The results of the USB core (configuring and enabling
  endpoints, allocating and queueing requests, registering the misc device) are parameters.
  The descriptors are static variables, shared by all instances of the function: the record
  \<open>usb_descs\<close>.  Not state here: whether an endpoint is enabled, and the request of endpoint 0
  other than the bytes it sends.
\<close>

subsection \<open>Descriptors\<close>

definition ABK_FIDO_REPORT_DESC_LEN :: nat where "ABK_FIDO_REPORT_DESC_LEN = 34"

definition HID_DT_HID :: u16 where "HID_DT_HID = 0x21"
definition HID_DT_REPORT :: u16 where "HID_DT_REPORT = 0x22"
definition USB_DT_INTERFACE :: u8 where "USB_DT_INTERFACE = 4"
definition USB_DT_ENDPOINT :: u8 where "USB_DT_ENDPOINT = 5"
definition USB_DT_SS_ENDPOINT_COMP :: u8 where "USB_DT_SS_ENDPOINT_COMP = 0x30"
definition USB_CLASS_HID :: u8 where "USB_CLASS_HID = 3"
definition USB_DIR_IN :: u8 where "USB_DIR_IN = 0x80"
definition USB_DIR_OUT :: u8 where "USB_DIR_OUT = 0"
definition USB_ENDPOINT_XFER_INT :: u8 where "USB_ENDPOINT_XFER_INT = 3"

lemmas usb_codes = HID_DT_HID_def HID_DT_REPORT_def USB_DT_INTERFACE_def USB_DT_ENDPOINT_def
  USB_DT_SS_ENDPOINT_COMP_def USB_CLASS_HID_def USB_DIR_IN_def USB_DIR_OUT_def USB_ENDPOINT_XFER_INT_def

definition abk_fido_report_desc :: "u8 list" where
  "abk_fido_report_desc =
     [0x06, 0xd0, 0xf1, 0x09, 0x01, 0xa1, 0x01, 0x09, 0x20, 0x15, 0x00, 0x26, 0xff, 0x00, 0x75, 0x08,
      0x95, 0x40, 0x81, 0x02, 0x09, 0x21, 0x15, 0x00, 0x26, 0xff, 0x00, 0x75, 0x08, 0x95, 0x40, 0x91,
      0x02, 0xc0]"

text \<open>The fields of the descriptors; \<open>bLength\<close> and \<open>bDescriptorType\<close> come with the bytes.\<close>

record usb_interface_descriptor =
  if_bInterfaceNumber :: u8
  if_bAlternateSetting :: u8
  if_bNumEndpoints :: u8
  if_bInterfaceClass :: u8
  if_bInterfaceSubClass :: u8
  if_bInterfaceProtocol :: u8
  if_iInterface :: u8

record abk_fido_hid_desc =
  hd_bcdHID :: u16
  hd_bCountryCode :: u8
  hd_bNumDescriptors :: u8
  hd_bClassDescriptorType :: u8
  hd_wDescriptorLength :: nat

record usb_endpoint_descriptor =
  ep_bEndpointAddress :: u8
  ep_bmAttributes :: u8
  ep_wMaxPacketSize :: nat
  ep_bInterval :: u8

record usb_ss_ep_comp_descriptor =
  sc_bMaxBurst :: u8
  sc_bmAttributes :: u8
  sc_wBytesPerInterval :: nat

definition intf_desc_bytes :: "usb_interface_descriptor \<Rightarrow> u8 list" where
  "intf_desc_bytes i = [9, USB_DT_INTERFACE, if_bInterfaceNumber i, if_bAlternateSetting i, if_bNumEndpoints i,
     if_bInterfaceClass i, if_bInterfaceSubClass i, if_bInterfaceProtocol i, if_iInterface i]"

definition hid_desc_bytes :: "abk_fido_hid_desc \<Rightarrow> u8 list" where
  "hid_desc_bytes h = [9, ucast HID_DT_HID] @ le_bytes 2 (unat (hd_bcdHID h)) @ [hd_bCountryCode h,
     hd_bNumDescriptors h, hd_bClassDescriptorType h] @ le_bytes 2 (hd_wDescriptorLength h)"

definition ep_desc_bytes :: "usb_endpoint_descriptor \<Rightarrow> u8 list" where
  "ep_desc_bytes e = [7, USB_DT_ENDPOINT, ep_bEndpointAddress e, ep_bmAttributes e]
     @ le_bytes 2 (ep_wMaxPacketSize e) @ [ep_bInterval e]"

definition ss_comp_bytes :: "usb_ss_ep_comp_descriptor \<Rightarrow> u8 list" where
  "ss_comp_bytes c = [6, USB_DT_SS_ENDPOINT_COMP, sc_bMaxBurst c, sc_bmAttributes c]
     @ le_bytes 2 (sc_wBytesPerInterval c)"

record usb_descs =
  ds_intf :: usb_interface_descriptor
  ds_hid :: abk_fido_hid_desc
  ds_fs_in :: usb_endpoint_descriptor
  ds_fs_out :: usb_endpoint_descriptor
  ds_hs_in :: usb_endpoint_descriptor
  ds_hs_out :: usb_endpoint_descriptor
  ds_ss_in :: usb_endpoint_descriptor
  ds_ss_in_comp :: usb_ss_ep_comp_descriptor
  ds_ss_out :: usb_endpoint_descriptor
  ds_ss_out_comp :: usb_ss_ep_comp_descriptor
  ds_string_id :: u8

definition abk_fido_intf_desc :: usb_interface_descriptor where
  "abk_fido_intf_desc = \<lparr>if_bInterfaceNumber = 0, if_bAlternateSetting = 0, if_bNumEndpoints = 2,
     if_bInterfaceClass = USB_CLASS_HID, if_bInterfaceSubClass = 0, if_bInterfaceProtocol = 0, if_iInterface = 0\<rparr>"

definition abk_fido_hid_desc_initial :: abk_fido_hid_desc where
  "abk_fido_hid_desc_initial = \<lparr>hd_bcdHID = 0x0111, hd_bCountryCode = 0, hd_bNumDescriptors = 1,
     hd_bClassDescriptorType = ucast HID_DT_REPORT, hd_wDescriptorLength = ABK_FIDO_REPORT_DESC_LEN\<rparr>"

definition interrupt_ep :: "u8 \<Rightarrow> u8 \<Rightarrow> usb_endpoint_descriptor" where
  "interrupt_ep dir interval = \<lparr>ep_bEndpointAddress = dir, ep_bmAttributes = USB_ENDPOINT_XFER_INT,
     ep_wMaxPacketSize = ABK_FIDO_REPORT_LEN, ep_bInterval = interval\<rparr>"

definition interrupt_comp :: usb_ss_ep_comp_descriptor where
  "interrupt_comp = \<lparr>sc_bMaxBurst = 0, sc_bmAttributes = 0, sc_wBytesPerInterval = ABK_FIDO_REPORT_LEN\<rparr>"

definition initial_descs :: usb_descs where
  "initial_descs = \<lparr>ds_intf = abk_fido_intf_desc, ds_hid = abk_fido_hid_desc_initial,
     ds_fs_in = interrupt_ep USB_DIR_IN 5, ds_fs_out = interrupt_ep USB_DIR_OUT 5,
     ds_hs_in = interrupt_ep USB_DIR_IN 4, ds_hs_out = interrupt_ep USB_DIR_OUT 4,
     ds_ss_in = interrupt_ep USB_DIR_IN 4, ds_ss_in_comp = interrupt_comp,
     ds_ss_out = interrupt_ep USB_DIR_OUT 4, ds_ss_out_comp = interrupt_comp, ds_string_id = 0\<rparr>"

definition abk_fido_fs_descs :: "usb_descs \<Rightarrow> u8 list list" where
  "abk_fido_fs_descs ds = [intf_desc_bytes (ds_intf ds), hid_desc_bytes (ds_hid ds),
     ep_desc_bytes (ds_fs_in ds), ep_desc_bytes (ds_fs_out ds)]"

definition abk_fido_hs_descs :: "usb_descs \<Rightarrow> u8 list list" where
  "abk_fido_hs_descs ds = [intf_desc_bytes (ds_intf ds), hid_desc_bytes (ds_hid ds),
     ep_desc_bytes (ds_hs_in ds), ep_desc_bytes (ds_hs_out ds)]"

definition abk_fido_ss_descs :: "usb_descs \<Rightarrow> u8 list list" where
  "abk_fido_ss_descs ds = [intf_desc_bytes (ds_intf ds), hid_desc_bytes (ds_hid ds),
     ep_desc_bytes (ds_ss_in ds), ss_comp_bytes (ds_ss_in_comp ds),
     ep_desc_bytes (ds_ss_out ds), ss_comp_bytes (ds_ss_out_comp ds)]"

text \<open>The strings: language 0x0409 (English), string 0 the name of the interface.\<close>

definition abk_fido_stringtab :: "u16 \<times> string list" where
  "abk_fido_stringtab = (0x0409, [''ABK Security Key''])"

subsection \<open>Control requests\<close>

record usb_ctrlrequest =
  cr_bRequestType :: u8
  cr_bRequest :: u8
  cr_wValue :: u16
  cr_wLength :: u16

text \<open>
  The answer: an errno, or what queueing the reply on endpoint 0 returned with the reply's
  bytes.  The request code is the type byte and the request byte.
\<close>

definition setup_code :: "usb_ctrlrequest \<Rightarrow> u16" where
  "setup_code ctrl = push_bit 8 (ucast (cr_bRequestType ctrl)) OR ucast (cr_bRequest ctrl)"

definition abk_fido_setup ::
    "ret \<Rightarrow> usb_ctrlrequest \<Rightarrow> usb_descs \<Rightarrow> abk_fido_usb \<Rightarrow> (errno + (ret \<times> u8 list)) \<times> abk_fido_usb" where
  "abk_fido_setup ep0 ctrl ds usb =
     (let code = setup_code ctrl;
          w_value = cr_wValue ctrl;
          w_length = unat (cr_wLength ctrl);
          reply = (\<lambda>bs. Inr (ep0, take w_length bs))
      in if code = 0x8106 then
           (if drop_bit 8 w_value = HID_DT_HID then (reply (hid_desc_bytes (ds_hid ds)), usb)
            else if drop_bit 8 w_value = HID_DT_REPORT then (reply abk_fido_report_desc, usb)
            else (Inl EOPNOTSUPP, usb))
         else if code = 0xA103 then (reply [us_protocol usb], usb)
         else if code = 0x210B then (Inr (ep0, []), usb\<lparr>us_protocol := ucast w_value\<rparr>)
         else if code = 0xA102 then (reply [us_idle usb], usb)
         else if code = 0x210A then (Inr (ep0, []), usb\<lparr>us_idle := ucast (drop_bit 8 w_value)\<rparr>)
         else (Inl EOPNOTSUPP, usb))"

subsection \<open>Enabling and disabling\<close>

text \<open>The queued replies of the session are dropped; reports the host sent are not.\<close>

definition abk_fido_disable :: "abk_fido_usb \<Rightarrow> abk_fido_device \<Rightarrow> abk_fido_usb \<times> abk_fido_device" where
  "abk_fido_disable usb d =
     (let usb = usb\<lparr>us_tx_pending := False, us_online := False\<rparr>;
          usb = usb\<lparr>us_tx_packets :=
            snd (pop_each abk_fido_queue_pop (Suc (q_count (us_tx_packets usb))) (us_tx_packets usb))\<rparr>;
          usb = usb\<lparr>us_in_req := None, us_out_req := map (\<lambda>_. None) (us_out_req usb)\<rparr>
      in (usb, d\<lparr>dv_bound := False, dv_udc_name := ''''\<rparr>))"

record alt_env =
  ae_config_in :: ret
  ae_enable_in :: ret
  ae_config_out :: ret
  ae_enable_out :: ret
  ae_alloc_in :: bool
  ae_alloc_out :: "nat \<Rightarrow> bool"
  ae_queue_out :: "nat \<Rightarrow> ret"
  ae_gadget_name :: string

definition empty_request :: "u8 list" where
  "empty_request = replicate ABK_FIDO_REPORT_LEN 0"

text \<open>The loop over the four OUT requests: allocate one, then queue it.\<close>

fun queue_out_requests :: "alt_env \<Rightarrow> nat list \<Rightarrow> abk_fido_usb \<Rightarrow> ret \<times> abk_fido_usb" where
  "queue_out_requests A [] usb = (None, usb)"
| "queue_out_requests A (i # is) usb =
     (if \<not> ae_alloc_out A i then (Some ENOMEM, usb\<lparr>us_out_req := (us_out_req usb)[i := None]\<rparr>)
      else
        (let usb = usb\<lparr>us_out_req := (us_out_req usb)[i := Some empty_request]\<rparr>
         in case ae_queue_out A i of
              Some e \<Rightarrow> (Some e, usb)
            | None \<Rightarrow> queue_out_requests A is usb))"

definition HID_REPORT_PROTOCOL :: u8 where "HID_REPORT_PROTOCOL = 1"

definition abk_fido_set_alt ::
    "usb_env \<Rightarrow> alt_env \<Rightarrow> usb_descs \<Rightarrow> abk_fido_usb \<Rightarrow> abk_fido_device
      \<Rightarrow> ret \<times> abk_fido_usb \<times> abk_fido_device" where
  "abk_fido_set_alt U A ds usb d =
     (case (if us_in_req usb \<noteq> None then abk_fido_disable usb d else (usb, d)) of
        (usb, d) \<Rightarrow>
     (case ae_config_in A of Some e \<Rightarrow> (Some e, usb, d) | None \<Rightarrow>
      case ae_enable_in A of Some e \<Rightarrow> (Some e, usb, d) | None \<Rightarrow>
      case ae_config_out A of Some e \<Rightarrow> (Some e, usb, d) | None \<Rightarrow>
      case ae_enable_out A of Some e \<Rightarrow> (Some e, usb, d) | None \<Rightarrow>
        if \<not> ae_alloc_in A then
          (Some ENOMEM, abk_fido_disable (usb\<lparr>us_in_req := None\<rparr>) d)
        else
          (case queue_out_requests A [0..<4] (usb\<lparr>us_in_req := Some empty_request\<rparr>) of
             (Some e, usb) \<Rightarrow> (Some e, abk_fido_disable usb d)
           | (None, usb) \<Rightarrow>
               (let usb = usb\<lparr>us_protocol := HID_REPORT_PROTOCOL, us_idle := 0, us_online := True\<rparr>;
                    d = d\<lparr>dv_bound := True, dv_udc_name := snprintf_to 64 (ae_gadget_name A)\<rparr>;
                    d = abk_fido_set_attach_state_locked
                          (''online_iface:'' @ dec_str (unat (if_bInterfaceNumber (ds_intf ds)))) d
                in (None, abk_fido_tx_kick U usb, d)))))"

subsection \<open>Binding\<close>

text \<open>
  What the composite core answers: a string id, an interface number, the address it stored in
  the descriptor of the endpoint it found (\<open>None\<close>: no endpoint), and two results.
\<close>

record bind_env =
  be_string_id :: "errno + u8"
  be_interface_id :: "errno + u8"
  be_in_ep :: "u8 option"
  be_out_ep :: "u8 option"
  be_assign :: ret
  be_misc_register :: ret

definition share_addresses :: "usb_descs \<Rightarrow> usb_descs" where
  "share_addresses ds =
     (let a_in = ep_bEndpointAddress (ds_fs_in ds); a_out = ep_bEndpointAddress (ds_fs_out ds)
      in ds\<lparr>ds_hs_in := (ds_hs_in ds)\<lparr>ep_bEndpointAddress := a_in\<rparr>,
            ds_hs_out := (ds_hs_out ds)\<lparr>ep_bEndpointAddress := a_out\<rparr>,
            ds_ss_in := (ds_ss_in ds)\<lparr>ep_bEndpointAddress := a_in\<rparr>,
            ds_ss_out := (ds_ss_out ds)\<lparr>ep_bEndpointAddress := a_out\<rparr>,
            ds_hid := (ds_hid ds)\<lparr>hd_bClassDescriptorType := ucast HID_DT_REPORT,
              hd_wDescriptorLength := ABK_FIDO_REPORT_DESC_LEN\<rparr>\<rparr>)"

text \<open>
  \<open>r\<close> names the function that is bound, the value \<open>abk_fido_dev.usb\<close> gets.  The last
  component is what \<open>usb_assign_descriptors\<close> copied for the function, one block per speed.
\<close>

definition abk_fido_bind ::
    "bind_env \<Rightarrow> usb_ref \<Rightarrow> usb_descs \<Rightarrow> abk_fido_usb \<Rightarrow> abk_fido_device
      \<Rightarrow> ret \<times> usb_descs \<times> abk_fido_usb \<times> abk_fido_device \<times> u8 list list" where
  "abk_fido_bind B r ds usb d =
     (case be_string_id B of Inl e \<Rightarrow> (Some e, ds, usb, d, []) | Inr sid \<Rightarrow>
        (let ds = ds\<lparr>ds_string_id := sid\<rparr>;
             ds = ds\<lparr>ds_intf := (ds_intf ds)\<lparr>if_iInterface := ds_string_id ds\<rparr>\<rparr>
         in case be_interface_id B of Inl e \<Rightarrow> (Some e, ds, usb, d, []) | Inr iface \<Rightarrow>
        (let ds = ds\<lparr>ds_intf := (ds_intf ds)\<lparr>if_bInterfaceNumber := iface\<rparr>\<rparr>
         in case be_in_ep B of None \<Rightarrow> (Some ENODEV, ds, usb\<lparr>us_in_ep := False\<rparr>, d, []) | Some a_in \<Rightarrow>
        (let ds = ds\<lparr>ds_fs_in := (ds_fs_in ds)\<lparr>ep_bEndpointAddress := a_in\<rparr>\<rparr>; usb = usb\<lparr>us_in_ep := True\<rparr>
         in case be_out_ep B of None \<Rightarrow> (Some ENODEV, ds, usb\<lparr>us_out_ep := False\<rparr>, d, []) | Some a_out \<Rightarrow>
        (let ds = ds\<lparr>ds_fs_out := (ds_fs_out ds)\<lparr>ep_bEndpointAddress := a_out\<rparr>\<rparr>; usb = usb\<lparr>us_out_ep := True\<rparr>;
             ds = share_addresses ds
         in case be_assign B of Some e \<Rightarrow> (Some e, ds, usb, d, []) | None \<Rightarrow>
            case be_misc_register B of Some e \<Rightarrow> (Some e, ds, usb, d, []) | None \<Rightarrow>
              (let usb = usb\<lparr>us_misc_registered := True\<rparr>;
                   d = d\<lparr>dv_usb := Some r, dv_hid_name := snprintf_to 16 (us_misc_name usb)\<rparr>;
                   d = abk_fido_set_attach_state_locked
                         (''bound_iface:'' @ dec_str (unat (if_bInterfaceNumber (ds_intf ds)))) d
               in (None, ds, usb, d, [concat (abk_fido_fs_descs ds), concat (abk_fido_hs_descs ds),
                     concat (abk_fido_ss_descs ds), concat (abk_fido_ss_descs ds)])))))))"

definition abk_fido_unbind :: "usb_ref \<Rightarrow> abk_fido_usb \<Rightarrow> abk_fido_device \<Rightarrow> abk_fido_usb \<times> abk_fido_device" where
  "abk_fido_unbind r usb d =
     (let usb = (if us_misc_registered usb then usb\<lparr>us_misc_registered := False\<rparr> else usb);
          d = (if dv_usb d = Some r then d\<lparr>dv_usb := None\<rparr> else d)
      in (usb, d\<lparr>dv_bound := False, dv_hid_name := '''', dv_udc_name := ''''\<rparr>))"

text \<open>
  \<open>abk_fido_alloc_inst\<close> takes a number from 0 to 3 (\<open>minor\<close>, the IDA's answer);
  \<open>abk_fido_alloc\<close> makes the transport from zeroed memory.
\<close>

definition abk_fido_alloc_inst :: "bool \<Rightarrow> errno + nat \<Rightarrow> errno + nat" where
  "abk_fido_alloc_inst alloc_ok minor = (if \<not> alloc_ok then Inl ENOMEM else minor)"

definition abk_fido_alloc :: "bool \<Rightarrow> nat \<Rightarrow> errno + abk_fido_usb" where
  "abk_fido_alloc alloc_ok minor =
     (if \<not> alloc_ok then Inl ENOMEM
      else Inr \<lparr>us_in_ep = False, us_out_ep = False, us_in_req = None, us_out_req = replicate 4 None,
        us_tx_pending = False, us_online = False, us_rx_packets = new_queue, us_debug_rx = new_queue,
        us_tx_packets = new_queue, us_misc_registered = False,
        us_misc_name = snprintf_to 16 (''hidg'' @ dec_str minor), us_idle = 0, us_protocol = 0,
        us_userspace = False, us_in_flight = []\<rparr>)"

definition abk_fido_free_func :: "abk_fido_usb \<Rightarrow> abk_fido_usb" where
  "abk_fido_free_func usb = (if us_misc_registered usb then usb\<lparr>us_misc_registered := False\<rparr> else usb)"

subsection \<open>An interface is online completely or not at all\<close>

lemma disable_facts:
  assumes "queue_ok (us_tx_packets usb)" "abk_fido_disable usb d = (usb', d')"
  shows "\<not> us_online usb'" "\<not> us_tx_pending usb'" "us_in_req usb' = None" "queue_list (us_tx_packets usb') = []"
    "queue_ok (us_tx_packets usb')" "\<not> dv_bound d'" "length (us_out_req usb') = length (us_out_req usb)"
    "us_rx_packets usb' = us_rx_packets usb"
proof -
  let ?n = "Suc (q_count (us_tx_packets usb))"
  have "queue_list (snd (pop_each abk_fido_queue_pop ?n (us_tx_packets usb))) = []"
    "queue_ok (snd (pop_each abk_fido_queue_pop ?n (us_tx_packets usb)))"
    using rq.pop_each_contents [OF assms(1), of ?n] by simp_all
  with assms(2) show "\<not> us_online usb'" "\<not> us_tx_pending usb'" "us_in_req usb' = None" "queue_list (us_tx_packets usb') = []"
    "queue_ok (us_tx_packets usb')" "\<not> dv_bound d'" "length (us_out_req usb') = length (us_out_req usb)"
    "us_rx_packets usb' = us_rx_packets usb"
    by (auto simp: abk_fido_disable_def Let_def simp del: pop_each.simps)
qed

lemma out_requests_frame:
  "queue_out_requests A js usb = (ret, usb') \<Longrightarrow>
     us_tx_packets usb' = us_tx_packets usb \<and> us_in_req usb' = us_in_req usb
     \<and> us_online usb' = us_online usb \<and> length (us_out_req usb') = length (us_out_req usb)"
proof (induction js arbitrary: usb)
  case (Cons i js)
  then show ?case by (auto simp: Let_def split: if_splits option.splits dest: Cons.IH)
qed simp

lemma set_alt_all_or_nothing:
  assumes "abk_fido_set_alt U A ds usb d = (ret, usb', d')" "queue_ok (us_tx_packets usb)"
    "us_in_req usb = None \<longrightarrow> \<not> us_online usb"
  shows "if ret = None then dv_bound d' else \<not> us_online usb'"
proof -
  obtain usb0 d0 where s: "(if us_in_req usb \<noteq> None then abk_fido_disable usb d else (usb, d)) = (usb0, d0)" by fastforce
  have off: "\<not> us_online usb0" and q0: "queue_ok (us_tx_packets usb0)"
    using s assms(2,3) disable_facts [OF assms(2), of d usb0 d0] by (auto split: if_splits)
  obtain r1 usb1 where o: "queue_out_requests A [0..<4] (usb0\<lparr>us_in_req := Some empty_request\<rparr>) = (r1, usb1)" by fastforce
  have q1: "queue_ok (us_tx_packets usb1)" using out_requests_frame [OF o] q0 by simp
  obtain u2 d2 where d2: "abk_fido_disable (usb0\<lparr>us_in_req := None\<rparr>) d0 = (u2, d2)" by fastforce
  obtain u3 d3 where d3: "abk_fido_disable usb1 d0 = (u3, d3)" by fastforce
  have "\<not> us_online u2" "\<not> us_online u3"
    using disable_facts(1) [OF _ d2] disable_facts(1) [OF q1 d3] q0 by simp_all
  with assms(1) off show ?thesis
    unfolding abk_fido_set_alt_def s o d2 d3
    by (auto simp: Let_def o d2 d3 abk_fido_set_attach_state_locked_def split: option.splits if_splits)
qed

text \<open>A control request never yields more bytes than the host asked for.\<close>

lemma setup_reply_bounded:
  "abk_fido_setup ep0 ctrl ds usb = (Inr (r, bs), usb') \<Longrightarrow> length bs \<le> unat (cr_wLength ctrl)"
  by (auto simp: abk_fido_setup_def Let_def split: if_splits)

subsection \<open>What the host is told\<close>

text \<open>Both drivers publish the same report descriptor, a CTAP HID authenticator's.\<close>

lemma report_desc_is_ctap_hid: "ctap_hid_layout abk_fido_report_desc \<and> length abk_fido_report_desc = ABK_FIDO_REPORT_DESC_LEN"
  by (simp add: ctap_hid_layout_def report_layout_of_def abk_fido_report_desc_def ABK_FIDO_REPORT_DESC_LEN_def
      le_val_def be_val_def hid_item_def no_reports_def Let_def)

text \<open>The fields that never change after the initial values.\<close>

definition descs_ok :: "usb_descs \<Rightarrow> bool" where
  "descs_ok ds \<longleftrightarrow> if_bAlternateSetting (ds_intf ds) = 0 \<and> if_bNumEndpoints (ds_intf ds) = 2
     \<and> if_bInterfaceClass (ds_intf ds) = USB_CLASS_HID \<and> if_bInterfaceSubClass (ds_intf ds) = 0
     \<and> if_bInterfaceProtocol (ds_intf ds) = 0
     \<and> ds_hid ds = abk_fido_hid_desc_initial
     \<and> list_all (\<lambda>e. ep_bmAttributes e = USB_ENDPOINT_XFER_INT \<and> ep_wMaxPacketSize e = ABK_FIDO_REPORT_LEN)
         [ds_fs_in ds, ds_fs_out ds, ds_hs_in ds, ds_hs_out ds, ds_ss_in ds, ds_ss_out ds]
     \<and> ds_ss_in_comp ds = interrupt_comp \<and> ds_ss_out_comp ds = interrupt_comp"

lemma initial_descs_ok: "descs_ok initial_descs"
  by (simp add: descs_ok_def initial_descs_def interrupt_ep_def abk_fido_intf_desc_def)

lemma descs_ok_share: "descs_ok ds \<Longrightarrow> descs_ok (share_addresses ds)"
  by (simp add: descs_ok_def share_addresses_def Let_def abk_fido_hid_desc_initial_def)

lemma bind_keeps_descs_ok:
  assumes "abk_fido_bind B r ds usb d = (ret, ds', rest)" "descs_ok ds"
  shows "descs_ok ds'"
proof -
  obtain sid iface a b where "ds' \<in> {ds, ds\<lparr>ds_string_id := sid, ds_intf := (ds_intf ds)\<lparr>if_iInterface := sid\<rparr>\<rparr>,
      ds\<lparr>ds_string_id := sid, ds_intf := (ds_intf ds)\<lparr>if_iInterface := sid, if_bInterfaceNumber := iface\<rparr>\<rparr>,
      ds\<lparr>ds_string_id := sid, ds_intf := (ds_intf ds)\<lparr>if_iInterface := sid, if_bInterfaceNumber := iface\<rparr>,
        ds_fs_in := (ds_fs_in ds)\<lparr>ep_bEndpointAddress := a\<rparr>\<rparr>,
      share_addresses (ds\<lparr>ds_string_id := sid, ds_intf := (ds_intf ds)\<lparr>if_iInterface := sid, if_bInterfaceNumber := iface\<rparr>,
        ds_fs_in := (ds_fs_in ds)\<lparr>ep_bEndpointAddress := a\<rparr>, ds_fs_out := (ds_fs_out ds)\<lparr>ep_bEndpointAddress := b\<rparr>\<rparr>)}"
    using assms(1) by (simp add: abk_fido_bind_def Let_def split: sum.splits option.splits) blast+
  moreover have "descs_ok (ds\<lparr>ds_string_id := sid, ds_intf := (ds_intf ds)\<lparr>if_iInterface := sid, if_bInterfaceNumber := iface\<rparr>,
        ds_fs_in := (ds_fs_in ds)\<lparr>ep_bEndpointAddress := a\<rparr>, ds_fs_out := (ds_fs_out ds)\<lparr>ep_bEndpointAddress := b\<rparr>\<rparr>)"
    using assms(2) by (simp add: descs_ok_def)
  ultimately show ?thesis using assms(2) descs_ok_share
    by (elim insertE emptyE) (simp_all only:, simp_all add: descs_ok_def)
qed

definition ep_addresses :: "u8 list list \<Rightarrow> u8 list" where
  "ep_addresses descs = map (\<lambda>d. d ! 2) (filter (\<lambda>d. d ! 1 = USB_DT_ENDPOINT) descs)"

definition descs_shape :: "u8 \<Rightarrow> u8 list \<Rightarrow> u8 list \<Rightarrow> bool" where
  "descs_shape iface addrs block \<longleftrightarrow>
     (\<exists>descs. walk_descs block = Some descs \<and> ep_addresses descs = addrs
        \<and> (\<exists>intf\<in>set descs. intf ! 1 = USB_DT_INTERFACE \<and> intf ! 2 = iface \<and> unat (intf ! 4) = length addrs)
        \<and> (\<exists>hid\<in>set descs. hid ! 1 = 0x21 \<and> le_val (drop 7 hid) = length abk_fido_report_desc)
        \<and> (\<forall>e\<in>set descs. e ! 1 = USB_DT_ENDPOINT \<longrightarrow> le_val [e ! 4, e ! 5] = ABK_FIDO_REPORT_LEN))"

lemma walk_blocks:
  "walk_descs (concat (abk_fido_fs_descs ds)) = Some (abk_fido_fs_descs ds)"
  "walk_descs (concat (abk_fido_hs_descs ds)) = Some (abk_fido_hs_descs ds)"
  "walk_descs (concat (abk_fido_ss_descs ds)) = Some (abk_fido_ss_descs ds)"
  by (rule walk_descs_concat; simp add: abk_fido_fs_descs_def abk_fido_hs_descs_def abk_fido_ss_descs_def
      intf_desc_bytes_def hid_desc_bytes_def ep_desc_bytes_def ss_comp_bytes_def)+

lemma le_bytes_2: "le_bytes 2 v = [word_of_nat v, word_of_nat (v div 256)]"
  by (simp add: le_bytes_def numeral_2_eq_2)

lemma le_val_2: "le_val [a, b] = unat a + 256 * unat b"
  by (simp add: le_val_def be_val_def)

lemma length_report_desc: "length abk_fido_report_desc = 34"
  by (simp add: abk_fido_report_desc_def)

lemma block_shape:
  assumes "descs_ok ds" "if_bInterfaceNumber (ds_intf ds) = iface"
  shows "ep_bEndpointAddress (ds_fs_in ds) = a \<Longrightarrow> ep_bEndpointAddress (ds_fs_out ds) = b
      \<Longrightarrow> descs_shape iface [a, b] (concat (abk_fido_fs_descs ds))"
    and "ep_bEndpointAddress (ds_hs_in ds) = a \<Longrightarrow> ep_bEndpointAddress (ds_hs_out ds) = b
      \<Longrightarrow> descs_shape iface [a, b] (concat (abk_fido_hs_descs ds))"
    and "ep_bEndpointAddress (ds_ss_in ds) = a \<Longrightarrow> ep_bEndpointAddress (ds_ss_out ds) = b
      \<Longrightarrow> descs_shape iface [a, b] (concat (abk_fido_ss_descs ds))"
proof -
  from assms show "ep_bEndpointAddress (ds_fs_in ds) = a \<Longrightarrow> ep_bEndpointAddress (ds_fs_out ds) = b
      \<Longrightarrow> descs_shape iface [a, b] (concat (abk_fido_fs_descs ds))"
    "ep_bEndpointAddress (ds_hs_in ds) = a \<Longrightarrow> ep_bEndpointAddress (ds_hs_out ds) = b
      \<Longrightarrow> descs_shape iface [a, b] (concat (abk_fido_hs_descs ds))"
    "ep_bEndpointAddress (ds_ss_in ds) = a \<Longrightarrow> ep_bEndpointAddress (ds_ss_out ds) = b
      \<Longrightarrow> descs_shape iface [a, b] (concat (abk_fido_ss_descs ds))"
    unfolding descs_shape_def walk_blocks descs_ok_def
    by (simp_all add: abk_fido_fs_descs_def abk_fido_hs_descs_def abk_fido_ss_descs_def ep_addresses_def
        intf_desc_bytes_def hid_desc_bytes_def ep_desc_bytes_def ss_comp_bytes_def usb_codes le_bytes_2
        abk_fido_hid_desc_initial_def ABK_FIDO_REPORT_DESC_LEN_def ABK_FIDO_REPORT_LEN_def length_report_desc le_val_2)
qed

text \<open>
  C29. Whatever instance of the function was bound before, the descriptors a successful bind
  publishes for each speed can be walked by their lengths, name this binding's interface and
  endpoint addresses with as many endpoints as the interface announces, 64-byte packets, and a
  report descriptor of the length that is served.
\<close>

theorem bind_descriptors_agree:
  assumes "abk_fido_bind B r ds usb d = (None, ds', usb', d', blocks)" "descs_ok ds"
  shows "length blocks = 4 \<and> (\<exists>iface a b. be_interface_id B = Inr iface \<and> be_in_ep B = Some a \<and> be_out_ep B = Some b
    \<and> list_all (descs_shape iface [a, b]) blocks)"
proof -
  obtain iface a b where B: "be_interface_id B = Inr iface" "be_in_ep B = Some a" "be_out_ep B = Some b"
    and blocks: "blocks = [concat (abk_fido_fs_descs ds'), concat (abk_fido_hs_descs ds'),
        concat (abk_fido_ss_descs ds'), concat (abk_fido_ss_descs ds')]"
    and addrs: "if_bInterfaceNumber (ds_intf ds') = iface"
      "ep_bEndpointAddress (ds_fs_in ds') = a" "ep_bEndpointAddress (ds_fs_out ds') = b"
      "ep_bEndpointAddress (ds_hs_in ds') = a" "ep_bEndpointAddress (ds_hs_out ds') = b"
      "ep_bEndpointAddress (ds_ss_in ds') = a" "ep_bEndpointAddress (ds_ss_out ds') = b"
    using assms(1) by (auto simp: abk_fido_bind_def share_addresses_def Let_def split: sum.splits option.splits)
  have "descs_ok ds'" using bind_keeps_descs_ok assms by metis
  with block_shape [OF this addrs(1)] B blocks addrs show ?thesis by simp
qed

definition sample_bind :: bind_env where
  "sample_bind = \<lparr>be_string_id = Inr 3, be_interface_id = Inr 1, be_in_ep = Some 0x81, be_out_ep = Some 0x01,
     be_assign = None, be_misc_register = None\<rparr>"

theorem bind_descriptors_agree_witness:
  "\<exists>blocks. snd (snd (snd (snd (abk_fido_bind sample_bind UsbGadget initial_descs abk_fido_user_usb abk_fido_dev_initial)))) = blocks
    \<and> length blocks = 4 \<and> list_all (descs_shape 1 [0x81, 0x01]) blocks"
proof -
  obtain ret ds usb d blocks where b: "abk_fido_bind sample_bind UsbGadget initial_descs abk_fido_user_usb abk_fido_dev_initial
      = (ret, ds, usb, d, blocks)" by (metis prod_cases5)
  moreover have "ret = None" using b by (simp add: abk_fido_bind_def sample_bind_def Let_def)
  ultimately show ?thesis
    using bind_descriptors_agree [of sample_bind UsbGadget initial_descs abk_fido_user_usb abk_fido_dev_initial ds usb d blocks]
      initial_descs_ok by (simp add: sample_bind_def)
qed

end
