(* ===== verification/Control_Surface.thy ===== *)
theory Control_Surface
  imports Store_Invariant Usb_Function
begin

section \<open>Sysfs, the control hub and module start\<close>

text \<open>
  The ways in besides CTAP: sysfs attributes, commands of the ABK control hub, attachment to a
  gadget configuration, and module initialisation and exit.  A sysfs handler takes the bytes
  written; it returns their number or an errno.  \<open>sysfs_streq\<close>, \<open>sscanf\<close> and
  \<open>jiffies_to_msecs\<close> are the kernel's (\<open>sysfs_env\<close>).
\<close>

record sysfs_env =
  se_streq :: "string \<Rightarrow> string \<Rightarrow> bool"
  se_scan_u32 :: "string \<Rightarrow> string \<Rightarrow> u32 option"
  se_to_msecs :: "u64 \<Rightarrow> nat"

text \<open>Instances for examples: a trailing newline is ignored, no number is found.\<close>

definition sample_sysfs :: sysfs_env where
  "sample_sysfs = \<lparr>se_streq = (\<lambda>a b. a = b \<or> a = b @ [CHR 0x0A]), se_scan_u32 = (\<lambda>_ _. None), se_to_msecs = unat\<rparr>"

definition sysfs_count :: "ret \<Rightarrow> string \<Rightarrow> errno + nat" where
  "sysfs_count ret buf = (case ret of Some e \<Rightarrow> Inl e | None \<Rightarrow> Inr (length buf))"

subsection \<open>Attributes\<close>

definition reload_store_store ::
    "sysfs_env \<Rightarrow> klib \<Rightarrow> kenv \<Rightarrow> store_file \<Rightarrow> string \<Rightarrow> abk_fido_device \<Rightarrow> (errno + nat) \<times> abk_fido_device" where
  "reload_store_store S K E f buf d =
     (if \<not> (se_streq S buf ''1'' \<or> se_streq S buf ''reload'' \<or> se_streq S buf ''restore'') then (Inl EINVAL, d)
      else case abk_fido_reload_store_locked K E f d of (ret, d) \<Rightarrow> (sysfs_count ret buf, d))"

definition restore_metadata_store ::
    "sysfs_env \<Rightarrow> klib \<Rightarrow> kenv \<Rightarrow> store_file \<Rightarrow> string \<Rightarrow> abk_fido_device \<Rightarrow> (errno + nat) \<times> abk_fido_device" where
  "restore_metadata_store S K E f buf d =
     (if \<not> (se_streq S buf ''1'' \<or> se_streq S buf ''restore'' \<or> se_streq S buf ''reload'') then (Inl EINVAL, d)
      else case abk_fido_restore_persisted_store_locked K E f ''restore_metadata'' d of
             (ret, d) \<Rightarrow> (sysfs_count ret buf, d))"

definition auth_gate_enabled_show :: string where
  "auth_gate_enabled_show = ''1'' @ [CHR 0x0A]"

definition auth_gate_enabled_store :: "sysfs_env \<Rightarrow> string \<Rightarrow> errno + nat" where
  "auth_gate_enabled_store S buf =
     (if se_streq S buf ''1'' \<or> se_streq S buf ''true'' \<or> se_streq S buf ''on'' then Inr (length buf)
      else if se_streq S buf ''0'' \<or> se_streq S buf ''false'' \<or> se_streq S buf ''off'' then Inl EPERM
      else Inl EINVAL)"

definition auth_cooldown_show :: "sysfs_env \<Rightarrow> kenv \<Rightarrow> abk_fido_device \<Rightarrow> string" where
  "auth_cooldown_show S E d =
     (let now = env_now E;
          grant_ms = (if dv_auth_cache_valid d \<and> time_before now (dv_auth_cache_expires d)
                      then se_to_msecs S (dv_auth_cache_expires d - now) else 0);
          deny_ms = (if dv_auth_deny_valid d \<and> time_before now (dv_auth_deny_expires d)
                     then se_to_msecs S (dv_auth_deny_expires d - now) else 0)
      in ''grant_ms='' @ dec_str grant_ms @ '' deny_ms='' @ dec_str deny_ms @ '' window_ms=''
         @ dec_str ABK_FIDO_AUTH_CACHE_MS @ [CHR 0x0A])"

definition auth_context_show :: "abk_fido_device \<Rightarrow> string" where
  "auth_context_show d =
     ''req='' @ dec_str (unat (dv_auth_request_id d)) @ '' pending='' @ flag_str (dv_auth_pending d)
     @ '' cmd='' @ abk_fido_ctap_name (dv_auth_pending_ctap_cmd d)
     @ '' rp='' @ bytes_str (cstr (dv_auth_pending_rp_id d))
     @ '' uv='' @ flag_str (dv_auth_pending_uv d) @ '' rk='' @ flag_str (dv_auth_pending_rk d) @ [CHR 0x0A]"

definition hid_state_show :: "abk_fido_usb option \<Rightarrow> string" where
  "hid_state_show gadget =
     (case gadget of
        None \<Rightarrow> ''no_gadget'' @ [CHR 0x0A]
      | Some usb \<Rightarrow> ''online='' @ flag_str (us_online usb) @ '' tx_pending='' @ flag_str (us_tx_pending usb)
          @ '' tx_q='' @ dec_str (q_count (us_tx_packets usb))
          @ '' rx_q='' @ dec_str (q_count (us_rx_packets usb)) @ [CHR 0x0A])"

definition bound_show :: "abk_fido_device \<Rightarrow> string" where
  "bound_show d = flag_str (dv_bound d) @ [CHR 0x0A]"

definition credential_count_show :: "abk_fido_device \<Rightarrow> string" where
  "credential_count_show d = dec_str (abk_fido_count_credentials_locked (dv_store d)) @ [CHR 0x0A]"

definition store_generation_show :: "abk_fido_device \<Rightarrow> string" where
  "store_generation_show d = dec_str (unat (dv_store_generation d)) @ [CHR 0x0A]"

definition auth_pending_show :: "abk_fido_device \<Rightarrow> string" where
  "auth_pending_show d = flag_str (dv_auth_pending d) @ [CHR 0x0A]"

definition auth_request_id_show :: "abk_fido_device \<Rightarrow> string" where
  "auth_request_id_show d = dec_str (unat (dv_auth_request_id d)) @ [CHR 0x0A]"

text \<open>What was asked: the decision and the request it is for, if it names one.\<close>

definition parse_decision :: "sysfs_env \<Rightarrow> string \<Rightarrow> (bool \<times> u32 \<times> bool) option" where
  "parse_decision S buf =
     (if se_streq S buf ''allow'' then Some (True, 0, False)
      else if se_streq S buf ''deny'' then Some (False, 0, False)
      else case se_scan_u32 S ''allow %u'' buf of
             Some i \<Rightarrow> Some (True, i, True)
           | None \<Rightarrow>
               (case se_scan_u32 S ''deny %u'' buf of
                  Some i \<Rightarrow> Some (False, i, True)
                | None \<Rightarrow> None))"

definition auth_decision_store ::
    "sysfs_env \<Rightarrow> string \<Rightarrow> abk_fido_device \<Rightarrow> (errno + nat) \<times> abk_fido_device" where
  "auth_decision_store S buf d =
     (case parse_decision S buf of
        None \<Rightarrow> (Inl EINVAL, d)
      | Some (allow, request_id, check_id) \<Rightarrow>
          (case abk_fido_auth_decide_locked allow request_id check_id d of
             (ret, d) \<Rightarrow>
               (sysfs_count ret buf,
                if ret = None then
                  abk_fido_set_last_trace_locked
                    (''auth '' @ (if allow then ''allow'' else ''deny'') @ '' req=''
                      @ dec_str (unat (dv_auth_request_id d))) d
                else d)))"

subsection \<open>Commands of the control hub\<close>

definition pin_reset_store :: "abk_fido_store \<Rightarrow> abk_fido_store" where
  "pin_reset_store s =
     s\<lparr>st_pin_hash := replicate 16 0, st_pin_set := False, st_pin_retries := ABK_FIDO_PIN_RETRIES_DEFAULT\<rparr>"

definition control_effect ::
    "klib \<Rightarrow> kenv \<Rightarrow> string \<Rightarrow> store_file \<Rightarrow> abk_fido_device \<Rightarrow> ret \<times> store_file \<times> abk_fido_device" where
  "control_effect K E command f d =
     (if command = ''reload'' \<or> command = ''reload_store'' then
        (case abk_fido_reload_store_locked K E f d of (ret, d) \<Rightarrow> (ret, f, d))
      else if command = ''restore'' \<or> command = ''restore_metadata'' then
        (case abk_fido_restore_persisted_store_locked K E f ''abk_control'' d of (ret, d) \<Rightarrow> (ret, f, d))
      else if command = ''persist'' \<or> command = ''persist_now'' then
        (case abk_fido_maybe_persist_locked K E f d of
           (ret, f, d) \<Rightarrow> (ret, f, if ret = None then d\<lparr>dv_last_error := ''''\<rparr> else d))
      else if command = ''auth_allow'' then
        (case abk_fido_auth_decide_locked True 0 False d of (ret, d) \<Rightarrow> (ret, f, d))
      else if command = ''auth_deny'' then
        (case abk_fido_auth_decide_locked False 0 False d of (ret, d) \<Rightarrow> (ret, f, d))
      else if command = ''auth_gate_on'' then (None, f, d)
      else if command = ''auth_gate_off'' then (Some EPERM, f, d)
      else if command = ''pin_reset'' then
        abk_fido_maybe_persist_locked K E f
          (d\<lparr>dv_store := pin_reset_store (dv_store d), dv_store_dirty := True\<rparr>)
      else (Some EINVAL, f, d))"

definition abk_fido_control_run_command ::
    "klib \<Rightarrow> kenv \<Rightarrow> string \<Rightarrow> store_file \<Rightarrow> abk_fido_device \<Rightarrow> ret \<times> store_file \<times> abk_fido_device" where
  "abk_fido_control_run_command K E command f d =
     (case control_effect K E command f d of
        (None, f, d) \<Rightarrow> (None, f, d)
      | (Some e, f, d) \<Rightarrow>
          (Some e, f,
           if dv_last_error d = '''' then set_last_error (''control command failed: '' @ err_str e) d else d))"

definition abk_fido_control_set_enabled :: "bool \<Rightarrow> ret" where
  "abk_fido_control_set_enabled enabled = (if enabled then None else Some EOPNOTSUPP)"

subsection \<open>Attachment to a gadget configuration\<close>

text \<open>
  \<open>funcs\<close> are the names of the functions in the configuration (\<open>None\<close>: no name), \<open>held\<close> the
  function instances this module holds.
\<close>

record attach_env =
  at_auto :: bool
  at_instance :: ret
  at_function :: ret

definition abk_fido_key_prepare_config ::
    "attach_env \<Rightarrow> string option list \<times> nat \<Rightarrow> abk_fido_device
     \<Rightarrow> ret \<times> (string option list \<times> nat) \<times> abk_fido_device" where
  "abk_fido_key_prepare_config A = (\<lambda>(funcs, held) d.
     if \<not> at_auto A then (None, (funcs, held), abk_fido_set_attach_state_locked ''auto_attach_disabled'' d)
     else if Some ''abk_fido'' \<in> set funcs then
       (None, (funcs, held), abk_fido_set_attach_state_locked ''already_attached'' d)
     else
       (case at_instance A of
          Some e \<Rightarrow>
            (Some e, (funcs, held), abk_fido_set_attach_state_locked (''get_instance_failed:'' @ err_str e) d)
        | None \<Rightarrow>
            (let held = held + 1 in
             case at_function A of
               Some e \<Rightarrow>
                 (let d = abk_fido_set_attach_state_locked (''get_function_failed:'' @ err_str e) d
                  in (Some e, (funcs, held - 1), d))
             | None \<Rightarrow>
                 (None, (funcs @ [Some ''abk_fido''], held), abk_fido_set_attach_state_locked ''attached'' d))))"

definition abk_fido_key_release_config ::
    "string option list \<times> nat \<Rightarrow> abk_fido_device \<Rightarrow> (string option list \<times> nat) \<times> abk_fido_device" where
  "abk_fido_key_release_config = (\<lambda>(funcs, held) d.
     ((filter (\<lambda>f. f \<noteq> Some ''abk_fido'') funcs,
       held - length (filter (\<lambda>f. f = Some ''abk_fido'') funcs)),
      abk_fido_set_attach_state_locked ''released'' d))"

subsection \<open>Module start and exit\<close>

record core_regs =
  rg_kobj :: bool
  rg_group :: bool
  rg_bin_file :: bool
  rg_user :: bool
  rg_usb :: bool
  rg_control :: bool

definition no_regs :: core_regs where
  "no_regs = \<lparr>rg_kobj = False, rg_group = False, rg_bin_file = False, rg_user = False, rg_usb = False,
     rg_control = False\<rparr>"

text \<open>\<open>in_control\<close>: \<open>None\<close> without the control hub in the kernel, else the result of registering.\<close>

record init_env =
  in_kobj :: bool
  in_group :: ret
  in_bin_file :: ret
  in_user :: ret
  in_usb :: ret
  in_control :: "ret option"

definition abk_fido_core_init ::
    "init_env \<Rightarrow> core_regs \<Rightarrow> abk_fido_usb \<Rightarrow> abk_fido_device
     \<Rightarrow> ret \<times> core_regs \<times> abk_fido_usb \<times> abk_fido_device" where
  "abk_fido_core_init I g usb d =
     (let g = g\<lparr>rg_kobj := in_kobj I\<rparr> in
      if \<not> rg_kobj g then (Some ENOMEM, g, usb, d)
      else
        (case in_group I of Some e \<Rightarrow> (Some e, g\<lparr>rg_kobj := False\<rparr>, usb, d) | None \<Rightarrow>
           (let g = g\<lparr>rg_group := True\<rparr> in
            case in_bin_file I of Some e \<Rightarrow> (Some e, g\<lparr>rg_group := False, rg_kobj := False\<rparr>, usb, d) | None \<Rightarrow>
              (let g = g\<lparr>rg_bin_file := True\<rparr>;
                   usb = abk_fido_user_usb in
               case in_user I of
                 Some e \<Rightarrow> (Some e, g\<lparr>rg_bin_file := False, rg_group := False, rg_kobj := False\<rparr>, usb, d)
               | None \<Rightarrow>
                 (let g = g\<lparr>rg_user := True\<rparr> in
                  case in_usb I of
                    Some e \<Rightarrow>
                      (Some e, g\<lparr>rg_user := False, rg_bin_file := False, rg_group := False, rg_kobj := False\<rparr>, usb, d)
                  | None \<Rightarrow>
                    (let g = g\<lparr>rg_usb := True\<rparr>;
                         d = d\<lparr>dv_store := (dv_store d)\<lparr>st_pin_retries := ABK_FIDO_PIN_RETRIES_DEFAULT\<rparr>\<rparr>
                     in (None, g\<lparr>rg_control := (in_control I = Some None)\<rparr>, usb, d)))))))"

definition abk_fido_core_exit :: "core_regs \<Rightarrow> abk_fido_device \<Rightarrow> core_regs \<times> abk_fido_device" where
  "abk_fido_core_exit g d =
     (let d = d\<lparr>dv_auth_keepalive_armed := False\<rparr>;
          g = g\<lparr>rg_control := False\<rparr>;
          g = (if rg_usb g then g\<lparr>rg_usb := False\<rparr> else g);
          g = (if rg_user g then g\<lparr>rg_user := False\<rparr> else g);
          d = d\<lparr>dv_store_blob_staging := None, dv_store_blob_staging_len := 0\<rparr>;
          g = (if rg_kobj g then g\<lparr>rg_bin_file := False, rg_group := False, rg_kobj := False\<rparr> else g)
      in (g, d))"

subsection \<open>Who can approve\<close>

text \<open>What decides whether a request is granted: the pending decision and the windows.\<close>

definition approval_view :: "abk_fido_device \<Rightarrow> bool \<times> bool \<times> u64" where
  "approval_view d = (dv_auth_allowed d, dv_auth_cache_valid d, dv_auth_cache_expires d)"

lemma approval_view_texts [simp]:
  "approval_view (abk_fido_set_last_trace_locked s d) = approval_view d"
  "approval_view (set_last_error s d) = approval_view d"
  "approval_view (d\<lparr>dv_last_error := s\<rparr>) = approval_view d"
  by (simp_all add: approval_view_def abk_fido_set_last_trace_locked_def set_last_error_def)

lemma approval_view_store [simp]:
  "approval_view (d\<lparr>dv_store := st\<rparr>) = approval_view d" "approval_view (d\<lparr>dv_store_dirty := b\<rparr>) = approval_view d"
  "approval_view (d\<lparr>dv_store_loaded := b\<rparr>) = approval_view d"
  "approval_view (d\<lparr>dv_store_generation := n\<rparr>) = approval_view d"
  by (simp_all add: approval_view_def)

lemma approval_view_finalize [simp]: "approval_view (abk_fido_finalize_restored_store_locked t d) = approval_view d"
  by (simp add: abk_fido_finalize_restored_store_locked_def Let_def)

lemma approval_view_read:
  "abk_fido_read_store_from_path_locked K E f s d = (ret, s', reason, d') \<Longrightarrow> approval_view d' = approval_view d"
  by (auto simp: abk_fido_read_store_from_path_locked_def split: sum.splits if_splits prod.splits option.splits)

lemma approval_view_restore:
  assumes "abk_fido_restore_persisted_store_locked K E f source d = (ret, d')"
  shows "approval_view d' = approval_view d"
proof -
  obtain r s reason d1 where r: "abk_fido_read_store_from_path_locked K E f zero_store d = (r, s, reason, d1)"
    by (metis prod_cases4)
  with approval_view_read [OF r] assms show ?thesis
    by (cases r) (auto simp: abk_fido_restore_persisted_store_locked_def Let_def split: if_splits)
qed

lemma approval_view_persist:
  "abk_fido_maybe_persist_locked K E f d = (ret, f', d') \<Longrightarrow> approval_view d' = approval_view d"
  by (auto simp: abk_fido_maybe_persist_locked_def persist_deferred_def Let_def split: if_splits prod.splits option.splits)

text \<open>What a process on the phone can do here.\<close>

datatype surface_op =
    WriteReload string
  | WriteRestore string
  | WriteGate string
  | WriteDecision string
  | RunCommand string

fun surface_step ::
    "sysfs_env \<Rightarrow> klib \<Rightarrow> kenv \<Rightarrow> surface_op \<Rightarrow> store_file \<Rightarrow> abk_fido_device \<Rightarrow> store_file \<times> abk_fido_device" where
  "surface_step S K E (WriteReload buf) f d = (f, snd (reload_store_store S K E f buf d))"
| "surface_step S K E (WriteRestore buf) f d = (f, snd (restore_metadata_store S K E f buf d))"
| "surface_step S K E (WriteGate buf) f d = (f, d)"
| "surface_step S K E (WriteDecision buf) f d = (f, snd (auth_decision_store S buf d))"
| "surface_step S K E (RunCommand command) f d = snd (abk_fido_control_run_command K E command f d)"

fun approves :: "sysfs_env \<Rightarrow> surface_op \<Rightarrow> bool" where
  "approves S (WriteDecision buf) \<longleftrightarrow> (case parse_decision S buf of Some (allow, _, _) \<Rightarrow> allow | None \<Rightarrow> False)"
| "approves S (RunCommand command) \<longleftrightarrow> command = ''auth_allow''"
| "approves S _ \<longleftrightarrow> False"

definition no_more_approved :: "abk_fido_device \<Rightarrow> abk_fido_device \<Rightarrow> bool" where
  "no_more_approved d d' \<longleftrightarrow> (dv_auth_allowed d' \<longrightarrow> dv_auth_allowed d) \<and> (\<forall>E. in_grant E d' \<longrightarrow> in_grant E d)"

lemma same_view_no_more: "approval_view d' = approval_view d \<Longrightarrow> no_more_approved d d'"
  by (auto simp: approval_view_def no_more_approved_def in_grant_def)

lemma no_more_approved_view: "no_more_approved d d1 \<Longrightarrow> approval_view d2 = approval_view d1 \<Longrightarrow> no_more_approved d d2"
  by (auto simp: approval_view_def no_more_approved_def in_grant_def)

lemma deny_no_more:
  "abk_fido_auth_decide_locked False i check d = (ret, d') \<Longrightarrow> no_more_approved d d'"
  by (auto simp: abk_fido_auth_decide_locked_def no_more_approved_def in_grant_def Let_def split: if_splits)

lemma control_no_more:
  assumes "control_effect K E command f d = (ret, f', d')" "command \<noteq> ''auth_allow''"
  shows "no_more_approved d d'"
proof -
  consider "command = ''auth_deny''" | "command = ''pin_reset''"
    | "command \<noteq> ''auth_deny''" "command \<noteq> ''pin_reset''" by blast
  then show ?thesis
  proof cases
    case 1
    with assms deny_no_more show ?thesis by (auto simp: control_effect_def split: prod.splits)
  next
    case 2
    with assms(1) have "approval_view d' = approval_view d"
      by (auto simp: control_effect_def dest: approval_view_persist)
    then show ?thesis by (rule same_view_no_more)
  next
    case 3
    obtain r1 d1 where 1: "abk_fido_reload_store_locked K E f d = (r1, d1)" by fastforce
    obtain r2 d2 where 2: "abk_fido_restore_persisted_store_locked K E f ''abk_control'' d = (r2, d2)" by fastforce
    obtain r3 f3 d3 where p: "abk_fido_maybe_persist_locked K E f d = (r3, f3, d3)" by (metis prod_cases3)
    have "d' \<in> {d1, d2, d3\<lparr>dv_last_error := ''''\<rparr>, d3, d}"
      using assms 3 unfolding control_effect_def 1 2 p
      by (simp only: prod.case prod.inject insert_iff empty_iff split: if_split_asm) blast+
    moreover have "approval_view d1 = approval_view d" "approval_view d2 = approval_view d" "approval_view d3 = approval_view d"
      using 1 2 p approval_view_restore approval_view_persist unfolding abk_fido_reload_store_locked_def by blast+
    ultimately have "approval_view d' = approval_view d" by auto
    then show ?thesis by (rule same_view_no_more)
  qed
qed



subsection \<open>Starting up and attaching\<close>

lemma core_init_cases:
  assumes "abk_fido_core_init I no_regs usb d = (ret, g, usb', d')"
  shows "ret \<noteq> None \<Longrightarrow> g = no_regs \<and> d' = d"
    and "ret = None \<Longrightarrow> rg_kobj g \<and> rg_group g \<and> rg_bin_file g \<and> rg_user g \<and> rg_usb g \<and> usb' = abk_fido_user_usb
      \<and> d' = d\<lparr>dv_store := (dv_store d)\<lparr>st_pin_retries := ABK_FIDO_PIN_RETRIES_DEFAULT\<rparr>\<rparr>"
  using assms
  by (auto simp: abk_fido_core_init_def no_regs_def Let_def split: if_splits option.splits)

lemma core_exit_releases_all:
  assumes "abk_fido_core_init I no_regs usb d = (ret, g, usb', d')"
  shows "fst (abk_fido_core_exit g d') = no_regs"
proof (cases ret)
  case None
  with core_init_cases(2) [OF assms] show ?thesis by (simp add: abk_fido_core_exit_def no_regs_def Let_def)
next
  case (Some e)
  with core_init_cases(1) [OF assms] show ?thesis by (simp add: abk_fido_core_exit_def no_regs_def Let_def)
qed

text \<open>The driver holds one instance for each of its functions in a configuration, at most one.\<close>

definition attach_ok :: "string option list \<times> nat \<Rightarrow> bool" where
  "attach_ok = (\<lambda>(funcs, held). held = length (filter (\<lambda>f. f = Some ''abk_fido'') funcs) \<and> held \<le> 1)"

lemma prepare_keeps_attach:
  assumes "attach_ok s" "abk_fido_key_prepare_config A s d = (ret, s', d')"
  shows "attach_ok s'" "ret = None \<Longrightarrow> at_auto A \<Longrightarrow> Some ''abk_fido'' \<in> set (fst s')" "ret \<noteq> None \<Longrightarrow> s' = s"
  using assms
  by (auto simp: abk_fido_key_prepare_config_def attach_ok_def Let_def filter_empty_conv split: if_splits option.splits)

lemma release_detaches:
  assumes "attach_ok s" "abk_fido_key_release_config s d = (s', d')"
  shows "attach_ok s'" "Some ''abk_fido'' \<notin> set (fst s')" "snd s' = 0"
  using assms by (auto simp: abk_fido_key_release_config_def attach_ok_def)

lemma no_credentials_left:
  assumes "\<forall>c\<in>set (st_creds s). \<not> cr_in_use c"
  shows "\<forall>c\<in>set (st_creds (dropped_pin (store_canon s))). \<not> cr_in_use c"
  using assms by (auto simp: dropped_pin_def store_canon_def cred_canon_def)

lemma boot_store_empty:
  "\<forall>c\<in>set (st_creds (pin_reset_store (zero_store\<lparr>st_pin_retries := n\<rparr>))). \<not> cr_in_use c"
  by (simp add: pin_reset_store_def zero_store_def zero_credential_def)

text \<open>
  C38. The control command \<open>pin_reset\<close> right after boot destroys the credentials on disk: it
  persists the store without having loaded it, so whatever the file held is replaced by an
  empty store, success is reported, and after the next boot there is no credential.
\<close>

theorem pin_reset_wipes_file:
  assumes "abk_fido_core_init I no_regs usb abk_fido_dev_initial = (None, g, usb', d)"
    "env_ok E" "env_ok E'" "\<not> dv_store_loaded rebooted"
  shows "\<exists>f' d' d2. abk_fido_control_run_command K E ''pin_reset'' f d = (None, f', d')
    \<and> abk_fido_load_store_locked K E' f' rebooted = (None, d2)
    \<and> dv_store_loaded d2 \<and> (\<forall>c\<in>set (st_creds (dv_store d2)). \<not> cr_in_use c)"
proof -
  let ?s = "pin_reset_store (zero_store\<lparr>st_pin_retries := ABK_FIDO_PIN_RETRIES_DEFAULT\<rparr>)"
  let ?d = "d\<lparr>dv_store := pin_reset_store (dv_store d), dv_store_dirty := True\<rparr>"
  have d: "dv_store ?d = ?s"
    using core_init_cases(2) [OF assms(1)] by (simp add: abk_fido_dev_initial_def)
  have ok: "store_ok ?s"
    using store_ok_zero by (simp add: store_ok_def pin_reset_store_def)
  then obtain d' where p: "abk_fido_maybe_persist_locked K E f ?d = (None, Some (store_blob K ?s), d')"
    using persist_ok [OF assms(2), of ?d K f] unfolding d by auto
  then have "abk_fido_control_run_command K E ''pin_reset'' f d = (None, Some (store_blob K ?s), d')"
    by (simp add: abk_fido_control_run_command_def control_effect_def)
  moreover obtain d2 where "abk_fido_load_store_locked K E' (Some (store_blob K ?s)) rebooted = (None, d2)"
    "dv_store d2 = dropped_pin (store_canon ?s)" "dv_store_loaded d2"
    using load_blob [OF assms(3) ok assms(4)] by blast
  ultimately show ?thesis using no_credentials_left [OF boot_store_empty] by metis
qed

definition sample_init :: init_env where
  "sample_init = \<lparr>in_kobj = True, in_group = None, in_bin_file = None, in_user = None, in_usb = None, in_control = Some None\<rparr>"

theorem pin_reset_wipes_file_witness:
  "\<exists>f' d' d2. abk_fido_control_run_command sample_klib sample_env ''pin_reset''
      (Some (store_blob sample_klib (dv_store two_accounts)))
      (snd (snd (snd (abk_fido_core_init sample_init no_regs abk_fido_user_usb abk_fido_dev_initial)))) = (None, f', d')
    \<and> abk_fido_load_store_locked sample_klib sample_env f' abk_fido_dev_initial = (None, d2)
    \<and> dv_store_loaded d2 \<and> (\<forall>c\<in>set (st_creds (dv_store d2)). \<not> cr_in_use c)"
proof -
  obtain ret g usb' d where i: "abk_fido_core_init sample_init no_regs abk_fido_user_usb abk_fido_dev_initial
      = (ret, g, usb', d)" by (metis prod_cases4)
  have "ret = None" using i by (auto simp: abk_fido_core_init_def sample_init_def Let_def)
  moreover have "\<not> dv_store_loaded abk_fido_dev_initial" by (simp add: abk_fido_dev_initial_def)
  ultimately show ?thesis
    using pin_reset_wipes_file [of sample_init abk_fido_user_usb g usb' d sample_env sample_env abk_fido_dev_initial
        sample_klib "Some (store_blob sample_klib (dv_store two_accounts))"] i sample_env_ok by simp
qed

end
