(* ===== verification/Sysfs_Attributes.thy ===== *)
theory Sysfs_Attributes
  imports Control_Surface
begin

section \<open>What sysfs shows\<close>

text \<open>
  The remaining \<open>show\<close> functions, the crypto self-test among them, and the table of attributes
  with their access modes.  Two facts: the self-test and the command path compute the same
  thing, and no text attribute depends on a secret of the store.
\<close>

definition enabled_show :: string where "enabled_show = ''1'' @ [CHR 0x0A]"

definition ctap_dev_show :: string where "ctap_dev_show = ''/dev/abk_fido_ctap'' @ [CHR 0x0A]"

definition udc_show :: "abk_fido_device \<Rightarrow> string" where
  "udc_show d = dv_udc_name d @ [CHR 0x0A]"

definition hid_dev_show :: "abk_fido_device \<Rightarrow> string" where
  "hid_dev_show d = dv_hid_name d @ [CHR 0x0A]"

definition attach_state_show :: "abk_fido_device \<Rightarrow> string" where
  "attach_state_show d = dv_attach_state d @ [CHR 0x0A]"

definition last_error_show :: "abk_fido_device \<Rightarrow> string" where
  "last_error_show d = dv_last_error d @ [CHR 0x0A]"

definition last_trace_show :: "abk_fido_device \<Rightarrow> string" where
  "last_trace_show d = dv_last_trace d @ [CHR 0x0A]"

subsection \<open>The hmac-secret self-test\<close>

definition abk_fido_selftest_cred_priv :: "u8 list" where
  "abk_fido_selftest_cred_priv =
     [0xda, 0x3f, 0x6e, 0xc6, 0xbd, 0x4a, 0x0e, 0x13, 0xee, 0x23, 0x23, 0x96, 0x64, 0xd7, 0x63, 0xfb,
      0x6d, 0x63, 0x0e, 0xc1, 0x7c, 0x31, 0x65, 0x98, 0x93, 0x18, 0xb5, 0x5c, 0x1c, 0x48, 0x80, 0xed]"

definition abk_fido_selftest_platform_xy :: "u8 list" where
  "abk_fido_selftest_platform_xy =
     [0x13, 0x01, 0xff, 0x53, 0x0e, 0x45, 0x9e, 0x01, 0x14, 0xc2, 0xa9, 0x7e, 0xf1, 0xbf, 0x9d, 0xaf,
      0xdc, 0xed, 0x9e, 0x0a, 0x00, 0x7d, 0x36, 0x8e, 0x8e, 0x0b, 0x77, 0x45, 0xfd, 0xc5, 0x55, 0x6b,
      0xf6, 0x3a, 0xbf, 0x2a, 0xea, 0x90, 0xa5, 0x97, 0xf5, 0x12, 0x1a, 0x35, 0x62, 0xa5, 0x5b, 0x0c,
      0x03, 0x05, 0x5a, 0x1f, 0x3d, 0x47, 0x15, 0x21, 0x6b, 0x71, 0xa1, 0x16, 0x7f, 0x00, 0x87, 0x72]"

definition abk_fido_selftest_cred_secret :: "u8 list" where
  "abk_fido_selftest_cred_secret =
     [0x00, 0x01, 0x02, 0x03, 0x04, 0x05, 0x06, 0x07, 0x08, 0x09, 0x0a, 0x0b, 0x0c, 0x0d, 0x0e, 0x0f,
      0x10, 0x11, 0x12, 0x13, 0x14, 0x15, 0x16, 0x17, 0x18, 0x19, 0x1a, 0x1b, 0x1c, 0x1d, 0x1e, 0x1f]"

definition abk_fido_selftest_salt_enc :: "u8 list" where
  "abk_fido_selftest_salt_enc =
     [0x15, 0xc5, 0x99, 0x55, 0xf2, 0xde, 0xf5, 0x18, 0x33, 0x5e, 0xbd, 0xc4, 0xa9, 0x48, 0x5e, 0xf4,
      0xaf, 0x01, 0x2e, 0x51, 0xe6, 0x3c, 0x35, 0x0d, 0xbb, 0xc7, 0x38, 0xe9, 0x37, 0x54, 0xf0, 0x83,
      0xc8, 0x4b, 0x2e, 0xcc, 0x53, 0xbc, 0xcc, 0x94, 0x3a, 0x40, 0x00, 0xc7, 0x47, 0xc0, 0x2d, 0xd9,
      0xb0, 0x8e, 0x36, 0xa5, 0xcc, 0xa1, 0xe3, 0x0e, 0x37, 0x67, 0x74, 0xf7, 0xd6, 0xdb, 0xdc, 0xdd]"

definition abk_fido_selftest_salt_auth :: "u8 list" where
  "abk_fido_selftest_salt_auth =
     [0x3d, 0x3f, 0x28, 0x0d, 0x97, 0xc8, 0x9d, 0x7e, 0x45, 0x8e, 0x1a, 0x7f, 0xee, 0xad, 0x9d, 0x40]"

definition abk_fido_selftest_want_z :: "u8 list" where
  "abk_fido_selftest_want_z =
     [0x13, 0x28, 0x34, 0x99, 0x58, 0x4a, 0xff, 0x72, 0x49, 0xb7, 0xbb, 0x44, 0xf2, 0x4f, 0xe9, 0xf9,
      0x6c, 0x79, 0x18, 0x25, 0x72, 0x0a, 0xf4, 0x55, 0x72, 0x79, 0x46, 0xa1, 0xe2, 0x1d, 0xb3, 0x0d]"

definition abk_fido_selftest_want_output_enc :: "u8 list" where
  "abk_fido_selftest_want_output_enc =
     [0xb7, 0x48, 0xfa, 0x26, 0x8d, 0x0d, 0xb6, 0x7a, 0x05, 0x87, 0xe9, 0x8f, 0xfc, 0x50, 0x97, 0x96,
      0xdb, 0xaa, 0xba, 0x30, 0x15, 0xdd, 0xe8, 0x1b, 0x9c, 0x4a, 0x06, 0x21, 0x36, 0xab, 0xc3, 0xea,
      0xfd, 0x9b, 0x28, 0x53, 0xd1, 0x52, 0x85, 0x03, 0xda, 0xbd, 0x3d, 0x55, 0x46, 0xba, 0x75, 0xce,
      0xcf, 0x7f, 0x15, 0xe7, 0x69, 0xa3, 0x95, 0x81, 0x1a, 0x4b, 0xc6, 0xab, 0x37, 0xd4, 0x1d, 0x72]"

text \<open>\<open>%*phN\<close>: two hexadecimal digits per byte.\<close>

definition bytes_hex :: "u8 list \<Rightarrow> string" where
  "bytes_hex bs = concat (map (\<lambda>b. hex_pad 2 (unat b)) bs)"

definition selftest_line :: "string \<Rightarrow> bool \<Rightarrow> string" where
  "selftest_line step ok = step @ (if ok then '':ok'' else '':FAIL'') @ [CHR 0x0A]"

text \<open>
  Each step prints a line and ends the test when it fails.  \<open>left\<close> is what a failed encryption
  leaves in its buffer.  The second component is what the digest stores past \<open>tag[16]\<close>.
\<close>

definition selftest_outputs ::
    "klib \<Rightarrow> (u8 list \<Rightarrow> u8 list) \<Rightarrow> u8 list \<Rightarrow> u8 list \<Rightarrow> string" where
  "selftest_outputs K left shared salt =
     (case abk_fido_hmac_sha256 K abk_fido_selftest_cred_secret (take 32 salt) of
        Inl e \<Rightarrow> selftest_line ''outputs'' False
      | Inr output1 \<Rightarrow>
          (case abk_fido_hmac_sha256 K abk_fido_selftest_cred_secret (take 32 (drop 32 salt)) of
             Inl e \<Rightarrow> selftest_line ''outputs'' False
           | Inr output2 \<Rightarrow>
               selftest_line ''outputs'' True
               @ (case abk_fido_aes256_cbc K shared abk_fido_hmac_zero_iv (output1 @ output2) True of
                    Inl e \<Rightarrow> selftest_line ''output_enc'' False @ ''enc=0x'' @ bytes_hex (left (output1 @ output2))
                      @ [CHR 0x0A]
                  | Inr enc \<Rightarrow>
                      selftest_line ''output_enc'' True
                      @ (if enc \<noteq> abk_fido_selftest_want_output_enc then ''enc=0x'' @ bytes_hex enc @ [CHR 0x0A]
                         else ''hmac-secret:ok'' @ [CHR 0x0A]))))"

definition hmac_selftest_show ::
    "klib \<Rightarrow> bool \<Rightarrow> (u8 list \<Rightarrow> u8 list) \<Rightarrow> (errno + string) \<times> u8 list" where
  "hmac_selftest_show K alloc_ok left =
     (if \<not> alloc_ok then (Inl ENOMEM, [])
      else
        (case abk_fido_ecdh_p256 K abk_fido_selftest_cred_priv abk_fido_selftest_platform_xy of
           Inl e \<Rightarrow>
             (Inr (selftest_line ''ecdh'' False @ ''z=0x'' @ bytes_hex (kl_stack K SHA256_DIGEST_SIZE) @ [CHR 0x0A]), [])
         | Inr shared \<Rightarrow>
             if shared \<noteq> abk_fido_selftest_want_z then
               (Inr (selftest_line ''ecdh'' True @ ''z=0x'' @ bytes_hex shared @ [CHR 0x0A]), [])
             else
               (case abk_fido_hmac_sha256 K shared abk_fido_selftest_salt_enc of
                  Inl e \<Rightarrow> (Inr (selftest_line ''ecdh'' True @ selftest_line ''salt_auth'' False), [])
                | Inr digest \<Rightarrow>
                    (Inr (selftest_line ''ecdh'' True @ selftest_line ''salt_auth'' True
                       @ (if take ABK_FIDO_HMAC_SALT_AUTH_LEN digest \<noteq> abk_fido_selftest_salt_auth then ''''
                          else
                            (case abk_fido_aes256_cbc K shared abk_fido_hmac_zero_iv abk_fido_selftest_salt_enc False of
                               Inl e \<Rightarrow> selftest_line ''salt_dec'' False
                             | Inr salt \<Rightarrow> selftest_line ''salt_dec'' True @ selftest_outputs K left shared salt))),
                     drop ABK_FIDO_HMAC_SALT_AUTH_LEN digest))))"

definition selftest_success :: string where
  "selftest_success = selftest_line ''ecdh'' True @ selftest_line ''salt_auth'' True @ selftest_line ''salt_dec'' True
     @ selftest_line ''outputs'' True @ selftest_line ''output_enc'' True @ ''hmac-secret:ok'' @ [CHR 0x0A]"

text \<open>The same data as a credential and a request.\<close>

definition selftest_cred :: abk_fido_credential where
  "selftest_cred = zero_credential\<lparr>cr_priv_key := abk_fido_selftest_cred_priv,
     cr_hmac_secret := abk_fido_selftest_cred_secret\<rparr>"

definition selftest_req :: abk_fido_get_assert_req where
  "selftest_req = zero_get_assert_req\<lparr>ga_hmac_key_agreement := abk_fido_selftest_platform_xy,
     ga_hmac_salt_enc := abk_fido_selftest_salt_enc, ga_hmac_salt_auth := abk_fido_selftest_salt_auth\<rparr>"

lemma selftest_outputs_ok:
  "selftest_outputs K left shared salt = selftest_line ''outputs'' True @ selftest_line ''output_enc'' True
     @ ''hmac-secret:ok'' @ [CHR 0x0A]
   \<longleftrightarrow> (\<exists>o1 o2. abk_fido_hmac_sha256 K abk_fido_selftest_cred_secret (take 32 salt) = Inr o1
     \<and> abk_fido_hmac_sha256 K abk_fido_selftest_cred_secret (take 32 (drop 32 salt)) = Inr o2
     \<and> abk_fido_aes256_cbc K shared abk_fido_hmac_zero_iv (o1 @ o2) True = Inr abk_fido_selftest_want_output_enc)"
  by (auto simp: selftest_outputs_def selftest_line_def split: sum.splits)

text \<open>
  C30. The self-test tests the real thing: it reports success exactly when the key agreement
  yields the expected secret and the code behind getAssertion, run on the same key, salts and
  secret, yields the expected ciphertext.
\<close>

theorem selftest_matches_command:
  "fst (hmac_selftest_show K True left) = Inr selftest_success
   \<longleftrightarrow> abk_fido_ecdh_p256 K abk_fido_selftest_cred_priv abk_fido_selftest_platform_xy = Inr abk_fido_selftest_want_z
     \<and> fst (abk_fido_hmac_get_secret_locked K selftest_cred selftest_req) = Inr abk_fido_selftest_want_output_enc"
  (is "?L \<longleftrightarrow> ?z \<and> ?R")
proof (cases "?z")
  case True
  have nz: "\<not> list_all (\<lambda>b. b = 0) (cr_hmac_secret selftest_cred)"
    by (simp add: selftest_cred_def abk_fido_selftest_cred_secret_def)
  show ?thesis
  proof (cases "abk_fido_hmac_sha256 K abk_fido_selftest_want_z abk_fido_selftest_salt_enc")
    case (Inl e)
    with True nz show ?thesis
      by (simp add: hmac_selftest_show_def selftest_success_def selftest_line_def abk_fido_hmac_get_secret_locked_def
          selftest_req_def selftest_cred_def)
  next
    case hmac: (Inr digest)
    show ?thesis
    proof (cases "take ABK_FIDO_HMAC_SALT_AUTH_LEN digest = abk_fido_selftest_salt_auth")
      case False
      with True nz hmac show ?thesis
        by (simp add: hmac_selftest_show_def selftest_success_def selftest_line_def abk_fido_hmac_get_secret_locked_def
            selftest_req_def selftest_cred_def Let_def)
    next
      case auth: True
      show ?thesis
      proof (cases "abk_fido_aes256_cbc K abk_fido_selftest_want_z abk_fido_hmac_zero_iv abk_fido_selftest_salt_enc False")
        case (Inl e)
        with True nz hmac auth show ?thesis
          by (simp add: hmac_selftest_show_def selftest_success_def selftest_line_def abk_fido_hmac_get_secret_locked_def
              selftest_req_def selftest_cred_def Let_def)
      next
        case (Inr salt)
        have "?L \<longleftrightarrow> selftest_outputs K left abk_fido_selftest_want_z salt =
            selftest_line ''outputs'' True @ selftest_line ''output_enc'' True @ ''hmac-secret:ok'' @ [CHR 0x0A]"
          using True hmac auth Inr by (simp add: hmac_selftest_show_def selftest_success_def)
        with selftest_outputs_ok True nz hmac auth Inr show ?thesis
          by (auto simp: abk_fido_hmac_get_secret_locked_def selftest_req_def selftest_cred_def Let_def
              ABK_FIDO_HMAC_SALT_LEN_def split: sum.splits)
      qed
    qed
  qed
next
  case False
  then show ?thesis
    by (auto simp: hmac_selftest_show_def selftest_success_def selftest_line_def split: sum.splits)
qed

subsection \<open>The attributes\<close>

text \<open>\<open>__ATTR_RO\<close>, \<open>__ATTR_WO\<close> and \<open>__ATTR_RW\<close> are modes 444, 200 and 644.\<close>

datatype attr_access = ATTR_RO | ATTR_WO | ATTR_RW

definition abk_fido_attrs :: "(string \<times> attr_access) list" where
  "abk_fido_attrs =
     [(''enabled'', ATTR_RO), (''bound'', ATTR_RO), (''udc'', ATTR_RO), (''hid_dev'', ATTR_RO),
      (''ctap_dev'', ATTR_RO), (''attach_state'', ATTR_RO), (''hid_state'', ATTR_RO),
      (''hmac_selftest'', ATTR_RO), (''credential_count'', ATTR_RO), (''last_error'', ATTR_RO),
      (''last_trace'', ATTR_RO), (''store_generation'', ATTR_RO), (''reload_store'', ATTR_WO),
      (''restore_metadata'', ATTR_WO), (''auth_gate_enabled'', ATTR_RW), (''auth_cooldown'', ATTR_RO),
      (''auth_pending'', ATTR_RO), (''auth_request_id'', ATTR_RO), (''auth_context'', ATTR_RO),
      (''auth_decision'', ATTR_WO)]"

text \<open>Reading a text attribute; \<open>None\<close> when it does not exist or cannot be read.\<close>

record show_env =
  sh_sysfs :: sysfs_env
  sh_klib :: klib
  sh_kenv :: kenv
  sh_alloc_ok :: bool
  sh_left :: "u8 list \<Rightarrow> u8 list"
  sh_gadget :: "abk_fido_usb option"

definition show_functions :: "show_env \<Rightarrow> abk_fido_device \<Rightarrow> (string \<times> (errno + string)) list" where
  "show_functions X d =
     [(''enabled'', Inr enabled_show), (''bound'', Inr (bound_show d)), (''udc'', Inr (udc_show d)),
      (''hid_dev'', Inr (hid_dev_show d)), (''ctap_dev'', Inr ctap_dev_show),
      (''attach_state'', Inr (attach_state_show d)), (''hid_state'', Inr (hid_state_show (sh_gadget X))),
      (''hmac_selftest'', fst (hmac_selftest_show (sh_klib X) (sh_alloc_ok X) (sh_left X))),
      (''credential_count'', Inr (credential_count_show d)), (''last_error'', Inr (last_error_show d)),
      (''last_trace'', Inr (last_trace_show d)), (''store_generation'', Inr (store_generation_show d)),
      (''auth_gate_enabled'', Inr auth_gate_enabled_show),
      (''auth_cooldown'', Inr (auth_cooldown_show (sh_sysfs X) (sh_kenv X) d)),
      (''auth_pending'', Inr (auth_pending_show d)), (''auth_request_id'', Inr (auth_request_id_show d)),
      (''auth_context'', Inr (auth_context_show d))]"

definition sysfs_read :: "show_env \<Rightarrow> abk_fido_device \<Rightarrow> string \<Rightarrow> (errno + string) option" where
  "sysfs_read X d name =
     (case map_of abk_fido_attrs name of
        None \<Rightarrow> None
      | Some ATTR_WO \<Rightarrow> None
      | Some _ \<Rightarrow> map_of (show_functions X d) name)"

lemma distinct_attrs: "distinct (map fst abk_fido_attrs)"
  unfolding abk_fido_attrs_def by code_simp

lemma attrs_have_show:
  "list_all (\<lambda>(name, access). access = ATTR_WO \<or> name \<in> set (map fst (show_functions X d))) abk_fido_attrs"
  by (simp add: abk_fido_attrs_def show_functions_def)

lemma readable_attr_shown:
  assumes "\<exists>access. (name, access) \<in> set abk_fido_attrs \<and> access \<noteq> ATTR_WO"
  shows "\<exists>text. sysfs_read X d name = Some text"
proof -
  obtain access where a: "(name, access) \<in> set abk_fido_attrs" "access \<noteq> ATTR_WO" using assms by blast
  then have "name \<in> set (map fst (show_functions X d))"
    using attrs_have_show [of X d] by (fastforce simp: list_all_iff)
  then have "map_of (show_functions X d) name \<noteq> None" by (simp add: map_of_eq_None_iff)
  with map_of_is_SomeI [OF distinct_attrs a(1)] a(2) show ?thesis
    by (cases access) (auto simp: sysfs_read_def)
qed

text \<open>What is left of a store when only the use of its slots is kept.\<close>

definition blank_store :: "abk_fido_store \<Rightarrow> abk_fido_store" where
  "blank_store s = zero_store\<lparr>st_creds := map (\<lambda>c. zero_credential\<lparr>cr_in_use := cr_in_use c\<rparr>) (st_creds s)\<rparr>"

lemma count_blank:
  assumes "length (st_creds s) = ABK_FIDO_MAX_CREDS"
  shows "abk_fido_count_credentials_locked (blank_store s) = abk_fido_count_credentials_locked s"
  unfolding abk_fido_count_credentials_locked_def
  using assms by (intro fold_cong refl ext) (simp add: blank_store_def)

text \<open>The permission bits, and the binary attribute that carries the whole store.\<close>

fun attr_mode :: "attr_access \<Rightarrow> nat" where
  "attr_mode ATTR_RO = 4 * 64 + 4 * 8 + 4"
| "attr_mode ATTR_WO = 2 * 64"
| "attr_mode ATTR_RW = 6 * 64 + 4 * 8 + 4"

record bin_attribute =
  ba_name :: string
  ba_mode :: nat
  ba_size :: nat

definition store_blob_attr :: bin_attribute where
  "store_blob_attr = \<lparr>ba_name = ''store_blob'', ba_mode = 6 * 64, ba_size = SIZEOF_STORE_DISK\<rparr>"

definition owner_only :: "nat \<Rightarrow> bool" where
  "owner_only mode \<longleftrightarrow> mode mod 64 = 0"

definition sysfs_modes :: "(string \<times> nat) list" where
  "sysfs_modes = (ba_name store_blob_attr, ba_mode store_blob_attr)
     # map (\<lambda>(name, access). (name, attr_mode access)) abk_fido_attrs"

lemma readable_attr:
  assumes "(name, mode) \<in> set sysfs_modes" "\<not> owner_only mode"
  shows "\<exists>access. (name, access) \<in> set abk_fido_attrs \<and> access \<noteq> ATTR_WO"
proof -
  from assms obtain access where "(name, access) \<in> set abk_fido_attrs" "mode = attr_mode access"
    by (auto simp: sysfs_modes_def store_blob_attr_def owner_only_def)
  with assms(2) show ?thesis by (cases access) (auto simp: owner_only_def)
qed

lemma show_hides_store:
  assumes "store_ok (dv_store d)"
  shows "show_functions X (d\<lparr>dv_store := blank_store (dv_store d)\<rparr>) = show_functions X d"
proof -
  have "length (st_creds (dv_store d)) = ABK_FIDO_MAX_CREDS" using assms by (simp add: store_ok_def ABK_FIDO_MAX_CREDS_def)
  then show ?thesis
    by (simp add: show_functions_def bound_show_def udc_show_def hid_dev_show_def attach_state_show_def
        credential_count_show_def count_blank last_error_show_def last_trace_show_def store_generation_show_def
        auth_cooldown_show_def auth_pending_show_def auth_request_id_show_def auth_context_show_def Let_def)
qed


text \<open>A failed key agreement: the self-test prints the stack bytes of a buffer nothing was stored into.\<close>

lemma selftest_prints_stack:
  assumes "abk_fido_ecdh_p256 K abk_fido_selftest_cred_priv abk_fido_selftest_platform_xy = Inl e"
  shows "hmac_selftest_show K True left = (Inr (''ecdh:FAIL'' @ [CHR 0x0A] @ ''z=0x''
    @ bytes_hex (kl_stack K SHA256_DIGEST_SIZE) @ [CHR 0x0A]), [])"
  using assms by (simp add: hmac_selftest_show_def selftest_line_def)

definition sample_show :: show_env where
  "sample_show = \<lparr>sh_sysfs = sample_sysfs, sh_klib = sample_klib, sh_kenv = sample_env, sh_alloc_ok = True,
     sh_left = (\<lambda>bs. bs), sh_gadget = None\<rparr>"


end
