(* ===== verification/Hid_Channels.thy ===== *)
theory Hid_Channels
  imports Ctap_Commands Hid_Transport
begin

unbundle bit_operations_syntax

section \<open>CTAPHID: channels, messages and commands\<close>

text \<open>
  The receive worker takes 64-byte reports from \<open>rx_packets\<close>, reassembles messages on the four
  channels of the device and runs the command a complete message carries.  The reassembly,
  which runs under the device mutex, is the function \<open>hid_step\<close> on the device with an action
  for the caller; \<open>abk_fido_process_packet\<close> performs the action.  What a handler works on is
  the transport, the store file and the device; the parameters are those of
  \<open>abk_fido_cbor_dispatch\<close> (\<open>Ctap_Commands\<close>) and of the transport (\<open>Hid_Transport\<close>).
\<close>

definition ABK_FIDO_HID_ERR_INVALID_CMD :: u8 where "ABK_FIDO_HID_ERR_INVALID_CMD = 0x01"
definition ABK_FIDO_HID_ERR_INVALID_LEN :: u8 where "ABK_FIDO_HID_ERR_INVALID_LEN = 0x03"
definition ABK_FIDO_HID_ERR_INVALID_SEQ :: u8 where "ABK_FIDO_HID_ERR_INVALID_SEQ = 0x04"
definition ABK_FIDO_HID_ERR_INVALID_CID :: u8 where "ABK_FIDO_HID_ERR_INVALID_CID = 0x0b"

definition ABK_FIDO_CTAP_SUCCESS :: u8 where "ABK_FIDO_CTAP_SUCCESS = 0x00"
definition ABK_FIDO_CTAP_ERR_INVALID_COMMAND :: u8 where "ABK_FIDO_CTAP_ERR_INVALID_COMMAND = 0x01"
definition ABK_FIDO_CTAP_ERR_INVALID_PARAMETER :: u8 where "ABK_FIDO_CTAP_ERR_INVALID_PARAMETER = 0x02"
definition ABK_FIDO_CTAP_ERR_CREDENTIAL_EXCLUDED :: u8 where
  "ABK_FIDO_CTAP_ERR_CREDENTIAL_EXCLUDED = 0x19"
definition ABK_FIDO_CTAP_ERR_OPERATION_DENIED :: u8 where "ABK_FIDO_CTAP_ERR_OPERATION_DENIED = 0x27"
definition ABK_FIDO_CTAP_ERR_KEY_STORE_FULL :: u8 where "ABK_FIDO_CTAP_ERR_KEY_STORE_FULL = 0x28"
definition ABK_FIDO_CTAP_ERR_NOT_ALLOWED :: u8 where "ABK_FIDO_CTAP_ERR_NOT_ALLOWED = 0x30"
definition ABK_FIDO_CTAP_ERR_UNSUPPORTED_OPTION :: u8 where
  "ABK_FIDO_CTAP_ERR_UNSUPPORTED_OPTION = 0x2b"
definition ABK_FIDO_CTAP_ERR_INVALID_OPTION :: u8 where "ABK_FIDO_CTAP_ERR_INVALID_OPTION = 0x2c"
definition ABK_FIDO_CTAP_ERR_NO_CREDENTIALS :: u8 where "ABK_FIDO_CTAP_ERR_NO_CREDENTIALS = 0x2e"
definition ABK_FIDO_CTAP_ERR_PIN_NOT_SET :: u8 where "ABK_FIDO_CTAP_ERR_PIN_NOT_SET = 0x35"
definition ABK_FIDO_CTAP_ERR_UP_REQUIRED :: u8 where "ABK_FIDO_CTAP_ERR_UP_REQUIRED = 0x39"

lemmas hid_errors = ABK_FIDO_HID_ERR_INVALID_CMD_def ABK_FIDO_HID_ERR_INVALID_LEN_def
  ABK_FIDO_HID_ERR_INVALID_SEQ_def ABK_FIDO_HID_ERR_INVALID_CID_def ABK_FIDO_HID_ERR_OTHER_def

subsection \<open>Channels\<close>

definition abk_fido_find_channel_locked :: "u32 \<Rightarrow> abk_fido_device \<Rightarrow> nat option" where
  "abk_fido_find_channel_locked cid d =
     find (\<lambda>i. ch_in_use (dv_channels d ! i) \<and> ch_cid (dv_channels d ! i) = cid)
       [0..<ABK_FIDO_MAX_CHANNELS]"

definition set_channel :: "nat \<Rightarrow> abk_fido_channel \<Rightarrow> abk_fido_device \<Rightarrow> abk_fido_device" where
  "set_channel i ch d = d\<lparr>dv_channels := (dv_channels d)[i := ch]\<rparr>"

text \<open>With no free channel the first one is handed out as it is.\<close>

definition abk_fido_alloc_channel_locked :: "u32 \<Rightarrow> abk_fido_device \<Rightarrow> nat \<times> abk_fido_device" where
  "abk_fido_alloc_channel_locked cid d =
     (case find (\<lambda>i. \<not> ch_in_use (dv_channels d ! i)) [0..<ABK_FIDO_MAX_CHANNELS] of
        Some i \<Rightarrow> (i, set_channel i (zero_channel\<lparr>ch_in_use := True, ch_cid := cid\<rparr>) d)
      | None \<Rightarrow> (0, d))"

definition abk_fido_next_cid_locked :: "abk_fido_device \<Rightarrow> u32 \<times> abk_fido_device" where
  "abk_fido_next_cid_locked d =
     (let cid = dv_next_cid d;
          d = d\<lparr>dv_next_cid := dv_next_cid d + 1\<rparr>
      in if cid = 0 \<or> cid = ABK_FIDO_CID_BROADCAST then
           (let d = d\<lparr>dv_next_cid := dv_next_cid d + 1\<rparr> in (dv_next_cid d, d))
         else (cid, d))"

subsection \<open>Commands\<close>

text \<open>The CTAP status byte for an errno of \<open>abk_fido_cbor_dispatch\<close>.\<close>

definition ctap_status :: "errno \<Rightarrow> u8" where
  "ctap_status ret =
     (if ret = EEXIST then ABK_FIDO_CTAP_ERR_CREDENTIAL_EXCLUDED
      else if ret = ENOSPC then ABK_FIDO_CTAP_ERR_KEY_STORE_FULL
      else if ret = ENOENT then ABK_FIDO_CTAP_ERR_NO_CREDENTIALS
      else if ret = EOPNOTSUPP \<or> ret = ENOIOCTLCMD then ABK_FIDO_CTAP_ERR_UNSUPPORTED_OPTION
      else if ret = EALREADY then ABK_FIDO_CTAP_ERR_OPERATION_DENIED
      else if ret = EPERM \<or> ret = ETIMEDOUT then ABK_FIDO_CTAP_ERR_OPERATION_DENIED
      else if ret = ABK_FIDO_ERR_INVALID_COMMAND then ABK_FIDO_CTAP_ERR_INVALID_COMMAND
      else if ret = ABK_FIDO_ERR_PIN_NOT_SET then ABK_FIDO_CTAP_ERR_PIN_NOT_SET
      else if ret = ABK_FIDO_ERR_INVALID_OPTION then ABK_FIDO_CTAP_ERR_INVALID_OPTION
      else if ret = ABK_FIDO_ERR_UP_REQUIRED then ABK_FIDO_CTAP_ERR_UP_REQUIRED
      else if ret = ABK_FIDO_ERR_NOT_ALLOWED then ABK_FIDO_CTAP_ERR_NOT_ALLOWED
      else ABK_FIDO_CTAP_ERR_INVALID_PARAMETER)"

type_synonym hid_state = "abk_fido_usb \<times> store_file \<times> abk_fido_device"

definition hid_cbor ::
    "klib \<Rightarrow> kenv \<Rightarrow> others \<Rightarrow> nat \<Rightarrow> usb_env \<Rightarrow> usb_ref \<Rightarrow> u32 \<Rightarrow> u8 list \<Rightarrow> hid_state \<Rightarrow> hid_state option" where
  "hid_cbor K E W D U r cid data = (\<lambda>(usb, f, d).
     let cbor_cmd = (if data = [] then 0 else data ! 0);
         d = d\<lparr>dv_auth_usb := Some r, dv_auth_cid := cid\<rparr>
     in case abk_fido_cbor_dispatch K E W D data f d of
          None \<Rightarrow> None
        | Some (ret, f, d) \<Rightarrow>
            (let usb = ue_during U usb;
                 d = d\<lparr>dv_auth_usb := None, dv_auth_keepalive_armed := False\<rparr>
             in case ret of
                  Inr payload \<Rightarrow>
                    Some (abk_fido_send_cbor_result U cid ABK_FIDO_CTAP_SUCCESS payload usb,
                      f, d\<lparr>dv_last_error := ''''\<rparr>)
                | Inl e \<Rightarrow>
                    Some (abk_fido_send_cbor_result U cid (ctap_status e) [] usb, f,
                      set_last_error (''ctap cmd 0x'' @ hex_pad 2 (unat cbor_cmd) @ '' failed: ''
                        @ err_str e) d)))"

definition abk_fido_dispatch_msg ::
    "klib \<Rightarrow> kenv \<Rightarrow> others \<Rightarrow> nat \<Rightarrow> usb_env \<Rightarrow> usb_ref \<Rightarrow> u32 \<Rightarrow> u8 \<Rightarrow> u8 list \<Rightarrow> hid_state
     \<Rightarrow> hid_state option" where
  "abk_fido_dispatch_msg K E W D U r cid cmd data = (\<lambda>(usb, f, d).
     if cmd = ABK_FIDO_HID_INIT then
       if length data < 8 then Some (abk_fido_send_hid_error U cid ABK_FIDO_HID_ERR_INVALID_LEN usb, f, d)
       else
         (case abk_fido_next_cid_locked d of
            (new_cid, d) \<Rightarrow>
              (let d = snd (abk_fido_alloc_channel_locked new_cid d);
                   init_resp = take 8 data @ be32_bytes new_cid @ [2, 0, 1, 0, 0x0d]
               in Some (abk_fido_send_hid_message U cid ABK_FIDO_HID_INIT init_resp usb, f, d)))
     else if cmd = ABK_FIDO_HID_PING then
       Some (abk_fido_send_hid_message U cid ABK_FIDO_HID_PING data usb, f, d)
     else if cmd = ABK_FIDO_HID_WINK then
       Some (abk_fido_send_hid_message U cid ABK_FIDO_HID_WINK [] usb, f, d)
     else if cmd = ABK_FIDO_HID_CANCEL then
       Some (usb, f, case abk_fido_find_channel_locked cid d of
           None \<Rightarrow> d
         | Some i \<Rightarrow> set_channel i ((dv_channels d ! i)\<lparr>ch_cancelled := True\<rparr>) d)
     else if cmd = ABK_FIDO_HID_CBOR then hid_cbor K E W D U r cid data (usb, f, d)
     else Some (abk_fido_send_hid_error U cid ABK_FIDO_HID_ERR_INVALID_CMD usb, f, d))"

subsection \<open>Reassembly\<close>

text \<open>
  What a report asks of the worker: nothing, an error reply, or running the message it
  completes.  The header byte's top bit marks an initialisation packet; the 16-bit lengths
  are the code's \<open>u16\<close> fields.
\<close>

datatype hid_action =
    HidQuiet
  | HidError u32 u8
  | HidMessage u32 u8 "u8 list"

text \<open>The channel as an initialisation packet leaves it, and after a continuation packet.\<close>

definition packet_expected :: "u8 list \<Rightarrow> u16" where
  "packet_expected packet = word_of_nat (be_val (take 2 (drop 5 packet)))"

definition init_channel :: "u32 \<Rightarrow> u8 list \<Rightarrow> abk_fido_channel" where
  "init_channel cid packet =
     (let expected = packet_expected packet;
          n = min (unat expected) (ABK_FIDO_REPORT_LEN - 7)
      in zero_channel\<lparr>ch_in_use := True, ch_cid := cid, ch_cmd := (packet ! 4) AND 0x7f,
           ch_expected_len := expected, ch_received_len := word_of_nat n, ch_next_seq := 0,
           ch_msg := overwrite 0 (take n (drop 7 packet)) (ch_msg zero_channel)\<rparr>)"

definition cont_channel :: "u8 list \<Rightarrow> abk_fido_channel \<Rightarrow> abk_fido_channel" where
  "cont_channel packet ch =
     (let chunk = min (unat (ucast (ch_expected_len ch) - ucast (ch_received_len ch) :: u64))
            (ABK_FIDO_REPORT_LEN - 5)
      in ch\<lparr>ch_next_seq := ch_next_seq ch + 1,
           ch_msg := overwrite (unat (ch_received_len ch)) (take chunk (drop 5 packet)) (ch_msg ch),
           ch_received_len := ch_received_len ch + word_of_nat chunk\<rparr>)"

text \<open>A message that is complete frees its channel.\<close>

definition hid_received :: "u32 \<Rightarrow> nat \<Rightarrow> abk_fido_channel \<Rightarrow> abk_fido_device \<Rightarrow> hid_action \<times> abk_fido_device" where
  "hid_received cid i ch d =
     (if ch_received_len ch = ch_expected_len ch then
        (HidMessage cid (ch_cmd ch) (take (unat (ch_received_len ch)) (ch_msg ch)), set_channel i zero_channel d)
      else (HidQuiet, set_channel i ch d))"

definition hid_init_step :: "u32 \<Rightarrow> u8 list \<Rightarrow> abk_fido_device \<Rightarrow> hid_action \<times> abk_fido_device" where
  "hid_init_step cid packet d =
     (if ABK_FIDO_MAX_MSG < unat (packet_expected packet) then
        (HidError cid ABK_FIDO_HID_ERR_INVALID_LEN, d)
      else
        (case (case abk_fido_find_channel_locked cid d of
                 Some i \<Rightarrow> (i, d)
               | None \<Rightarrow> abk_fido_alloc_channel_locked cid d) of
           (i, d) \<Rightarrow> hid_received cid i (init_channel cid packet) d))"

definition hid_cont_step :: "u32 \<Rightarrow> u8 list \<Rightarrow> abk_fido_device \<Rightarrow> hid_action \<times> abk_fido_device" where
  "hid_cont_step cid packet d =
     (case abk_fido_find_channel_locked cid d of
        None \<Rightarrow> (HidError cid ABK_FIDO_HID_ERR_INVALID_CID, d)
      | Some i \<Rightarrow>
          if packet ! 4 \<noteq> ch_next_seq (dv_channels d ! i) then
            (HidError cid ABK_FIDO_HID_ERR_INVALID_SEQ, set_channel i zero_channel d)
          else hid_received cid i (cont_channel packet (dv_channels d ! i)) d)"

definition hid_step :: "u8 list \<Rightarrow> abk_fido_device \<Rightarrow> hid_action \<times> abk_fido_device" where
  "hid_step packet d =
     (let cid = be32_val (take 4 packet);
          header = packet ! 4
      in if header AND 0x80 \<noteq> 0 then hid_init_step cid packet d else hid_cont_step cid packet d)"

definition abk_fido_process_packet ::
    "klib \<Rightarrow> kenv \<Rightarrow> others \<Rightarrow> nat \<Rightarrow> usb_env \<Rightarrow> usb_ref \<Rightarrow> abk_fido_report \<Rightarrow> hid_state
     \<Rightarrow> hid_state option" where
  "abk_fido_process_packet K E W D U r report = (\<lambda>(usb, f, d).
     if rep_len report \<noteq> ABK_FIDO_REPORT_LEN then Some (usb, f, d)
     else
       (let usb = (if us_tx_pending usb \<and> us_in_ep usb \<and> us_in_req usb \<noteq> None then ue_dequeue U usb
                   else usb)
        in case hid_step (rep_data report) d of
             (HidQuiet, d) \<Rightarrow> Some (usb, f, d)
           | (HidError cid err, d) \<Rightarrow> Some (abk_fido_send_hid_error U cid err usb, f, d)
           | (HidMessage cid cmd msg, d) \<Rightarrow>
               if ue_msg_ok U then abk_fido_dispatch_msg K E W D U r cid cmd msg (usb, f, d)
               else Some (abk_fido_send_hid_error U cid ABK_FIDO_HID_ERR_OTHER usb, f, d)))"

text \<open>
  The worker's loop.  Reports may arrive while it runs, so what ends it is the environment:
  one round of parameters per report, and \<open>None\<close> when they run out before the queue is empty.
\<close>

fun abk_fido_rx_worker ::
    "klib \<Rightarrow> nat \<Rightarrow> (kenv \<times> others \<times> usb_env) list \<Rightarrow> usb_ref \<Rightarrow> hid_state \<Rightarrow> hid_state option" where
  "abk_fido_rx_worker K D rounds r (usb, f, d) =
     (case abk_fido_queue_pop (us_rx_packets usb) of
        (None, q) \<Rightarrow> Some (usb\<lparr>us_rx_packets := q\<rparr>, f, d)
      | (Some report, q) \<Rightarrow>
          (case rounds of
             [] \<Rightarrow> None
           | (E, W, U) # rounds \<Rightarrow>
               (case abk_fido_process_packet K E W D U r report (usb\<lparr>us_rx_packets := q\<rparr>, f, d) of
                  None \<Rightarrow> None
                | Some s \<Rightarrow> abk_fido_rx_worker K D rounds r s)))"

declare abk_fido_rx_worker.simps [simp del]

end
