(* ===== verification/Hid_Framing.thy ===== *)
theory Hid_Framing
  imports Hid_Channels
begin

unbundle bit_operations_syntax

section \<open>Framing: what the channels promise\<close>

text \<open>
  The channel table of four entries against its specification: one conversation per channel
  id, which sees only the packets of that id.  The table refines it as long as it has room
  (\<open>hid_step_conv\<close>), and a conversation reassembles what the transmit side cuts
  (\<open>conv_packets\<close>); so a message that arrives in reports interleaved with those of other
  channels is delivered once and complete.  The table's invariant \<open>channels_ok\<close> bounds every
  copy into a channel's buffer.
\<close>

definition channel_ok :: "abk_fido_channel \<Rightarrow> bool" where
  "channel_ok ch \<longleftrightarrow> length (ch_msg ch) = ABK_FIDO_MAX_MSG
     \<and> unat (ch_received_len ch) \<le> unat (ch_expected_len ch)
     \<and> unat (ch_expected_len ch) \<le> ABK_FIDO_MAX_MSG"

definition channels_ok :: "abk_fido_device \<Rightarrow> bool" where
  "channels_ok d \<longleftrightarrow> length (dv_channels d) = ABK_FIDO_MAX_CHANNELS
     \<and> list_all channel_ok (dv_channels d)
     \<and> (\<forall>i<ABK_FIDO_MAX_CHANNELS. \<forall>j<ABK_FIDO_MAX_CHANNELS.
          ch_in_use (dv_channels d ! i) \<and> ch_in_use (dv_channels d ! j)
          \<and> ch_cid (dv_channels d ! i) = ch_cid (dv_channels d ! j) \<longrightarrow> i = j)"

definition live_cids :: "abk_fido_device \<Rightarrow> u32 set" where
  "live_cids d = ch_cid ` set (filter ch_in_use (dv_channels d))"

definition conversation :: "abk_fido_device \<Rightarrow> u32 \<Rightarrow> abk_fido_channel option" where
  "conversation d cid = map_option (\<lambda>i. dv_channels d ! i) (abk_fido_find_channel_locked cid d)"

subsection \<open>Finding and setting channels\<close>

lemma find_upt_Some:
  "find P [0..<n] = Some i \<Longrightarrow> i < n \<and> P i"
  by (auto simp: find_Some_iff)

lemma find_upt_None: "find P [0..<n] = None \<longleftrightarrow> (\<forall>i<n. \<not> P i)"
  by (auto simp: find_None_iff)

lemma find_channel_iff:
  assumes "channels_ok d"
  shows "abk_fido_find_channel_locked cid d = Some i \<longleftrightarrow>
    i < ABK_FIDO_MAX_CHANNELS \<and> ch_in_use (dv_channels d ! i) \<and> ch_cid (dv_channels d ! i) = cid"
proof
  assume "abk_fido_find_channel_locked cid d = Some i"
  then show "i < ABK_FIDO_MAX_CHANNELS \<and> ch_in_use (dv_channels d ! i) \<and> ch_cid (dv_channels d ! i) = cid"
    unfolding abk_fido_find_channel_locked_def by (rule find_upt_Some)
next
  assume i: "i < ABK_FIDO_MAX_CHANNELS \<and> ch_in_use (dv_channels d ! i) \<and> ch_cid (dv_channels d ! i) = cid"
  then have "abk_fido_find_channel_locked cid d \<noteq> None"
    unfolding abk_fido_find_channel_locked_def find_upt_None by blast
  then obtain j where j: "abk_fido_find_channel_locked cid d = Some j" by blast
  then have "j < ABK_FIDO_MAX_CHANNELS \<and> ch_in_use (dv_channels d ! j) \<and> ch_cid (dv_channels d ! j) = cid"
    unfolding abk_fido_find_channel_locked_def by (rule find_upt_Some)
  with assms i have "i = j" unfolding channels_ok_def by (auto; blast)
  with j show "abk_fido_find_channel_locked cid d = Some i" by simp
qed

lemma channels_ok_unique:
  "channels_ok d \<Longrightarrow> i < ABK_FIDO_MAX_CHANNELS \<Longrightarrow> j < ABK_FIDO_MAX_CHANNELS \<Longrightarrow>
     ch_in_use (dv_channels d ! i) \<Longrightarrow> ch_in_use (dv_channels d ! j) \<Longrightarrow>
     ch_cid (dv_channels d ! i) = ch_cid (dv_channels d ! j) \<Longrightarrow> i = j"
  unfolding channels_ok_def by blast

lemma zero_channel_ok [simp]: "channel_ok zero_channel"
  by (simp add: channel_ok_def zero_channel_def)

lemma zero_channel_free [simp]: "\<not> ch_in_use zero_channel"
  by (simp add: zero_channel_def)

lemma set_channel_nth:
  "channels_ok d \<Longrightarrow> i < ABK_FIDO_MAX_CHANNELS \<Longrightarrow> j < ABK_FIDO_MAX_CHANNELS \<Longrightarrow>
     dv_channels (set_channel i ch d) ! j = (if j = i then ch else dv_channels d ! j)"
  by (simp add: set_channel_def channels_ok_def)

text \<open>Slot \<open>i\<close> may be given to \<open>cid\<close>: no other slot in use has it.\<close>

definition slot_for :: "u32 \<Rightarrow> nat \<Rightarrow> abk_fido_device \<Rightarrow> bool" where
  "slot_for cid i d \<longleftrightarrow> i < ABK_FIDO_MAX_CHANNELS
     \<and> (\<forall>j<ABK_FIDO_MAX_CHANNELS. ch_in_use (dv_channels d ! j) \<and> ch_cid (dv_channels d ! j) = cid \<longrightarrow> j = i)"

lemma set_channel_ok:
  assumes "channels_ok d" "slot_for cid i d" "channel_ok ch" "ch_in_use ch \<longrightarrow> ch_cid ch = cid"
  shows "channels_ok (set_channel i ch d)"
proof -
  have len: "length (dv_channels (set_channel i ch d)) = ABK_FIDO_MAX_CHANNELS"
    using assms(1) by (simp add: set_channel_def channels_ok_def)
  have "list_all channel_ok (dv_channels (set_channel i ch d))"
    using assms(1,3) by (auto simp: set_channel_def channels_ok_def list_all_iff dest!: subsetD [OF set_update_subset_insert])
  moreover have "j = k" if "j < ABK_FIDO_MAX_CHANNELS" "k < ABK_FIDO_MAX_CHANNELS"
    "ch_in_use (dv_channels (set_channel i ch d) ! j)" "ch_in_use (dv_channels (set_channel i ch d) ! k)"
    "ch_cid (dv_channels (set_channel i ch d) ! j) = ch_cid (dv_channels (set_channel i ch d) ! k)" for j k
  proof -
    have i: "i < ABK_FIDO_MAX_CHANNELS" using assms(2) by (simp add: slot_for_def)
    show ?thesis
    proof (cases "j = i \<or> k = i")
      case True
      with that assms(2,4) show ?thesis
        unfolding set_channel_nth [OF assms(1) i that(1)] set_channel_nth [OF assms(1) i that(2)] slot_for_def
        by (metis (full_types))
    next
      case False
      with that show ?thesis
        unfolding set_channel_nth [OF assms(1) i that(1)] set_channel_nth [OF assms(1) i that(2)]
        using channels_ok_unique [OF assms(1) that(1,2)] by simp
    qed
  qed
  ultimately show ?thesis using len unfolding channels_ok_def by blast
qed

lemma conversation_eq:
  assumes "channels_ok d"
  shows "conversation d cid = Some ch \<longleftrightarrow>
    (\<exists>i<ABK_FIDO_MAX_CHANNELS. dv_channels d ! i = ch \<and> ch_in_use ch \<and> ch_cid ch = cid)"
  using find_channel_iff [OF assms] by (auto simp: conversation_def)

lemma conversation_set:
  assumes ok: "channels_ok d" and slot: "slot_for cid i d" and ch: "channel_ok ch" "ch_in_use ch \<longrightarrow> ch_cid ch = cid"
    and free: "ch_in_use (dv_channels d ! i) \<longrightarrow> ch_cid (dv_channels d ! i) = cid"
  shows "conversation (set_channel i ch d) =
    (conversation d)(cid := if ch_in_use ch then Some ch else None)"
proof
  fix c
  note ok' = set_channel_ok [OF ok slot ch]
  have i: "i < ABK_FIDO_MAX_CHANNELS" using slot by (simp add: slot_for_def)
  note nth = set_channel_nth [OF ok i]
  have "conversation (set_channel i ch d) c = Some x \<longleftrightarrow>
      ((conversation d)(cid := if ch_in_use ch then Some ch else None)) c = Some x" for x
  proof (cases "c = cid")
    case True
    have "(\<exists>j<ABK_FIDO_MAX_CHANNELS. dv_channels (set_channel i ch d) ! j = x \<and> ch_in_use x \<and> ch_cid x = cid)
        \<longleftrightarrow> ch = x \<and> ch_in_use x" (is "?L \<longleftrightarrow> ?R")
    proof
      assume ?L
      then obtain j where j: "j < ABK_FIDO_MAX_CHANNELS" "dv_channels (set_channel i ch d) ! j = x"
        "ch_in_use x" "ch_cid x = cid" by blast
      have "j = i"
      proof (rule ccontr)
        assume "j \<noteq> i"
        with j nth [OF j(1)] have "ch_in_use (dv_channels d ! j) \<and> ch_cid (dv_channels d ! j) = cid" by simp
        with slot j(1) \<open>j \<noteq> i\<close> show False unfolding slot_for_def by blast
      qed
      with j nth [OF j(1)] show ?R by simp
    next
      assume ?R
      with i ch nth [OF i] show ?L by (intro exI [of _ i]) simp
    qed
    with True show ?thesis by (auto simp: conversation_eq [OF ok'])
  next
    case False
    have "(dv_channels (set_channel i ch d) ! j = x \<and> ch_in_use x \<and> ch_cid x = c)
        = (dv_channels d ! j = x \<and> ch_in_use x \<and> ch_cid x = c)" if "j < ABK_FIDO_MAX_CHANNELS" for j
      using False ch free unfolding nth [OF that] by (cases "j = i") auto
    then have "(\<exists>j<ABK_FIDO_MAX_CHANNELS. dv_channels (set_channel i ch d) ! j = x \<and> ch_in_use x \<and> ch_cid x = c)
        = (\<exists>j<ABK_FIDO_MAX_CHANNELS. dv_channels d ! j = x \<and> ch_in_use x \<and> ch_cid x = c)"
      by blast
    with False show ?thesis by (simp add: conversation_eq [OF ok'] conversation_eq [OF ok])
  qed
  then show "conversation (set_channel i ch d) c =
      ((conversation d)(cid := if ch_in_use ch then Some ch else None)) c"
    by (metis not_None_eq)
qed

subsection \<open>One conversation\<close>

definition conv_received :: "u32 \<Rightarrow> abk_fido_channel \<Rightarrow> hid_action \<times> abk_fido_channel option" where
  "conv_received cid ch =
     (if ch_received_len ch = ch_expected_len ch then
        (HidMessage cid (ch_cmd ch) (take (unat (ch_received_len ch)) (ch_msg ch)), None)
      else (HidQuiet, Some ch))"

definition conv_step :: "u8 list \<Rightarrow> abk_fido_channel option \<Rightarrow> hid_action \<times> abk_fido_channel option" where
  "conv_step packet c =
     (let cid = be32_val (take 4 packet) in
      if packet ! 4 AND 0x80 \<noteq> 0 then
        (if ABK_FIDO_MAX_MSG < unat (packet_expected packet) then
           (HidError cid ABK_FIDO_HID_ERR_INVALID_LEN, c)
         else conv_received cid (init_channel cid packet))
      else
        (case c of
           None \<Rightarrow> (HidError cid ABK_FIDO_HID_ERR_INVALID_CID, None)
         | Some ch \<Rightarrow>
             if packet ! 4 \<noteq> ch_next_seq ch then (HidError cid ABK_FIDO_HID_ERR_INVALID_SEQ, None)
             else conv_received cid (cont_channel packet ch)))"

lemma init_channel_facts [simp]:
  "ch_in_use (init_channel cid packet)" "ch_cid (init_channel cid packet) = cid"
  "ch_next_seq (init_channel cid packet) = 0"
  "ch_cmd (init_channel cid packet) = packet ! 4 AND 0x7f"
  "ch_expected_len (init_channel cid packet) = packet_expected packet"
  by (simp_all add: init_channel_def Let_def)

lemma cont_channel_facts [simp]:
  "ch_in_use (cont_channel packet ch) = ch_in_use ch" "ch_cid (cont_channel packet ch) = ch_cid ch"
  "ch_next_seq (cont_channel packet ch) = ch_next_seq ch + 1"
  "ch_cmd (cont_channel packet ch) = ch_cmd ch"
  "ch_expected_len (cont_channel packet ch) = ch_expected_len ch"
  by (simp_all add: cont_channel_def Let_def)

lemma unat_small_u16: "n < 65536 \<Longrightarrow> unat (word_of_nat n :: u16) = n"
  by (simp add: unat_of_nat)

lemma init_channel_received:
  "unat (ch_received_len (init_channel cid packet)) = min (unat (packet_expected packet)) 57"
  by (simp add: init_channel_def Let_def ABK_FIDO_REPORT_LEN_def unat_small_u16)

lemma init_channel_msg:
  "ch_msg (init_channel cid packet) =
     overwrite 0 (take (min (unat (packet_expected packet)) 57) (drop 7 packet)) (replicate ABK_FIDO_MAX_MSG 0)"
  by (simp add: init_channel_def Let_def ABK_FIDO_REPORT_LEN_def zero_channel_def)

lemma init_channel_ok:
  assumes "length packet = ABK_FIDO_REPORT_LEN" "unat (packet_expected packet) \<le> ABK_FIDO_MAX_MSG"
  shows "channel_ok (init_channel cid packet)"
  using assms
  by (simp add: channel_ok_def init_channel_received init_channel_msg ABK_FIDO_MAX_MSG_def ABK_FIDO_REPORT_LEN_def)

lemma u64_difference:
  fixes a b :: u16
  assumes "unat b \<le> unat a"
  shows "unat (ucast a - ucast b :: u64) = unat a - unat b"
proof -
  have "unat (ucast a :: u64) = unat a" "unat (ucast b :: u64) = unat b"
    using unsigned_less [of a, where 'a=nat] unsigned_less [of b, where 'a=nat] by (simp_all add: unat_ucast_mod)
  with assms show ?thesis by (simp add: unat_sub word_le_nat_alt)
qed

lemma cont_channel_received:
  assumes "channel_ok ch"
  shows "unat (ch_received_len (cont_channel packet ch)) =
    unat (ch_received_len ch) + min (unat (ch_expected_len ch) - unat (ch_received_len ch)) 59"
proof -
  let ?n = "min (unat (ch_expected_len ch) - unat (ch_received_len ch)) 59"
  have "unat (ch_received_len ch + word_of_nat ?n) = unat (ch_received_len ch) + ?n"
    using assms by (auto simp: channel_ok_def unat_word_ariths(1) unat_of_nat ABK_FIDO_MAX_MSG_def min_def)
  with assms show ?thesis
    by (simp add: cont_channel_def Let_def ABK_FIDO_REPORT_LEN_def channel_ok_def u64_difference)
qed

lemma cont_channel_msg:
  assumes "channel_ok ch"
  shows "ch_msg (cont_channel packet ch) = overwrite (unat (ch_received_len ch))
    (take (min (unat (ch_expected_len ch) - unat (ch_received_len ch)) 59) (drop 5 packet)) (ch_msg ch)"
  using assms by (simp add: cont_channel_def Let_def ABK_FIDO_REPORT_LEN_def channel_ok_def u64_difference)

lemma cont_channel_ok:
  assumes "channel_ok ch" "length packet = ABK_FIDO_REPORT_LEN"
  shows "channel_ok (cont_channel packet ch)"
proof -
  have "unat (ch_received_len ch) + min (unat (ch_expected_len ch) - unat (ch_received_len ch)) 59
      \<le> unat (ch_expected_len ch)" "unat (ch_expected_len ch) \<le> length (ch_msg ch)"
    using assms(1) by (auto simp: channel_ok_def min_def)
  then show ?thesis
    unfolding channel_ok_def cont_channel_received [OF assms(1)] cont_channel_msg [OF assms(1)]
    using assms by (subst length_overwrite) (auto simp: channel_ok_def ABK_FIDO_REPORT_LEN_def)
qed

subsection \<open>The table refines the conversations\<close>

definition has_room :: "u32 \<Rightarrow> abk_fido_device \<Rightarrow> bool" where
  "has_room cid d \<longleftrightarrow> conversation d cid \<noteq> None \<or> (\<exists>i<ABK_FIDO_MAX_CHANNELS. \<not> ch_in_use (dv_channels d ! i))"

lemma received_refines:
  assumes "channels_ok d" "slot_for cid i d"
    "ch_in_use (dv_channels d ! i) \<longrightarrow> ch_cid (dv_channels d ! i) = cid"
    "channel_ok ch" "ch_in_use ch" "ch_cid ch = cid"
  shows "channels_ok (snd (hid_received cid i ch d))"
    and "fst (hid_received cid i ch d) = fst (conv_received cid ch)"
    and "conversation (snd (hid_received cid i ch d)) = (conversation d)(cid := snd (conv_received cid ch))"
  using assms set_channel_ok [OF assms(1,2), of ch] set_channel_ok [OF assms(1,2), of zero_channel]
    conversation_set [OF assms(1,2), of ch] conversation_set [OF assms(1,2), of zero_channel]
  by (simp_all add: hid_received_def conv_received_def)

lemma slot_for_found:
  assumes "channels_ok d" "abk_fido_find_channel_locked cid d = Some i"
  shows "slot_for cid i d" "ch_cid (dv_channels d ! i) = cid" "conversation d cid = Some (dv_channels d ! i)"
    "ch_in_use (dv_channels d ! i)" "channel_ok (dv_channels d ! i)"
  using assms find_channel_iff [OF assms(1), of cid i] channels_ok_unique [OF assms(1)]
  by (auto simp: slot_for_def conversation_def channels_ok_def list_all_length)

lemma slot_for_new:
  assumes "channels_ok d" "abk_fido_find_channel_locked cid d = None" "i < ABK_FIDO_MAX_CHANNELS"
  shows "slot_for cid i d"
  using assms(2,3) unfolding abk_fido_find_channel_locked_def find_upt_None slot_for_def by blast

lemma set_channel_twice [simp]: "set_channel i x (set_channel i y d) = set_channel i x d"
  by (simp add: set_channel_def)

text \<open>The table of four channels keeps its invariant even when it evicts one.\<close>

lemma init_step_cases:
  assumes "channels_ok d" "unat (packet_expected packet) \<le> ABK_FIDO_MAX_MSG"
  obtains i where "hid_init_step cid packet d = hid_received cid i (init_channel cid packet) d" "slot_for cid i d"
    "has_room cid d \<Longrightarrow> ch_in_use (dv_channels d ! i) \<longrightarrow> ch_cid (dv_channels d ! i) = cid"
proof (cases "abk_fido_find_channel_locked cid d")
  case (Some i)
  with assms slot_for_found [OF assms(1) Some] show ?thesis
    by (intro that [of i]) (simp_all add: hid_init_step_def)
next
  case None
  note new = slot_for_new [OF assms(1) None]
  show ?thesis
  proof (cases "find (\<lambda>i. \<not> ch_in_use (dv_channels d ! i)) [0..<ABK_FIDO_MAX_CHANNELS]")
    case full: None
    then have "\<not> has_room cid d"
      using None by (simp add: has_room_def conversation_def find_upt_None)
    with assms None full new [of 0] show ?thesis
      by (intro that [of 0])
        (simp_all add: hid_init_step_def abk_fido_alloc_channel_locked_def ABK_FIDO_MAX_CHANNELS_def)
  next
    case free: (Some i)
    then have i: "i < ABK_FIDO_MAX_CHANNELS" "\<not> ch_in_use (dv_channels d ! i)"
      using find_upt_Some [OF free] by auto
    have "hid_received cid i ch (set_channel i c0 d) = hid_received cid i ch d" for ch c0
      by (simp add: hid_received_def)
    with assms None free i new show ?thesis
      by (intro that [of i]) (simp_all add: hid_init_step_def abk_fido_alloc_channel_locked_def)
  qed
qed

lemma received_keeps_ok:
  assumes "channels_ok d" "slot_for cid i d" "channel_ok ch" "ch_cid ch = cid"
  shows "channels_ok (snd (hid_received cid i ch d))"
  using assms set_channel_ok [OF assms(1,2), of ch] set_channel_ok [OF assms(1,2), of zero_channel]
  by (simp add: hid_received_def)

lemma hid_step_ok:
  assumes "channels_ok d" "length packet = ABK_FIDO_REPORT_LEN"
  shows "channels_ok (snd (hid_step packet d))"
proof (cases "packet ! 4 AND 0x80 \<noteq> 0")
  case True
  let ?cid = "be32_val (take 4 packet)"
  show ?thesis
  proof (cases "unat (packet_expected packet) \<le> ABK_FIDO_MAX_MSG")
    case le: True
    from init_step_cases [OF assms(1) le, of ?cid] obtain i where
      "hid_init_step ?cid packet d = hid_received ?cid i (init_channel ?cid packet) d" "slot_for ?cid i d"
      by blast
    with True received_keeps_ok [OF assms(1)] init_channel_ok [OF assms(2) le] show ?thesis
      by (simp add: hid_step_def Let_def)
  qed (use True assms in \<open>simp add: hid_step_def hid_init_step_def Let_def\<close>)
next
  case False
  show ?thesis
  proof (cases "abk_fido_find_channel_locked (be32_val (take 4 packet)) d")
    case (Some i)
    note f = slot_for_found [OF assms(1) Some]
    from f False Some show ?thesis
      using received_keeps_ok [OF assms(1) f(1) cont_channel_ok [OF f(5) assms(2)]]
        set_channel_ok [OF assms(1) f(1), of zero_channel]
      by (simp add: hid_step_def hid_cont_step_def Let_def)
  qed (use False assms in \<open>simp add: hid_step_def hid_cont_step_def Let_def\<close>)
qed

lemma hid_step_conv:
  assumes "channels_ok d" "length packet = ABK_FIDO_REPORT_LEN" "cid = be32_val (take 4 packet)"
    "has_room cid d"
  shows "fst (hid_step packet d) = fst (conv_step packet (conversation d cid))
    \<and> conversation (snd (hid_step packet d)) =
        (conversation d)(cid := snd (conv_step packet (conversation d cid)))"
proof (cases "packet ! 4 AND 0x80 \<noteq> 0")
  case True
  show ?thesis
  proof (cases "unat (packet_expected packet) \<le> ABK_FIDO_MAX_MSG")
    case le: True
    from init_step_cases [OF assms(1) le, of cid] assms(4) obtain i where i:
      "hid_init_step cid packet d = hid_received cid i (init_channel cid packet) d" "slot_for cid i d"
      "ch_in_use (dv_channels d ! i) \<longrightarrow> ch_cid (dv_channels d ! i) = cid"
      by blast
    with True le received_refines [OF assms(1) i(2,3) init_channel_ok [OF assms(2) le]] assms(3) show ?thesis
      by (simp add: hid_step_def conv_step_def Let_def)
  qed (use True assms in \<open>simp add: hid_step_def hid_init_step_def conv_step_def Let_def\<close>)
next
  case False
  show ?thesis
  proof (cases "abk_fido_find_channel_locked cid d")
    case (Some i)
    note f = slot_for_found [OF assms(1) Some]
    from f False Some assms(3) show ?thesis
      using received_refines [OF assms(1) f(1) _ cont_channel_ok [OF f(5) assms(2)]]
        conversation_set [OF assms(1) f(1), of zero_channel]
      by (simp add: hid_step_def hid_cont_step_def conv_step_def Let_def)
  next
    case None
    then have "conversation d cid = None" by (simp add: conversation_def)
    with None False assms(3) show ?thesis
      by (auto simp: hid_step_def hid_cont_step_def conv_step_def Let_def)
  qed
qed

subsection \<open>Reassembly inverts framing\<close>

lemma packet_facts:
  assumes "length bs \<le> ABK_FIDO_REPORT_LEN"
  shows "packet_of bs = bs @ replicate (ABK_FIDO_REPORT_LEN - length bs) 0"
  using assms by (simp add: packet_of_def overwrite_def)

lemma header_bits:
  "list_all (\<lambda>n. (word_of_nat n :: u8) AND 0x80 = 0 \<and> ((word_of_nat n :: u8) OR 0x80) AND 0x80 \<noteq> 0
     \<and> ((word_of_nat n :: u8) OR 0x80) AND 0x7f = word_of_nat n) [0..<128]"
  by code_simp

lemma header_bit:
  fixes b :: u8
  assumes "unat b < 128"
  shows "b AND 0x80 = 0" "(b OR 0x80) AND 0x80 \<noteq> 0" "(b OR 0x80) AND 0x7f = b"
proof -
  have "unat b \<in> set [0..<128]" using assms by simp
  with header_bits show "b AND 0x80 = 0" "(b OR 0x80) AND 0x80 \<noteq> 0" "(b OR 0x80) AND 0x7f = b"
    unfolding list_all_iff by fastforce+
qed

lemma init_packet_facts:
  assumes "length payload \<le> ABK_FIDO_MAX_MSG" "unat cmd < 128"
  shows "length (init_packet cid cmd payload) = ABK_FIDO_REPORT_LEN"
    "be32_val (take 4 (init_packet cid cmd payload)) = cid"
    "init_packet cid cmd payload ! 4 = cmd OR 0x80"
    "packet_expected (init_packet cid cmd payload) = word_of_nat (length payload)"
    "take (min (length payload) 57) (drop 7 (init_packet cid cmd payload)) = take 57 payload"
proof -
  let ?bs = "be32_bytes cid @ [cmd OR 0x80] @ be_bytes 2 (length payload) @ take 57 payload"
  have "init_packet cid cmd payload = ?bs @ replicate (64 - length ?bs) 0"
    unfolding init_packet_def using packet_facts [of ?bs] by (simp add: ABK_FIDO_REPORT_LEN_def)
  with assms show "length (init_packet cid cmd payload) = ABK_FIDO_REPORT_LEN"
    "be32_val (take 4 (init_packet cid cmd payload)) = cid"
    "init_packet cid cmd payload ! 4 = cmd OR 0x80"
    "packet_expected (init_packet cid cmd payload) = word_of_nat (length payload)"
    "take (min (length payload) 57) (drop 7 (init_packet cid cmd payload)) = take 57 payload"
    by (simp_all add: ABK_FIDO_REPORT_LEN_def ABK_FIDO_MAX_MSG_def packet_expected_def nth_append min_def)
qed

lemma cont_packet_facts:
  assumes p: "p = packet_of (be32_bytes cid @ [seq] @ take (ABK_FIDO_REPORT_LEN - 5) rest)"
  shows "length p = ABK_FIDO_REPORT_LEN" "be32_val (take 4 p) = cid" "p ! 4 = seq"
    "take (min (length rest) 59) (drop 5 p) = take 59 rest"
proof -
  let ?bs = "be32_bytes cid @ [seq] @ take 59 rest"
  have "p = ?bs @ replicate (64 - length ?bs) 0"
    unfolding p using packet_facts [of ?bs] by (simp add: ABK_FIDO_REPORT_LEN_def)
  then show "length p = ABK_FIDO_REPORT_LEN" "be32_val (take 4 p) = cid" "p ! 4 = seq"
    "take (min (length rest) 59) (drop 5 p) = take 59 rest"
    by (simp_all add: ABK_FIDO_REPORT_LEN_def nth_append min_def)
qed

fun conv_run :: "u8 list list \<Rightarrow> abk_fido_channel option \<Rightarrow> hid_action list \<times> abk_fido_channel option" where
  "conv_run [] c = ([], c)"
| "conv_run (p # ps) c =
     (case conv_step p c of (a, c) \<Rightarrow> (case conv_run ps c of (as, c) \<Rightarrow> (a # as, c)))"

text \<open>A channel that has received the first part of a message.\<close>

definition partway :: "u32 \<Rightarrow> u8 \<Rightarrow> u8 list \<Rightarrow> u8 \<Rightarrow> nat \<Rightarrow> abk_fido_channel \<Rightarrow> bool" where
  "partway cid cmd payload seq n ch \<longleftrightarrow> channel_ok ch \<and> ch_cid ch = cid \<and> ch_cmd ch = cmd \<and> ch_next_seq ch = seq
     \<and> unat (ch_received_len ch) = n \<and> unat (ch_expected_len ch) = length payload
     \<and> take n (ch_msg ch) = take n payload \<and> n < length payload"

lemma received_partway:
  assumes "unat (ch_received_len ch) = unat (ch_expected_len ch)" "unat (ch_expected_len ch) = length payload"
    "take (length payload) (ch_msg ch) = payload" "ch_cmd ch = cmd"
  shows "conv_received cid ch = (HidMessage cid cmd payload, None)"
  using assms by (simp add: conv_received_def word_unat_eq_iff)

lemma cont_step_partway:
  assumes "partway cid cmd payload seq n ch" "unat seq < 128"
  defines "p \<equiv> packet_of (be32_bytes cid @ [seq] @ take (ABK_FIDO_REPORT_LEN - 5) (drop n payload))"
  shows "if length payload \<le> n + 59 then conv_step p (Some ch) = (HidMessage cid cmd payload, None)
    else conv_step p (Some ch) = (HidQuiet, Some (cont_channel p ch))
      \<and> partway cid cmd payload (seq + 1) (n + 59) (cont_channel p ch)"
proof -
  note pf = cont_packet_facts [OF meta_eq_to_obj_eq [OF p_def]]
  from assms(1) have ok: "channel_ok ch" and n: "unat (ch_received_len ch) = n"
    and e: "unat (ch_expected_len ch) = length payload" and c: "ch_cmd ch = cmd" "ch_next_seq ch = seq"
    and t: "take n (ch_msg ch) = take n payload" and lt: "n < length payload"
    by (simp_all add: partway_def)
  let ?ch = "cont_channel p ch"
  have rec: "unat (ch_received_len ?ch) = n + min (length payload - n) 59"
    using cont_channel_received [OF ok] n e by simp
  have chunk: "take (min (length payload - n) 59) (drop 5 p) = take 59 (drop n payload)"
    using pf(4) by simp
  have "length payload \<le> length (ch_msg ch)" using ok e by (simp add: channel_ok_def)
  then have msg: "take (n + min (length payload - n) 59) (ch_msg ?ch) = take (n + 59) payload"
    unfolding cont_channel_msg [OF ok] n e chunk
    using t lt by (simp add: overwrite_def take_add min_def)
  have step: "conv_step p (Some ch) = conv_received cid ?ch"
    using pf c header_bit(1) [OF assms(2)] by (simp add: conv_step_def)
  show ?thesis
  proof (cases "length payload \<le> n + 59")
    case True
    with rec msg e c lt show ?thesis
      unfolding step by (auto intro!: received_partway)
  next
    case False
    have "channel_ok ?ch" using cont_channel_ok [OF ok pf(1)] .
    with False rec msg e c assms(1) have "partway cid cmd payload (seq + 1) (n + 59) ?ch"
      by (simp add: partway_def)
    moreover have "conv_received cid ?ch = (HidQuiet, Some ?ch)"
      using False rec e by (auto simp: conv_received_def)
    ultimately show ?thesis using False step by simp
  qed
qed

lemma cont_packets_run:
  assumes "partway cid cmd payload seq n ch" "unat seq + (length payload - n) div 59 < 128"
  shows "\<exists>k. conv_run (cont_packets cid seq (drop n payload)) (Some ch) =
    (replicate k HidQuiet @ [HidMessage cid cmd payload], None)"
  using assms
proof (induction "length payload - n" arbitrary: n seq ch rule: less_induct)
  case less
  then have seq: "unat seq < 128" by linarith
  have lt: "n < length payload" using less.prems(1) by (simp add: partway_def)
  let ?p = "packet_of (be32_bytes cid @ [seq] @ take (ABK_FIDO_REPORT_LEN - 5) (drop n payload))"
  have pk: "cont_packets cid seq (drop n payload) = ?p # cont_packets cid (seq + 1) (drop (n + 59) payload)"
    using lt by (subst cont_packets.simps) (simp add: ABK_FIDO_REPORT_LEN_def add.commute)
  note st = cont_step_partway [OF less.prems(1) seq]
  show ?case
  proof (cases "length payload \<le> n + 59")
    case True
    then have "cont_packets cid (seq + 1) (drop (n + 59) payload) = []"
      by (subst cont_packets.simps) simp
    with st True pk show ?thesis by (intro exI [of _ 0]) simp
  next
    case False
    have "(length payload - n) div 59 = Suc ((length payload - (n + 59)) div 59)"
      using False le_div_geq [of 59 "length payload - n"] by simp
    moreover have "unat (seq + 1) = unat seq + 1"
      using seq by (simp add: unat_word_ariths(1))
    ultimately have "unat (seq + 1) + (length payload - (n + 59)) div 59 < 128"
      using less.prems(2) by linarith
    moreover from st False have "partway cid cmd payload (seq + 1) (n + 59) (cont_channel ?p ch)" by simp
    moreover have "length payload - (n + 59) < length payload - n" using lt by simp
    ultimately obtain k where
      "conv_run (cont_packets cid (seq + 1) (drop (n + 59) payload)) (Some (cont_channel ?p ch)) =
        (replicate k HidQuiet @ [HidMessage cid cmd payload], None)" using less.hyps by blast
    with st False pk show ?thesis by (intro exI [of _ "Suc k"]) simp
  qed
qed

lemma conv_packets:
  assumes "length payload \<le> ABK_FIDO_MAX_MSG" "unat cmd < 128"
  shows "\<exists>k. conv_run (hid_packets cid cmd payload) c =
    (replicate k HidQuiet @ [HidMessage cid cmd payload], None)"
proof -
  let ?p = "init_packet cid cmd payload" and ?ch = "init_channel cid (init_packet cid cmd payload)"
  note pf = init_packet_facts [OF assms, of cid] and hb = header_bit [OF assms(2)]
  have e: "unat (packet_expected ?p) = length payload"
    using pf(4) assms(1) by (simp add: unat_small_u16 ABK_FIDO_MAX_MSG_def)
  have step: "conv_step ?p c = conv_received cid ?ch"
    using pf hb e assms(1) by (simp add: conv_step_def)
  have rec: "unat (ch_received_len ?ch) = min (length payload) 57"
    using init_channel_received [of cid ?p] e by simp
  have msg: "take (min (length payload) 57) (ch_msg ?ch) = take 57 payload"
    unfolding init_channel_msg e pf(5) by (simp add: overwrite_def min_def)
  have ok: "channel_ok ?ch" using init_channel_ok [OF pf(1)] e assms(1) by simp
  show ?thesis
  proof (cases "length payload \<le> 57")
    case True
    have "cont_packets cid 0 (drop 57 payload) = []" using True by (subst cont_packets.simps) simp
    moreover have "conv_received cid ?ch = (HidMessage cid cmd payload, None)"
      using True rec msg e pf(3) hb(3) by (intro received_partway) (simp_all add: min_def)
    ultimately show ?thesis
      using step by (intro exI [of _ 0]) (simp add: hid_packets_def ABK_FIDO_REPORT_LEN_def)
  next
    case False
    then have "partway cid cmd payload 0 57 ?ch"
      using ok rec msg e pf(3) hb(3) by (simp add: partway_def)
    moreover have "unat (0 :: u8) + (length payload - 57) div 59 < 128"
      using assms(1) by (simp add: ABK_FIDO_MAX_MSG_def)
    ultimately obtain k where "conv_run (cont_packets cid 0 (drop 57 payload)) (Some ?ch) =
        (replicate k HidQuiet @ [HidMessage cid cmd payload], None)"
      using cont_packets_run by blast
    moreover have "conv_received cid ?ch = (HidQuiet, Some ?ch)"
      using False rec e by (auto simp: conv_received_def)
    ultimately show ?thesis
      using step by (intro exI [of _ "Suc k"]) (simp add: hid_packets_def ABK_FIDO_REPORT_LEN_def)
  qed
qed

subsection \<open>Interleaved streams\<close>

fun hid_run :: "u8 list list \<Rightarrow> abk_fido_device \<Rightarrow> hid_action list \<times> abk_fido_device" where
  "hid_run [] d = ([], d)"
| "hid_run (p # ps) d =
     (case hid_step p d of (a, d) \<Rightarrow> (case hid_run ps d of (as, d) \<Rightarrow> (a # as, d)))"

fun action_cid :: "hid_action \<Rightarrow> u32 option" where
  "action_cid HidQuiet = None"
| "action_cid (HidError cid err) = Some cid"
| "action_cid (HidMessage cid cmd msg) = Some cid"

definition packet_cid :: "u8 list \<Rightarrow> u32" where
  "packet_cid p = be32_val (take 4 p)"

lemma conv_step_cid: "action_cid (fst (conv_step p c)) \<in> {None, Some (packet_cid p)}"
  by (auto simp: conv_step_def conv_received_def packet_cid_def Let_def split: option.splits)

lemma live_cids_conversation:
  assumes "channels_ok d"
  shows "live_cids d = {cid. conversation d cid \<noteq> None}"
proof -
  have len: "length (dv_channels d) = ABK_FIDO_MAX_CHANNELS" using assms by (simp add: channels_ok_def)
  have "cid \<in> live_cids d \<longleftrightarrow> (\<exists>ch. conversation d cid = Some ch)" for cid
    unfolding conversation_eq [OF assms] live_cids_def using len by (auto simp: in_set_conv_nth)
  then show ?thesis by auto
qed

lemma room_for:
  assumes ok: "channels_ok d" and S: "live_cids d \<subseteq> S" "cid \<in> S" "finite S" "card S \<le> ABK_FIDO_MAX_CHANNELS"
  shows "has_room cid d"
proof (rule ccontr)
  assume no: "\<not> has_room cid d"
  let ?I = "{0..<ABK_FIDO_MAX_CHANNELS}"
  let ?f = "\<lambda>i. ch_cid (dv_channels d ! i)"
  from no have used: "\<forall>i\<in>?I. ch_in_use (dv_channels d ! i)" by (auto simp: has_room_def)
  with ok have inj: "inj_on ?f ?I"
    unfolding inj_on_def using channels_ok_unique [OF ok] by simp
  have "length (dv_channels d) = ABK_FIDO_MAX_CHANNELS" using ok by (simp add: channels_ok_def)
  with used have "?f ` ?I \<subseteq> live_cids d" by (auto simp: live_cids_def)
  moreover have "cid \<notin> live_cids d"
    using no unfolding live_cids_conversation [OF ok] has_room_def by simp
  ultimately have "insert cid (?f ` ?I) \<subseteq> S" "cid \<notin> ?f ` ?I" using S by auto
  then have "Suc (card (?f ` ?I)) \<le> card S"
    using card_mono [OF S(3), of "insert cid (?f ` ?I)"] by simp
  with S(4) card_image [OF inj] show False by simp
qed

lemma hid_run_conv:
  assumes "channels_ok d" "\<forall>p\<in>set ps. length p = ABK_FIDO_REPORT_LEN \<and> packet_cid p \<in> S"
    "live_cids d \<subseteq> S" "finite S" "card S \<le> ABK_FIDO_MAX_CHANNELS"
  shows "filter (\<lambda>a. action_cid a = Some c) (fst (hid_run ps d)) =
    filter (\<lambda>a. action_cid a = Some c)
      (fst (conv_run (filter (\<lambda>p. packet_cid p = c) ps) (conversation d c)))"
  using assms
proof (induction ps arbitrary: d)
  case Nil
  then show ?case by simp
next
  case (Cons p ps)
  from Cons.prems have p: "length p = ABK_FIDO_REPORT_LEN" "packet_cid p \<in> S" by auto
  note room = room_for [OF Cons.prems(1,3) p(2) Cons.prems(4,5)]
  obtain a d1 where s: "hid_step p d = (a, d1)" by fastforce
  obtain ca cc where cs: "conv_step p (conversation d (packet_cid p)) = (ca, cc)" by fastforce
  from hid_step_conv [OF Cons.prems(1) p(1) packet_cid_def room] s cs
  have a: "a = ca" and d1: "conversation d1 = (conversation d)(packet_cid p := cc)" by auto
  have ok1: "channels_ok d1" using hid_step_ok [OF Cons.prems(1) p(1)] s by simp
  have "live_cids d1 \<subseteq> S"
    using Cons.prems(3) p(2) d1 unfolding live_cids_conversation [OF ok1] live_cids_conversation [OF Cons.prems(1)]
    by (auto split: if_splits)
  with Cons.IH [OF ok1] Cons.prems have IH:
    "filter (\<lambda>a. action_cid a = Some c) (fst (hid_run ps d1)) =
     filter (\<lambda>a. action_cid a = Some c)
       (fst (conv_run (filter (\<lambda>p. packet_cid p = c) ps) (conversation d1 c)))" by simp
  show ?case
  proof (cases "packet_cid p = c")
    case True
    with IH s cs a d1 show ?thesis by (simp add: split_beta)
  next
    case False
    with conv_step_cid [of p "conversation d (packet_cid p)"] cs have "action_cid ca \<noteq> Some c" by auto
    with False IH s a d1 show ?thesis by (simp add: split_beta)
  qed
qed

lemma filter_quiet: "filter (\<lambda>a. action_cid a = Some c) (replicate k HidQuiet) = []"
  by (induction k) simp_all


definition two_pings :: "u8 list list" where
  "two_pings =
     (let a = hid_packets 5 ABK_FIDO_HID_PING (replicate 60 7);
          b = hid_packets 9 ABK_FIDO_HID_PING (replicate 58 8)
      in [a ! 0, b ! 0, a ! 1, b ! 1])"

lemma fresh_channels_ok: "channels_ok abk_fido_dev_initial" "live_cids abk_fido_dev_initial = {}"
  by (simp_all add: channels_ok_def live_cids_def abk_fido_dev_initial_def list_all_iff)


lemma hid_step_message:
  assumes "channels_ok d" "length packet = ABK_FIDO_REPORT_LEN" "hid_step packet d = (HidMessage cid cmd msg, d')"
  shows "length msg \<le> ABK_FIDO_MAX_MSG"
proof -
  have *: "length msg \<le> ABK_FIDO_MAX_MSG"
    if "hid_received c i ch d = (HidMessage cid cmd msg, d')" "channel_ok ch" for c i ch
    using that by (auto simp: hid_received_def channel_ok_def split: if_splits)
  show ?thesis
  proof (cases "packet ! 4 AND 0x80 \<noteq> 0")
    case True
    with assms(3) have s: "hid_init_step (be32_val (take 4 packet)) packet d = (HidMessage cid cmd msg, d')"
      by (simp add: hid_step_def Let_def)
    then have le: "unat (packet_expected packet) \<le> ABK_FIDO_MAX_MSG"
      by (simp add: hid_init_step_def split: if_splits)
    from init_step_cases [OF assms(1) le, of "be32_val (take 4 packet)"] s
    obtain i where "hid_received (be32_val (take 4 packet)) i (init_channel (be32_val (take 4 packet)) packet) d
        = (HidMessage cid cmd msg, d')" by metis
    with * init_channel_ok [OF assms(2) le] show ?thesis by blast
  next
    case False
    with assms(3) have s: "hid_cont_step (be32_val (take 4 packet)) packet d = (HidMessage cid cmd msg, d')"
      by (simp add: hid_step_def Let_def)
    then obtain i where i: "abk_fido_find_channel_locked (be32_val (take 4 packet)) d = Some i"
      by (auto simp: hid_cont_step_def split: option.splits)
    note f = slot_for_found [OF assms(1) i]
    from s i have "hid_received (be32_val (take 4 packet)) i (cont_channel packet (dv_channels d ! i)) d
        = (HidMessage cid cmd msg, d')"
      by (simp add: hid_cont_step_def split: if_splits)
    with * cont_channel_ok [OF f(5) assms(2)] show ?thesis by blast
  qed
qed

text \<open>
  No stream of reports, malformed ones and evictions included, takes the channel table out
  of its invariant (four channels, at most one in use per id, lengths that bound every copy
  into the 2048-byte buffers), and no message longer than 2048 bytes is ever delivered.
\<close>

theorem stream_keeps_channels:
  assumes "channels_ok d" "\<forall>p\<in>set ps. length p = ABK_FIDO_REPORT_LEN"
  shows "channels_ok (snd (hid_run ps d))
    \<and> (\<forall>cid cmd msg. HidMessage cid cmd msg \<in> set (fst (hid_run ps d)) \<longrightarrow> length msg \<le> ABK_FIDO_MAX_MSG)"
  using assms
proof (induction ps arbitrary: d)
  case Nil
  then show ?case by simp
next
  case (Cons p ps)
  obtain a d1 where s: "hid_step p d = (a, d1)" by fastforce
  with Cons.prems hid_step_ok [of d p] have "channels_ok d1" by simp
  with Cons.IH [of d1] Cons.prems hid_step_message [of d p _ _ _ d1] s show ?case
    by (auto simp: split_beta)
qed

theorem stream_keeps_channels_witness:
  "channels_ok (snd (hid_run (concat (map (\<lambda>c. hid_packets c 1 (replicate 60 0)) [1, 2, 3, 4, 5, 6]))
     abk_fido_dev_initial))"
  using stream_keeps_channels [OF fresh_channels_ok(1),
      of "concat (map (\<lambda>c. hid_packets c 1 (replicate 60 0)) [1, 2, 3, 4, 5, 6])"] hid_packets_length
  by fastforce

end
