(* ===== verification/Device_Invariant.thy ===== *)
theory Device_Invariant
  imports Control_Surface Hid_Framing
begin

unbundle bit_operations_syntax

section \<open>The arrays of the device\<close>

text \<open>
  Besides the store, the device holds three kinds of arrays that input reaches: the message
  buffers of the channels, the staging buffer of an upload, the slots of an assertion.
  \<open>mem_ok\<close> says that every index and length the code uses stays inside them.  Here: every
  operation of the device keeps it, whatever the input and whatever fails.
\<close>

definition chan_bounds :: "abk_fido_device \<Rightarrow> bool" where
  "chan_bounds d \<longleftrightarrow> length (dv_channels d) = ABK_FIDO_MAX_CHANNELS \<and> list_all channel_ok (dv_channels d)"

definition staging_ok :: "abk_fido_device \<Rightarrow> bool" where
  "staging_ok d \<longleftrightarrow> (\<forall>buf. dv_store_blob_staging d = Some buf \<longrightarrow> length buf = SIZEOF_STORE_DISK)
     \<and> dv_store_blob_staging_len d \<le> SIZEOF_STORE_DISK"

definition assert_ok :: "abk_fido_device \<Rightarrow> bool" where
  "assert_ok d \<longleftrightarrow> length (dv_assert_slots d) = ABK_FIDO_MAX_CREDS
     \<and> list_all (\<lambda>i. i < ABK_FIDO_MAX_CREDS) (dv_assert_slots d)
     \<and> dv_assert_count d \<le> ABK_FIDO_MAX_CREDS
     \<and> (dv_assert_valid d \<longrightarrow> dv_assert_next d < dv_assert_count d)"

definition mem_ok :: "abk_fido_device \<Rightarrow> bool" where
  "mem_ok d \<longleftrightarrow> chan_bounds d \<and> staging_ok d \<and> assert_ok d"

definition mem_view where
  "mem_view d = (dv_channels d, dv_store_blob_staging d, dv_store_blob_staging_len d, assert_view d)"

lemma mem_ok_view: "mem_view d = mem_view d' \<Longrightarrow> mem_ok d = mem_ok d'"
  by (simp add: mem_view_def assert_view_def mem_ok_def chan_bounds_def staging_ok_def assert_ok_def)

text \<open>The others keep it too while a prompt is up.\<close>

definition others_mem :: "others \<Rightarrow> bool" where
  "others_mem W \<longleftrightarrow> (\<forall>d. mem_ok d \<longrightarrow> mem_ok (snd (snd (oth_wait W d))))"

lemma mem_ok_initial: "mem_ok abk_fido_dev_initial"
  by (simp add: mem_ok_def chan_bounds_def staging_ok_def assert_ok_def abk_fido_dev_initial_def ABK_FIDO_MAX_CREDS_def
      list_all_length)

subsection \<open>Frames\<close>

lemma mem_view_simps [simp]:
  "mem_view (abk_fido_set_last_trace_locked s d) = mem_view d"
  "mem_view (set_last_error s d) = mem_view d"
  "mem_view (abk_fido_set_attach_state_locked s d) = mem_view d"
  "mem_view (d\<lparr>dv_store := st\<rparr>) = mem_view d" "mem_view (d\<lparr>dv_store_loaded := b\<rparr>) = mem_view d"
  "mem_view (d\<lparr>dv_store_dirty := b\<rparr>) = mem_view d" "mem_view (d\<lparr>dv_store_generation := n\<rparr>) = mem_view d"
  "mem_view (d\<lparr>dv_last_error := s\<rparr>) = mem_view d" "mem_view (d\<lparr>dv_auth_usb := u\<rparr>) = mem_view d"
  "mem_view (d\<lparr>dv_auth_cid := c\<rparr>) = mem_view d" "mem_view (d\<lparr>dv_auth_keepalive_armed := b\<rparr>) = mem_view d"
  "mem_view (d\<lparr>dv_next_cid := c\<rparr>) = mem_view d" "mem_view (d\<lparr>dv_bound := b\<rparr>) = mem_view d"
  "mem_view (d\<lparr>dv_udc_name := s\<rparr>) = mem_view d" "mem_view (d\<lparr>dv_hid_name := s\<rparr>) = mem_view d"
  "mem_view (d\<lparr>dv_usb := r\<rparr>) = mem_view d"
  by (simp_all add: mem_view_def assert_view_def abk_fido_set_last_trace_locked_def set_last_error_def
      abk_fido_set_attach_state_locked_def)

lemma mem_view_finalize [simp]: "mem_view (abk_fido_finalize_restored_store_locked t d) = mem_view d"
  by (simp add: abk_fido_finalize_restored_store_locked_def Let_def)

lemma mem_view_read: "abk_fido_read_store_from_path_locked K E f s d = (ret, s', reason, d') \<Longrightarrow> mem_view d' = mem_view d"
  by (auto simp: abk_fido_read_store_from_path_locked_def split: sum.splits if_splits prod.splits option.splits)

lemma mem_view_load:
  assumes "abk_fido_load_store_locked K E f d = (ret, d')"
  shows "mem_view d' = mem_view d"
proof -
  obtain r s reason d1 where r: "abk_fido_read_store_from_path_locked K E f (dv_store d) d = (r, s, reason, d1)"
    by (metis prod_cases4)
  with mem_view_read [OF r] assms show ?thesis
    by (cases r) (auto simp: abk_fido_load_store_locked_def abk_fido_init_new_store_locked_def Let_def split: if_splits)
qed

lemma mem_view_restore:
  assumes "abk_fido_restore_persisted_store_locked K E f source d = (ret, d')"
  shows "mem_view d' = mem_view d"
proof -
  obtain r s reason d1 where r: "abk_fido_read_store_from_path_locked K E f zero_store d = (r, s, reason, d1)"
    by (metis prod_cases4)
  with mem_view_read [OF r] assms show ?thesis
    by (cases r) (auto simp: abk_fido_restore_persisted_store_locked_def Let_def split: if_splits)
qed

lemma mem_view_persist:
  "abk_fido_maybe_persist_locked K E f d = (ret, f', d') \<Longrightarrow> mem_view d' = mem_view d"
  by (auto simp: abk_fido_maybe_persist_locked_def persist_deferred_def Let_def split: if_splits prod.splits option.splits)

lemma mem_view_commit: "mem_view (snd (snd (commit_and_persist K E p f d))) = mem_view d"
proof -
  obtain ret f1 d1 where p: "abk_fido_maybe_persist_locked K E f (d\<lparr>dv_store_dirty := True\<rparr>) = (ret, f1, d1)"
    by (metis prod_cases3)
  with mem_view_persist [OF p] show ?thesis by (cases ret) (simp_all add: commit_and_persist_def)
qed

lemma mem_view_auth:
  "mem_view (snd (auth_check E cmd rp d)) = mem_view d"
  "mem_view (snd (auth_post cmd rp uv rk d)) = mem_view d"
  "mem_view (snd (auth_conclude E cmd rid w d)) = mem_view d"
  by (auto simp: auth_check_def auth_post_def auth_conclude_def abk_fido_auth_start_cooldown_locked_def
      mem_view_def assert_view_def abk_fido_set_last_trace_locked_def set_last_error_def Let_def)

lemma mem_view_decide:
  "abk_fido_auth_decide_locked allow i check d = (ret, d') \<Longrightarrow> mem_view d' = mem_view d"
  by (auto simp: abk_fido_auth_decide_locked_def mem_view_def assert_view_def Let_def split: if_splits)

lemma approve_mem:
  assumes "others_mem W" "mem_ok d" "ctap_approve E W cmd rp uv rk f d = (ret, E', f', d')"
  shows "mem_ok d'"
proof -
  obtain c d1 where c: "auth_check E cmd rp d = (c, d1)" by fastforce
  obtain rid d2 where p: "auth_post cmd rp uv rk d1 = (rid, d2)" by fastforce
  obtain w now d3 where w: "oth_wait W d2 = (w, now, d3)" by (metis prod_cases3)
  obtain r4 d4 where q: "auth_conclude (E\<lparr>env_now := now\<rparr>) cmd rid w d3 = (r4, d4)" by fastforce
  have "mem_view d1 = mem_view d" using mem_view_auth(1) [of E cmd rp d] c by simp
  moreover have "mem_view d2 = mem_view d1" using mem_view_auth(2) [of cmd rp uv rk d1] p by simp
  ultimately have m: "mem_ok d1" "mem_ok d2" using assms(2) mem_ok_view by metis+
  then have "mem_ok d3" using assms(1) w unfolding others_mem_def by (metis snd_conv)
  moreover have "mem_view d4 = mem_view d3"
    using mem_view_auth(3) [of "E\<lparr>env_now := now\<rparr>" cmd rid w d3] q by simp
  ultimately have "mem_ok d4" using mem_ok_view by metis
  moreover have "d' = d1 \<or> d' = d4"
    using assms(3) c p w q by (cases c) (auto simp: ctap_approve_def abk_fido_auth_begin_locked_def)
  ultimately show ?thesis using m(1) by blast
qed

subsection \<open>The commands\<close>

lemma clear_assert_mem: "mem_ok d \<Longrightarrow> mem_ok (abk_fido_clear_assert_state_locked d)"
  by (simp add: mem_ok_def chan_bounds_def staging_ok_def assert_ok_def abk_fido_clear_assert_state_locked_def)

definition keeps_mem :: "reply \<times> store_file \<times> abk_fido_device \<Rightarrow> bool" where
  "keeps_mem res = mem_ok (snd (snd res))"

lemma mk_create_mem: "mem_ok d \<Longrightarrow> keeps_mem (mk_create K E req f d)"
proof -
  assume d: "mem_ok d"
  have "mem_ok (snd (snd (commit_and_persist K E p f (set_slot slot cred d))))" "mem_ok (set_slot slot cred d)" for p slot cred
    using d mem_ok_view [OF mem_view_commit [of K E p f "set_slot slot cred d"]] mem_ok_view [of "set_slot slot cred d" d]
    by (simp_all add: set_slot_def)
  with d show ?thesis by (auto simp: mk_create_def keeps_mem_def split: sum.split)
qed

lemma load_mem: "mem_ok d \<Longrightarrow> abk_fido_load_store_locked K E f d = (ret, d') \<Longrightarrow> mem_ok d'"
  using mem_view_load mem_ok_view by metis

lemma trace_mem [simp]: "mem_ok (abk_fido_set_last_trace_locked s d) = mem_ok d"
  by (rule mem_ok_view) simp

lemma make_credential_mem:
  assumes "mem_ok d" "others_mem W"
  shows "keeps_mem (abk_fido_make_credential_resp K E W req f d)"
proof -
  obtain ret d0 where l: "abk_fido_load_store_locked K E f d = (ret, d0)" by fastforce
  have d0: "mem_ok (abk_fido_set_last_trace_locked t d0)" for t using load_mem [OF assms(1) l] by simp
  have ap: "mem_ok d1" if "ctap_approve E W cmd rp uv rk f (abk_fido_set_last_trace_locked t d0) = (r, E1, f1, d1)"
    for cmd rp uv rk t r E1 f1 d1 using approve_mem [OF assms(2) d0 that] .
  show ?thesis
    using l d0 ap mk_create_mem
    by (auto simp: abk_fido_make_credential_resp_def abk_fido_make_selection_credential_resp_def Let_def
        keeps_mem_def split: prod.split option.split)
qed

lemma encode_assertion_mem:
  assumes "abk_fido_encode_assertion_locked K E slot rp hash user n out f d = (r, f', d')"
  shows "mem_view d' = mem_view d"
proof -
  let ?d = "d\<lparr>dv_store := (dv_store d)\<lparr>st_sign_count := st_sign_count (dv_store d) + 1\<rparr>\<rparr>"
  have "d' = ?d \<or> (\<exists>p. d' = snd (snd (commit_and_persist K E p f ?d)))"
    using assms by (auto simp: abk_fido_encode_assertion_locked_def Let_def split: sum.splits)
      (metis snd_conv)
  then show ?thesis using mem_view_commit by (metis mem_view_simps(4))
qed

text \<open>A continuation is begun with slots that exist.\<close>

lemma begin_continuation_mem:
  assumes "mem_ok d" "1 < length slots" "length slots \<le> ABK_FIDO_MAX_CREDS" "\<forall>i\<in>set slots. i < ABK_FIDO_MAX_CREDS"
  shows "mem_ok (begin_continuation E req slots d)"
  using assms
  by (auto simp: begin_continuation_def mem_ok_def chan_bounds_def staging_ok_def assert_ok_def
      abk_fido_set_last_trace_locked_def overwrite_def list_all_iff dest: in_set_dropD)

lemma ga_answer_mem:
  assumes "mem_ok d" "length slots \<le> ABK_FIDO_MAX_CREDS" "\<forall>i\<in>set slots. i < ABK_FIDO_MAX_CREDS"
  shows "keeps_mem (ga_answer K E req slots f d)"
proof -
  have enc: "mem_ok d1" if "abk_fido_encode_assertion_locked K E (slots ! 0) (ga_rp_id req) (ga_client_data_hash req)
      user n out f d = (r, f1, d1)" for user n out r f1 d1
    using encode_assertion_mem [OF that] assms(1) mem_ok_view by metis
  then show ?thesis
    using assms begin_continuation_mem
    by (auto simp: ga_answer_def Let_def keeps_mem_def split: sum.split prod.split)
qed

lemma get_assertion_mem:
  assumes "mem_ok d" "others_mem W"
  shows "keeps_mem (abk_fido_get_assertion_resp K E W req f d)"
proof -
  obtain ret d0 where l: "abk_fido_load_store_locked K E f (abk_fido_clear_assert_state_locked d) = (ret, d0)" by fastforce
  have d0: "mem_ok d0" using load_mem [OF clear_assert_mem [OF assms(1)] l] .
  have ap: "mem_ok d1" if "ctap_approve E W cmd rp uv rk f x = (r, E1, f1, d1)" "mem_ok x" for cmd rp uv rk x r E1 f1 d1
    using approve_mem [OF assms(2) that(2,1)] .
  have step: "keeps_mem (case ctap_approve E W c rp uv rk f x of
      (Some e, _, f, d) \<Rightarrow> (Inl e, f, d) | (None, E, f, d) \<Rightarrow> ga_answer K E req slots f d)"
    if "mem_ok x" "length slots \<le> ABK_FIDO_MAX_CREDS" "\<forall>i\<in>set slots. i < ABK_FIDO_MAX_CREDS" for c rp uv rk x slots
  proof -
    obtain r E1 f1 d1 where a: "ctap_approve E W c rp uv rk f x = (r, E1, f1, d1)" by (metis prod_cases4)
    with ap [OF a that(1)] ga_answer_mem [OF _ that(2,3)] show ?thesis by (cases r) (simp_all add: keeps_mem_def)
  qed
  have slots: "length (abk_fido_collect_rp_credentials_locked req ABK_FIDO_MAX_CREDS s) \<le> ABK_FIDO_MAX_CREDS"
    "\<forall>i\<in>set (abk_fido_collect_rp_credentials_locked req ABK_FIDO_MAX_CREDS s). i < ABK_FIDO_MAX_CREDS" for s
    unfolding ABK_FIDO_MAX_CREDS_def using collect_bound [of _ req 32 s]
    by (simp only: collect_eq length_take min.cobounded2, blast)
  have refused: "keeps_mem (Inl e, f, x)" if "mem_ok x" for e x using that by (simp add: keeps_mem_def)
  show ?thesis
    unfolding abk_fido_get_assertion_resp_def l Let_def
    using d0 by (cases ret) (simp_all add: step slots refused del: split_paired_All)
qed

lemma next_served_mem: "mem_ok d \<Longrightarrow> mem_ok (next_served E rp n d)"
  by (auto simp: next_served_def Let_def mem_ok_def chan_bounds_def staging_ok_def assert_ok_def
      abk_fido_set_last_trace_locked_def abk_fido_clear_assert_state_locked_def)

lemma get_next_assertion_mem:
  assumes "mem_ok d" "others_mem W"
  shows "keeps_mem (abk_fido_get_next_assertion_resp K E W f d)"
proof -
  let ?rp = "strscpy (kl_stack K ABK_FIDO_MAX_RP_ID) (dv_assert_rp_id d)"
  obtain r E1 f1 d1 where ap: "ctap_approve E W ABK_FIDO_CTAP_GET_NEXT_ASSERTION ?rp False False f d = (r, E1, f1, d1)"
    by (metis prod_cases4)
  have d1: "mem_ok d1" using approve_mem [OF assms(2,1) ap] .
  obtain r2 f2 d2 where e: "abk_fido_encode_assertion_locked K E1 (dv_assert_slots d ! dv_assert_next d) ?rp
      (dv_assert_client_data_hash d) True 1 None f1 d1 = (r2, f2, d2)" by (metis prod_cases3)
  have d2: "mem_ok d2" using encode_assertion_mem [OF e] d1 mem_ok_view by metis
  show ?thesis
    using assms(1) ap e d1 d2 clear_assert_mem next_served_mem
    by (cases r; cases r2) (simp_all add: abk_fido_get_next_assertion_resp_def Let_def keeps_mem_def)
qed

lemma reset_selection_mem:
  assumes "mem_ok d" "others_mem W"
  shows "keeps_mem (ctap_reset K E W f d)" "keeps_mem (ctap_selection E W f d)"
proof -
  obtain r E1 f1 d1 where ap: "ctap_approve E W ABK_FIDO_CTAP_RESET [] False False f d = (r, E1, f1, d1)"
    by (metis prod_cases4)
  have "mem_ok d1" using approve_mem [OF assms(2,1) ap] .
  then have "mem_ok (snd (snd (commit_and_persist K E1 [] f1 (d1\<lparr>dv_store := wiped_store E1\<rparr>))))" "mem_ok d1"
    using mem_view_commit mem_view_simps(4) mem_ok_view by metis+
  with ap show "keeps_mem (ctap_reset K E W f d)" by (cases r) (simp_all add: ctap_reset_def keeps_mem_def)
  obtain r E1 f1 d1 where ap: "ctap_approve E W ABK_FIDO_CTAP_SELECTION [] False False f d = (r, E1, f1, d1)"
    by (metis prod_cases4)
  from approve_mem [OF assms(2,1) ap] ap show "keeps_mem (ctap_selection E W f d)"
    by (cases r) (simp_all add: ctap_selection_def keeps_mem_def)
qed

lemma dispatch_keeps_mem:
  assumes "mem_ok d" "others_mem W" "abk_fido_cbor_dispatch K E W D msg f d = Some (r, f', d')"
  shows "mem_ok d'"
proof -
  let ?c = "abk_fido_clear_assert_state_locked d"
  note c = clear_assert_mem [OF assms(1)]
  have "keeps_mem (r, f', d')"
  proof (cases "msg = []")
    case True
    with assms show ?thesis by (auto simp: abk_fido_cbor_dispatch_def keeps_mem_def)
  next
    case False
    with assms(3) show ?thesis
    proof (cases rule: dispatch_cases)
      case info
      obtain ret d0 where "abk_fido_load_store_locked K E f ?c = (ret, d0)" by fastforce
      with info(2) load_mem [OF c] show ?thesis
        by (cases ret) (auto simp: abk_fido_get_info_resp_def keeps_mem_def)
    next
      case make
      from make(2) c assms(2) show ?thesis
        by (auto simp: with_request_def keeps_mem_def split: if_splits rd.splits
            dest: make_credential_mem [unfolded keeps_mem_def])
          (metis c assms(2) make_credential_mem keeps_mem_def snd_conv)
    next
      case get
      from get(2) assms(1,2) show ?thesis
        by (auto simp: with_request_def keeps_mem_def split: if_splits rd.splits)
          (metis assms(1,2) get_assertion_mem keeps_mem_def snd_conv)
    next
      case get_next
      with get_next_assertion_mem [OF assms(1,2)] show ?thesis by simp
    next
      case reset
      with reset_selection_mem(1) [OF c assms(2)] show ?thesis by simp
    next
      case selection
      with reset_selection_mem(2) [OF c assms(2)] show ?thesis by simp
    next
      case (other e)
      with c show ?thesis by (simp add: keeps_mem_def)
    qed
  qed
  then show ?thesis by (simp add: keeps_mem_def)
qed

subsection \<open>Everything else that touches the device\<close>

definition dev_ok :: "abk_fido_device \<Rightarrow> bool" where
  "dev_ok d \<longleftrightarrow> store_ok (dv_store d) \<and> mem_ok d"

lemma store_ok_finalize:
  "store_ok (dv_store d) \<Longrightarrow> store_ok (dv_store (abk_fido_finalize_restored_store_locked t d))"
  using store_ok_dropped_pin by simp

lemma restore_ok:
  assumes "dev_ok d" "abk_fido_restore_persisted_store_locked K E f source d = (ret, d')"
  shows "dev_ok d'"
proof -
  obtain r s reason d1 where r: "abk_fido_read_store_from_path_locked K E f zero_store d = (r, s, reason, d1)"
    by (metis prod_cases4)
  have s: "store_ok s" using read_store_ok [OF store_ok_zero r] .
  have st: "dv_store d1 = dv_store d"
    using r by (auto simp: abk_fido_read_store_from_path_locked_def abk_fido_set_last_trace_locked_def set_last_error_def
        split: sum.splits if_splits prod.splits option.splits)
  have "store_ok (dv_store d')"
  proof (cases r)
    case None
    with assms r s store_ok_dropped_pin [OF s] show ?thesis
      by (auto simp: abk_fido_restore_persisted_store_locked_def Let_def dev_ok_def split: if_splits)
  next
    case (Some e)
    with assms r st show ?thesis
      by (auto simp: abk_fido_restore_persisted_store_locked_def Let_def dev_ok_def split: if_splits)
  qed
  with assms mem_view_restore mem_ok_view show ?thesis unfolding dev_ok_def by metis
qed

lemma persist_dev_ok: "dev_ok d \<Longrightarrow> abk_fido_maybe_persist_locked K E f d = (ret, f', d') \<Longrightarrow> dev_ok d'"
  unfolding dev_ok_def using persist_frame(2) mem_view_persist mem_ok_view by metis

lemma dev_ok_view: "dv_store d = dv_store d' \<Longrightarrow> mem_view d = mem_view d' \<Longrightarrow> dev_ok d = dev_ok d'"
  unfolding dev_ok_def using mem_ok_view by metis

lemma decide_dev_ok:
  assumes "dev_ok d" "abk_fido_auth_decide_locked allow i check d = (ret, d')"
  shows "dev_ok d'"
proof -
  have "dv_store d' = dv_store d" using assms(2) by (auto simp: abk_fido_auth_decide_locked_def Let_def split: if_splits)
  with assms mem_view_decide dev_ok_view show ?thesis by metis
qed

lemma dev_ok_texts [simp]:
  "dev_ok (abk_fido_set_last_trace_locked s d) = dev_ok d" "dev_ok (set_last_error s d) = dev_ok d"
  "dev_ok (d\<lparr>dv_last_error := s\<rparr>) = dev_ok d" "dev_ok (abk_fido_set_attach_state_locked s d) = dev_ok d"
  "dev_ok (d\<lparr>dv_auth_keepalive_armed := b\<rparr>) = dev_ok d"
  by (rule dev_ok_view; (simp; fail)?; simp add: abk_fido_set_attach_state_locked_def mem_view_def assert_view_def)+

lemma pin_reset_dev_ok: "dev_ok d \<Longrightarrow> dev_ok (d\<lparr>dv_store := pin_reset_store (dv_store d), dv_store_dirty := True\<rparr>)"
  by (simp add: dev_ok_def store_ok_def pin_reset_store_def mem_ok_view [of "d\<lparr>dv_store := _, dv_store_dirty := True\<rparr>" d])

lemma control_dev_ok:
  assumes "dev_ok d" "control_effect K E command f d = (ret, f', d')"
  shows "dev_ok d'"
proof -
  obtain r1 d1 where 1: "abk_fido_reload_store_locked K E f d = (r1, d1)" by fastforce
  obtain r2 d2 where 2: "abk_fido_restore_persisted_store_locked K E f ''abk_control'' d = (r2, d2)" by fastforce
  obtain r3 f3 d3 where 3: "abk_fido_maybe_persist_locked K E f d = (r3, f3, d3)" by (metis prod_cases3)
  obtain r4 d4 where 4: "abk_fido_auth_decide_locked True 0 False d = (r4, d4)" by fastforce
  obtain r5 d5 where 5: "abk_fido_auth_decide_locked False 0 False d = (r5, d5)" by fastforce
  obtain r6 f6 d6 where 6: "abk_fido_maybe_persist_locked K E f
      (d\<lparr>dv_store := pin_reset_store (dv_store d), dv_store_dirty := True\<rparr>) = (r6, f6, d6)" by (metis prod_cases3)
  have "dev_ok d1" using 1 restore_ok [OF assms(1)] unfolding abk_fido_reload_store_locked_def by blast
  moreover have "dev_ok d2" using restore_ok [OF assms(1) 2] .
  moreover have "dev_ok d3" using persist_dev_ok [OF assms(1) 3] .
  moreover have "dev_ok d4" using decide_dev_ok [OF assms(1) 4] .
  moreover have "dev_ok d5" using decide_dev_ok [OF assms(1) 5] .
  moreover have "dev_ok d6" using persist_dev_ok [OF pin_reset_dev_ok [OF assms(1)] 6] .
  moreover have "d' \<in> {d1, d2, d3\<lparr>dv_last_error := ''''\<rparr>, d3, d4, d5, d6, d}"
    using assms(2) unfolding control_effect_def 1 2 3 4 5 6
    by (simp only: prod.case prod.inject insert_iff empty_iff split: if_split_asm) blast+
  ultimately show ?thesis using assms(1) by auto
qed

lemma surface_dev_ok:
  assumes "dev_ok d" "surface_step S K E op f d = (f', d')"
  shows "dev_ok d'"
proof (cases op)
  case (WriteReload buf)
  with assms restore_ok show ?thesis
    by (fastforce simp: reload_store_store_def abk_fido_reload_store_locked_def split: if_splits prod.splits)
next
  case (WriteRestore buf)
  with assms restore_ok show ?thesis
    by (fastforce simp: restore_metadata_store_def split: if_splits prod.splits)
next
  case (WriteGate buf)
  with assms show ?thesis by simp
next
  case (WriteDecision buf)
  with assms decide_dev_ok show ?thesis
    by (fastforce simp: auth_decision_store_def split: option.splits prod.splits if_splits)
next
  case (RunCommand command)
  obtain ret f1 d1 where c: "control_effect K E command f d = (ret, f1, d1)" by (metis prod_cases3)
  with control_dev_ok [OF assms(1) c] RunCommand assms(2) show ?thesis
    by (cases ret) (auto simp: abk_fido_control_run_command_def split: if_splits)
qed

subsection \<open>Uploads\<close>

lemma load_dev_ok:
  assumes "dev_ok d" "env_sizes E" "abk_fido_load_store_locked K E f d = (ret, d')"
  shows "dev_ok d'"
  using assms load_store_ok load_mem unfolding dev_ok_def by blast

lemma blob_read_dev_ok:
  assumes "dev_ok d" "env_sizes E" "abk_fido_store_blob_read K E f off count d = (r, d')"
  shows "dev_ok d'"
proof -
  obtain ret d0 where l: "abk_fido_load_store_locked K E f d = (ret, d0)" by fastforce
  from load_dev_ok [OF assms(1,2) l] l assms(1,3) show ?thesis
    by (cases ret) (auto simp: abk_fido_store_blob_read_def Let_def split: if_splits)
qed

lemma mem_ok_staging:
  "mem_ok d \<Longrightarrow> n \<le> SIZEOF_STORE_DISK \<Longrightarrow> (\<And>buf. b = Some buf \<Longrightarrow> length buf = SIZEOF_STORE_DISK)
     \<Longrightarrow> mem_ok (d\<lparr>dv_store_blob_staging := b, dv_store_blob_staging_len := n\<rparr>)"
  by (simp add: mem_ok_def chan_bounds_def staging_ok_def assert_ok_def)

lemma dev_ok_staging:
  "dev_ok d \<Longrightarrow> n \<le> SIZEOF_STORE_DISK \<Longrightarrow> (\<And>buf. b = Some buf \<Longrightarrow> length buf = SIZEOF_STORE_DISK)
     \<Longrightarrow> dev_ok (d\<lparr>dv_store_blob_staging := b, dv_store_blob_staging_len := n\<rparr>)"
  using mem_ok_staging by (simp add: dev_ok_def)

lemma blob_commit_dev_ok:
  assumes "dev_ok d" "length staging = SIZEOF_STORE_DISK" "blob_commit K staging len d = (ret, d')"
  shows "dev_ok d'"
proof (cases "len = SIZEOF_STORE_DISK_V1")
  case True
  with assms show ?thesis by (auto simp: blob_commit_def blob_refused_def)
next
  case False
  obtain r s reason where fd: "abk_fido_store_from_disk_into K (store_disk_of staging) (dv_store d) = (r, s, reason)"
    by (metis prod_cases3)
  have "store_ok s" using from_disk_ok [OF _ assms(2) fd] assms(1) by (simp add: dev_ok_def)
  then have "dev_ok (d\<lparr>dv_store := s, dv_store_loaded := True, dv_store_generation := dv_store_generation d + 1\<rparr>)"
    "dev_ok (d\<lparr>dv_store := s\<rparr>)"
    using assms(1) mem_ok_view [of "d\<lparr>dv_store := s, dv_store_loaded := True, dv_store_generation := dv_store_generation d + 1\<rparr>" d]
      mem_ok_view [of "d\<lparr>dv_store := s\<rparr>" d] by (simp_all add: dev_ok_def)
  moreover have "dev_ok (abk_fido_finalize_restored_store_locked t x)" if "dev_ok x" for t x
    using that store_ok_finalize mem_ok_view [OF mem_view_finalize] unfolding dev_ok_def by blast
  ultimately show ?thesis
    using False fd assms(3) by (cases r) (auto simp: blob_commit_def blob_refused_def)
qed

lemma blob_write_dev_ok:
  assumes "dev_ok d" "abk_fido_store_blob_write K E buf off d = (r, d')"
  shows "dev_ok d'"
proof (cases "off < 0 \<or> off \<ge> int SIZEOF_STORE_DISK \<or> int (length buf) > int SIZEOF_STORE_DISK - off")
  case True
  with assms show ?thesis by (auto simp: abk_fido_store_blob_write_def)
next
  case False
  then have room: "nat off + length buf \<le> SIZEOF_STORE_DISK" by linarith
  let ?d = "blob_staged E d"
  have d: "dev_ok ?d"
    using assms(1) dev_ok_staging [OF assms(1), of 0 "Some (replicate SIZEOF_STORE_DISK 0)"]
      dev_ok_staging [OF assms(1), of 0 None] by (simp add: blob_staged_def)
  show ?thesis
  proof (cases "dv_store_blob_staging ?d")
    case None
    with False d assms(2) show ?thesis by (auto simp: abk_fido_store_blob_write_def Let_def)
  next
    case (Some old)
    have old: "length old = SIZEOF_STORE_DISK" "dv_store_blob_staging_len ?d \<le> SIZEOF_STORE_DISK"
      using d Some by (simp_all add: dev_ok_def mem_ok_def staging_ok_def)
    let ?staging = "overwrite (nat off) buf old" and ?len = "max (dv_store_blob_staging_len ?d) (nat off + length buf)"
    let ?e = "?d\<lparr>dv_store_blob_staging := Some ?staging, dv_store_blob_staging_len := ?len\<rparr>"
    have staging: "length ?staging = SIZEOF_STORE_DISK" using old(1) room by simp
    have e: "dev_ok ?e" by (rule dev_ok_staging [OF d]) (use staging room old(2) in auto)
    obtain ret d1 where c: "blob_commit K ?staging ?len ?e = (ret, d1)" by fastforce
    have "dev_ok (d1\<lparr>dv_store_blob_staging := None, dv_store_blob_staging_len := 0\<rparr>)"
      by (rule dev_ok_staging [OF blob_commit_dev_ok [OF e staging c]]) auto
    then show ?thesis
      using False Some e c assms(2) by (auto simp: abk_fido_store_blob_write_def Let_def split: if_splits)
  qed
qed

subsection \<open>Channels\<close>

lemma set_channel_mem: "mem_ok d \<Longrightarrow> channel_ok ch \<Longrightarrow> mem_ok (set_channel i ch d)"
  by (auto simp: set_channel_def mem_ok_def chan_bounds_def staging_ok_def assert_ok_def list_all_iff
      dest!: subsetD [OF set_update_subset_insert])

lemma set_channel_dev_ok: "dev_ok d \<Longrightarrow> channel_ok ch \<Longrightarrow> dev_ok (set_channel i ch d)"
  using set_channel_mem by (simp add: dev_ok_def set_channel_def)

lemma alloc_dev_ok:
  assumes "dev_ok d" "abk_fido_alloc_channel_locked cid d = (i, d')"
  shows "dev_ok d'"
proof -
  have "channel_ok (zero_channel\<lparr>ch_in_use := True, ch_cid := cid\<rparr>)" by (simp add: channel_ok_def zero_channel_def)
  with assms set_channel_dev_ok show ?thesis
    by (auto simp: abk_fido_alloc_channel_locked_def split: option.splits)
qed

lemma found_channel_ok:
  "dev_ok d \<Longrightarrow> abk_fido_find_channel_locked cid d = Some i \<Longrightarrow> channel_ok (dv_channels d ! i)"
  by (auto simp: abk_fido_find_channel_locked_def dev_ok_def mem_ok_def chan_bounds_def list_all_length
      dest: find_upt_Some)

lemma received_dev_ok: "dev_ok d \<Longrightarrow> channel_ok ch \<Longrightarrow> dev_ok (snd (hid_received cid i ch d))"
  using set_channel_dev_ok by (simp add: hid_received_def)

lemma hid_step_dev_ok:
  assumes "dev_ok d" "length packet = ABK_FIDO_REPORT_LEN"
  shows "dev_ok (snd (hid_step packet d))"
proof -
  have "dev_ok (snd (hid_init_step cid packet d))" for cid
  proof (cases "ABK_FIDO_MAX_MSG < unat (packet_expected packet)")
    case False
    then have ch: "channel_ok (init_channel cid packet)" using init_channel_ok [OF assms(2)] by simp
    show ?thesis
      using False assms(1) received_dev_ok [OF _ ch] alloc_dev_ok [OF assms(1), of cid]
      by (auto simp: hid_init_step_def split: option.split prod.split)
  qed (use assms in \<open>simp add: hid_init_step_def\<close>)
  moreover have "dev_ok (snd (hid_cont_step cid packet d))" for cid
  proof (cases "abk_fido_find_channel_locked cid d")
    case (Some i)
    with received_dev_ok [OF assms(1) cont_channel_ok [OF found_channel_ok [OF assms(1) Some] assms(2)]]
      set_channel_dev_ok [OF assms(1) zero_channel_ok] show ?thesis
      by (simp add: hid_cont_step_def)
  qed (use assms in \<open>simp add: hid_cont_step_def\<close>)
  ultimately show ?thesis by (simp add: hid_step_def Let_def)
qed

lemma hid_received_message:
  "hid_received cid i ch d = (HidMessage c cmd msg, d') \<Longrightarrow> channel_ok ch \<Longrightarrow> length msg \<le> ABK_FIDO_MAX_MSG"
  by (auto simp: hid_received_def channel_ok_def split: if_splits)

lemma hid_step_msg_bound:
  assumes "dev_ok d" "length packet = ABK_FIDO_REPORT_LEN" "hid_step packet d = (HidMessage cid cmd msg, d')"
  shows "length msg \<le> ABK_FIDO_MAX_MSG"
proof (cases "packet ! 4 AND 0x80 \<noteq> 0")
  case True
  with assms(3) have i: "hid_init_step (be32_val (take 4 packet)) packet d = (HidMessage cid cmd msg, d')"
    by (simp add: hid_step_def Let_def)
  then have "unat (packet_expected packet) \<le> ABK_FIDO_MAX_MSG"
    by (auto simp: hid_init_step_def split: if_splits)
  from init_channel_ok [OF assms(2) this] i hid_received_message show ?thesis
    by (auto simp: hid_init_step_def split: if_splits option.splits prod.splits)
next
  case False
  with assms(3) have c: "hid_cont_step (be32_val (take 4 packet)) packet d = (HidMessage cid cmd msg, d')"
    by (simp add: hid_step_def Let_def)
  then obtain i where i: "abk_fido_find_channel_locked (be32_val (take 4 packet)) d = Some i"
    by (auto simp: hid_cont_step_def split: option.splits)
  from cont_channel_ok [OF found_channel_ok [OF assms(1) i] assms(2)] c i hid_received_message show ?thesis
    by (auto simp: hid_cont_step_def split: if_splits)
qed

end
