(* ===== verification/Hid_Service.thy ===== *)
theory Hid_Service
  imports Hid_Framing
begin

unbundle bit_operations_syntax

section \<open>The CTAPHID service end to end\<close>

text \<open>
  The pieces composed: a consumer of the character device writes the reports of a message,
  the worker reassembles it, runs the command and queues the reply.  Further: which channel ids
  INIT hands out, and what CANCEL does.
\<close>

subsection \<open>Echo\<close>

lemma hid_run_single:
  assumes "channels_ok d" "\<forall>p\<in>set ps. length p = ABK_FIDO_REPORT_LEN \<and> packet_cid p = c"
    "card (insert c (live_cids d)) \<le> ABK_FIDO_MAX_CHANNELS"
  shows "fst (hid_run ps d) = fst (conv_run ps (conversation d c))"
  using assms
proof (induction ps arbitrary: d)
  case Nil
  then show ?case by simp
next
  case (Cons p ps)
  have fin: "finite (live_cids d)" by (simp add: live_cids_def)
  from Cons.prems have p: "length p = ABK_FIDO_REPORT_LEN" "packet_cid p = c" by auto
  have room: "has_room c d"
    using room_for [OF Cons.prems(1), of "insert c (live_cids d)" c] fin Cons.prems(3) by blast
  obtain a d1 where s: "hid_step p d = (a, d1)" by fastforce
  obtain ca cc where cs: "conv_step p (conversation d c) = (ca, cc)" by fastforce
  from hid_step_conv [OF Cons.prems(1) p(1) _ room] s cs p(2)
  have a: "a = ca" and d1: "conversation d1 = (conversation d)(c := cc)" by (auto simp: packet_cid_def)
  have ok1: "channels_ok d1" using hid_step_ok [OF Cons.prems(1) p(1)] s by simp
  have "insert c (live_cids d1) \<subseteq> insert c (live_cids d)"
    using d1 unfolding live_cids_conversation [OF ok1] live_cids_conversation [OF Cons.prems(1)] by auto
  then have "card (insert c (live_cids d1)) \<le> ABK_FIDO_MAX_CHANNELS"
    using card_mono [of "insert c (live_cids d)"] fin Cons.prems(3) by (meson finite_insert le_trans)
  with Cons.IH [OF ok1] Cons.prems(2) s cs a d1 show ?case by (simp add: split_beta)
qed

lemma write_reports:
  assumes "queue_ok (us_rx_packets usb)" "\<forall>p\<in>set ps. length p = ABK_FIDO_REPORT_LEN"
    "q_count (us_rx_packets usb) + length ps \<le> ABK_FIDO_QUEUE_DEPTH"
  shows "fold (\<lambda>p usb. snd (abk_fido_user_write (Some p) ABK_FIDO_REPORT_LEN usb)) ps usb =
      usb\<lparr>us_rx_packets := push_each push_report (map full_report ps) (us_rx_packets usb)\<rparr>"
  by (induction ps arbitrary: usb)
    (simp_all add: abk_fido_user_write_def push_report_def full_report_def split_beta)

lemma packets_cid:
  "p \<in> set (hid_packets cid cmd payload) \<Longrightarrow> length payload \<le> ABK_FIDO_MAX_MSG \<Longrightarrow> unat cmd < 128 \<Longrightarrow> packet_cid p = cid"
proof -
  have "packet_cid p = cid" if "p \<in> set (cont_packets cid seq rest)" for seq rest
    using that
  proof (induction cid seq rest rule: cont_packets.induct)
    case (1 cid seq rest)
    from "1.prems" "1.IH" show ?case
      by (subst (asm) cont_packets.simps)
        (auto simp: packet_cid_def cont_packet_facts(2) [OF refl] simp del: append_Cons append.simps split: if_splits)
  qed
  moreover assume "p \<in> set (hid_packets cid cmd payload)" "length payload \<le> ABK_FIDO_MAX_MSG" "unat cmd < 128"
  ultimately show "packet_cid p = cid"
    by (auto simp: hid_packets_def packet_cid_def init_packet_facts)
qed

text \<open>The worker on reports that only the last of which asks for something.\<close>

definition calm :: "kenv \<times> others \<times> usb_env \<Rightarrow> bool" where
  "calm = (\<lambda>(E, W, U). ue_msg_ok U)"

lemma worker_run:
  assumes "queue_ok (us_rx_packets usb)" "queue_list (us_rx_packets usb) = map full_report ps" "us_in_req usb = None"
    "fst (hid_run ps d) = replicate k HidQuiet @ [HidMessage c ABK_FIDO_HID_PING msg]"
    "length ps \<le> length rounds" "list_all calm rounds" "us_userspace usb"
  shows "\<exists>q U d'. abk_fido_rx_worker K D rounds r (usb, f, d) =
    Some (abk_fido_send_hid_message U c ABK_FIDO_HID_PING msg (usb\<lparr>us_rx_packets := q\<rparr>), f, d')"
  using assms
proof (induction k arbitrary: usb ps d rounds)
  case (0 usb ps d rounds)
  then obtain p where ps: "ps = [p]"
    by (cases ps; cases "tl ps") (auto simp: split_beta)
  from 0 ps obtain E W U rs where rounds: "rounds = (E, W, U) # rs" "ue_msg_ok U"
    by (cases rounds) (auto simp: calm_def)
  obtain q where q: "abk_fido_queue_pop (us_rx_packets usb) = (Some (full_report p), q)" "queue_list q = []" "queue_ok q"
    using queue_pop_cons [OF 0(1)] queue_pop_ok [OF 0(1)] 0(2) ps by (metis list.map(1,2) prod.collapse snd_conv)
  obtain d1 where s: "hid_step p d = (HidMessage c ABK_FIDO_HID_PING msg, d1)"
    using 0(4) ps by (auto simp: split_beta prod_eq_iff)
  let ?usb = "abk_fido_send_hid_message U c ABK_FIDO_HID_PING msg (usb\<lparr>us_rx_packets := q\<rparr>)"
  have "abk_fido_process_packet K E W D U r (full_report p) (usb\<lparr>us_rx_packets := q\<rparr>, f, d) = Some (?usb, f, d1)"
    using s 0(3) rounds by (simp add: abk_fido_process_packet_def full_report_def abk_fido_dispatch_msg_def hid_codes Let_def)
  moreover have "us_rx_packets ?usb = q" "q_count q = 0"
    using 0(7) q(2) by (simp_all add: abk_fido_send_hid_message_def fold_push_tx flip: queue_list_Nil_iff)
  ultimately have "abk_fido_rx_worker K D rounds r (usb, f, d) = Some (?usb\<lparr>us_rx_packets := q\<rparr>, f, d1)"
    using q rounds by (simp add: abk_fido_rx_worker.simps [of K D "(E, W, U) # rs"] abk_fido_rx_worker.simps [of K D rs]
        abk_fido_queue_pop_def [of q])
  moreover have "?usb\<lparr>us_rx_packets := q\<rparr> = ?usb" using \<open>us_rx_packets ?usb = q\<close> by simp
  ultimately show ?case by metis
next
  case (Suc k)
  then obtain p ps' where ps: "ps = p # ps'" by (cases ps) auto
  from Suc.prems ps obtain E W U rs where rounds: "rounds = (E, W, U) # rs" by (cases rounds) auto
  obtain q where q: "abk_fido_queue_pop (us_rx_packets usb) = (Some (full_report p), q)"
      "queue_list q = map full_report ps'" "queue_ok q"
    using queue_pop_cons [OF Suc.prems(1)] queue_pop_ok [OF Suc.prems(1)] Suc.prems(2) ps
    by (metis list.map(2) prod.collapse snd_conv)
  obtain d1 where s: "hid_step p d = (HidQuiet, d1)"
    "fst (hid_run ps' d1) = replicate k HidQuiet @ [HidMessage c ABK_FIDO_HID_PING msg]"
    using Suc.prems(4) ps by (auto simp: split_beta prod_eq_iff)
  have "abk_fido_process_packet K E W D U r (full_report p) (usb\<lparr>us_rx_packets := q\<rparr>, f, d) =
      Some (usb\<lparr>us_rx_packets := q\<rparr>, f, d1)"
    using s Suc.prems(3) by (simp add: abk_fido_process_packet_def full_report_def)
  with q rounds have "abk_fido_rx_worker K D rounds r (usb, f, d) =
      abk_fido_rx_worker K D rs r (usb\<lparr>us_rx_packets := q\<rparr>, f, d1)"
    by (simp add: abk_fido_rx_worker.simps [of K D "(E, W, U) # rs"])
  moreover have "\<exists>q' U d'. abk_fido_rx_worker K D rs r (usb\<lparr>us_rx_packets := q\<rparr>, f, d1) =
      Some (abk_fido_send_hid_message U c ABK_FIDO_HID_PING msg (usb\<lparr>us_rx_packets := q, us_rx_packets := q'\<rparr>), f, d')"
    using q s Suc.prems ps rounds by (intro Suc.IH [where ps = ps']) simp_all
  ultimately show ?case by auto
qed

fun read_reports :: "nat \<Rightarrow> abk_fido_usb \<Rightarrow> (errno + u8 list) list \<times> abk_fido_usb" where
  "read_reports 0 usb = ([], usb)"
| "read_reports (Suc n) usb =
     (case abk_fido_user_read (\<lambda>q. None) True True ABK_FIDO_REPORT_LEN usb of
        (x, usb) \<Rightarrow> (case read_reports n usb of (xs, usb) \<Rightarrow> (x # xs, usb)))"

lemma read_reports_all:
  "queue_ok (us_tx_packets usb) \<Longrightarrow> queue_list (us_tx_packets usb) = map full_report ps \<Longrightarrow>
     \<forall>p\<in>set ps. length p = ABK_FIDO_REPORT_LEN \<Longrightarrow> fst (read_reports (length ps) usb) = map Inr ps"
proof (induction ps arbitrary: usb)
  case Nil
  then show ?case by simp
next
  case (Cons p ps)
  obtain q where q: "abk_fido_queue_pop (us_tx_packets usb) = (Some (full_report p), q)"
      "queue_list q = map full_report ps" "queue_ok q"
    using queue_pop_cons [OF Cons.prems(1)] queue_pop_ok [OF Cons.prems(1)] Cons.prems(2)
    by (metis list.map(2) prod.collapse snd_conv)
  with Cons.IH [of "usb\<lparr>us_tx_packets := q\<rparr>"] Cons.prems(3) show ?case
    by (simp add: abk_fido_user_read_def read_report_def full_report_def split_beta)
qed



subsection \<open>Channel ids\<close>

text \<open>
  The ids INIT hands out count up from 1.  Around the wrap of the counter an id is handed out
  twice in a row: the counter is stepped once too few when the reserved ids are skipped.
\<close>

lemma next_cid_counts:
  assumes "dv_next_cid d \<noteq> 0" "dv_next_cid d \<noteq> ABK_FIDO_CID_BROADCAST"
  shows "abk_fido_next_cid_locked d = (dv_next_cid d, d\<lparr>dv_next_cid := dv_next_cid d + 1\<rparr>)"
  using assms by (simp add: abk_fido_next_cid_locked_def Let_def)

lemma next_cid_reissues:
  assumes "dv_next_cid d = ABK_FIDO_CID_BROADCAST"
  shows "fst (abk_fido_next_cid_locked d) = 1
    \<and> fst (abk_fido_next_cid_locked (snd (abk_fido_next_cid_locked d))) = 1"
  using assms by (simp add: abk_fido_next_cid_locked_def ABK_FIDO_CID_BROADCAST_def)

text \<open>
  CANCEL: its own message frees the channel of its id before it is dispatched, so the handler
  finds no channel to mark and nothing happens.
\<close>

lemma message_frees_channel:
  assumes "channels_ok d" "length packet = ABK_FIDO_REPORT_LEN" "has_room (packet_cid packet) d"
    "hid_step packet d = (HidMessage cid cmd msg, d')"
  shows "abk_fido_find_channel_locked cid d' = None"
proof -
  from hid_step_conv [OF assms(1,2) packet_cid_def assms(3)] assms(4)
  have c: "conversation d' = (conversation d)(packet_cid packet := snd (conv_step packet (conversation d (packet_cid packet))))"
    "HidMessage cid cmd msg = fst (conv_step packet (conversation d (packet_cid packet)))" by auto
  then have "snd (conv_step packet (conversation d (packet_cid packet))) = None \<and> cid = packet_cid packet"
    by (auto simp: conv_step_def conv_received_def packet_cid_def Let_def split: option.splits if_splits)
  with c(1) have "conversation d' cid = None" by simp
  then show ?thesis by (simp add: conversation_def)
qed

lemma cancel_does_nothing:
  assumes "channels_ok d" "length packet = ABK_FIDO_REPORT_LEN" "has_room (packet_cid packet) d"
    "hid_step packet d = (HidMessage cid ABK_FIDO_HID_CANCEL msg, d')"
  shows "abk_fido_dispatch_msg K E W D U r cid ABK_FIDO_HID_CANCEL msg (usb, f, d') = Some (usb, f, d')"
  using message_frees_channel [OF assms] by (simp add: abk_fido_dispatch_msg_def hid_codes)

end
