(* ===== verification/Driver_System.thy ===== *)
theory Driver_System
  imports Device_Invariant Hid_Service
begin

section \<open>The driver as a whole\<close>

text \<open>
  Both transports, the store file, the device and the USB descriptors together, and everything
  that can happen to them, one operation of the code a step: reports coming in and going out,
  the receive worker, readers and writers of the character devices, keepalives, sysfs and the
  control hub, uploads, and the life of the USB function.  What an operation is given (input,
  failures, what others do while it waits) is chosen anew in every step.
\<close>

record abk_system =
  sy_usb :: "usb_ref \<Rightarrow> abk_fido_usb"
  sy_file :: store_file
  sy_dev :: abk_fido_device
  sy_descs :: usb_descs

subsection \<open>The invariant\<close>

text \<open>
  A transport: its queues are within their bounds, requests and transfers carry 64 bytes, and
  the gadget is online only while it has its IN request.
\<close>

definition usb_ok :: "abk_fido_usb \<Rightarrow> bool" where
  "usb_ok u \<longleftrightarrow> queue_ok (us_rx_packets u) \<and> queue_ok (us_tx_packets u) \<and> queue_ok (us_debug_rx u)
     \<and> length (us_out_req u) = 4
     \<and> (\<forall>b. us_in_req u = Some b \<longrightarrow> length b = ABK_FIDO_REPORT_LEN)
     \<and> list_all (\<lambda>b. length b = ABK_FIDO_REPORT_LEN) (us_in_flight u)
     \<and> (us_online u \<longrightarrow> us_userspace u \<or> us_in_req u \<noteq> None)"

definition system_ok :: "abk_system \<Rightarrow> bool" where
  "system_ok s \<longleftrightarrow> (\<forall>r. usb_ok (sy_usb s r)) \<and> dev_ok (sy_dev s) \<and> descs_ok (sy_descs s)"

definition usb_env_ok :: "usb_env \<Rightarrow> bool" where
  "usb_env_ok U \<longleftrightarrow> (\<forall>u. usb_ok u \<longrightarrow> usb_ok (ue_dequeue U u) \<and> usb_ok (ue_during U u))"

definition round_ok :: "kenv \<times> others \<times> usb_env \<Rightarrow> bool" where
  "round_ok = (\<lambda>(E, W, U). env_sizes E \<and> others_ok W \<and> others_mem W \<and> usb_env_ok U)"

subsection \<open>Transports\<close>

lemma user_usb_ok: "usb_ok abk_fido_user_usb"
  by (simp add: usb_ok_def abk_fido_user_usb_def queue_ok_init)

lemma alloc_usb_ok: "abk_fido_alloc True minor = Inr u \<Longrightarrow> usb_ok u"
  by (auto simp: usb_ok_def abk_fido_alloc_def queue_ok_init)

lemma usb_ok_queues:
  "usb_ok u \<Longrightarrow> queue_ok q \<Longrightarrow> usb_ok (u\<lparr>us_tx_packets := q\<rparr>)"
  "usb_ok u \<Longrightarrow> queue_ok q \<Longrightarrow> usb_ok (u\<lparr>us_rx_packets := q\<rparr>)"
  "usb_ok u \<Longrightarrow> queue_ok q \<Longrightarrow> usb_ok (u\<lparr>us_debug_rx := q\<rparr>)"
  by (simp_all add: usb_ok_def)

lemma popped_report_ok:
  assumes "queue_ok q" "abk_fido_queue_pop q = (Some r, q')"
  shows "length (rep_data r) = ABK_FIDO_REPORT_LEN" "queue_ok q'"
proof -
  show "queue_ok q'" using queue_pop_ok [OF assms(1)] assms(2) by simp
  show "length (rep_data r) = ABK_FIDO_REPORT_LEN"
    using assms by (auto simp: abk_fido_queue_pop_def queue_ok_def list_all_length split: if_splits)
qed

lemma tx_kick_ok:
  assumes "usb_ok u"
  shows "usb_ok (abk_fido_tx_kick U u)"
proof (cases "\<not> us_online u \<or> us_in_req u = None")
  case True
  with assms show ?thesis by (simp add: abk_fido_tx_kick_def)
next
  case False
  obtain x q where p: "abk_fido_queue_pop (us_tx_packets u) = (x, q)" by fastforce
  have q: "queue_ok q" using queue_pop_ok [of "us_tx_packets u"] assms p by (simp add: usb_ok_def)
  show ?thesis
  proof (cases x)
    case None
    with False p usb_ok_queues(1) [OF assms q] show ?thesis by (auto simp: abk_fido_tx_kick_def)
  next
    case (Some r)
    have len: "length (rep_data r) = ABK_FIDO_REPORT_LEN"
      using popped_report_ok(1) [of "us_tx_packets u" r q] assms p Some by (simp add: usb_ok_def)
    have "rep_len r \<le> length (rep_data r)" if "0 < rep_len r" "rep_len r \<le> ABK_FIDO_REPORT_LEN" using that len by simp
    then have push: "queue_ok (snd (abk_fido_queue_push q (Some (rep_data r)) (rep_len r)))"
      using q queue_push_ok [OF q, of "Some (rep_data r)" "rep_len r"]
      by (cases "rep_len r = 0 \<or> ABK_FIDO_REPORT_LEN < rep_len r") (auto simp: abk_fido_queue_push_def)
    have "length (overwrite 0 (take (rep_len r) (rep_data r)) (replicate ABK_FIDO_REPORT_LEN 0)) = ABK_FIDO_REPORT_LEN"
      using len by simp
    with False p Some push assms q show ?thesis
      by (auto simp: abk_fido_tx_kick_def usb_ok_def Let_def split: option.split)
  qed
qed

lemma push_tx_ok: "usb_ok u \<Longrightarrow> length p = ABK_FIDO_REPORT_LEN \<Longrightarrow> usb_ok (push_tx p u)"
  using queue_push_ok [of "us_tx_packets u" "Some p" ABK_FIDO_REPORT_LEN] usb_ok_queues(1)
  by (simp add: push_tx_def usb_ok_def)

lemma push_all_ok:
  "usb_ok u \<Longrightarrow> \<forall>p\<in>set ps. length p = ABK_FIDO_REPORT_LEN \<Longrightarrow> usb_ok (fold push_tx ps u)"
  by (induction ps arbitrary: u) (auto intro: push_tx_ok)

lemma send_message_ok: "usb_ok u \<Longrightarrow> usb_ok (abk_fido_send_hid_message U cid cmd payload u)"
  using push_all_ok [of u "hid_packets cid cmd payload"] hid_packets_length tx_kick_ok
  by (simp add: abk_fido_send_hid_message_def Let_def)

lemma send_result_ok:
  "usb_ok u \<Longrightarrow> usb_ok (abk_fido_send_hid_error U cid e u)"
  "usb_ok u \<Longrightarrow> usb_ok (abk_fido_send_cbor_result U cid st payload u)"
  using send_message_ok by (simp_all add: abk_fido_send_cbor_result_def abk_fido_send_hid_error_def)

lemma push_report_ok:
  "queue_ok q \<Longrightarrow> length bs = ABK_FIDO_REPORT_LEN \<Longrightarrow> queue_ok (snd (abk_fido_queue_push q (Some bs) ABK_FIDO_REPORT_LEN))"
  by (rule queue_push_ok) auto

lemma out_complete_ok:
  assumes "usb_ok u" "length buf = ABK_FIDO_REPORT_LEN"
  shows "usb_ok (abk_fido_out_complete status_ok actual buf u)"
proof -
  have "queue_ok (us_rx_packets u)" "queue_ok (us_debug_rx u)" using assms(1) by (simp_all add: usb_ok_def)
  then show ?thesis
    using assms push_report_ok by (auto simp: abk_fido_out_complete_def usb_ok_def)
qed

lemma read_report_ok:
  assumes "queue_ok q" "\<forall>q'. queue_ok q' \<longrightarrow> (\<forall>q2. wait q' = Some q2 \<longrightarrow> queue_ok q2)"
  shows "queue_ok (snd (read_report wait nonblock copy_ok count q))"
proof -
  have pop: "queue_ok q2" if "abk_fido_queue_pop q1 = (x, q2)" "queue_ok q1" for x q1 q2
    using queue_pop_ok [OF that(2)] that(1) by simp
  show ?thesis
    using assms by (auto simp: read_report_def Let_def dest: pop split: prod.splits option.splits)
qed

text \<open>A reader that sleeps finds a queue the invariant holds for.\<close>

definition wait_ok :: "(abk_fido_queue \<Rightarrow> abk_fido_queue option) \<Rightarrow> bool" where
  "wait_ok wait \<longleftrightarrow> (\<forall>q. queue_ok q \<longrightarrow> (\<forall>q2. wait q = Some q2 \<longrightarrow> queue_ok q2))"

lemma chardev_ok:
  assumes "usb_ok u"
  shows "wait_ok wait \<Longrightarrow> usb_ok (snd (abk_fido_misc_read wait nonblock copy_ok count u))"
    "wait_ok wait \<Longrightarrow> usb_ok (snd (abk_fido_user_read wait nonblock copy_ok count u))"
    "(\<And>bs. packet = Some bs \<Longrightarrow> length bs = count) \<Longrightarrow> usb_ok (snd (abk_fido_misc_write U packet count u))"
    "(\<And>bs. packet = Some bs \<Longrightarrow> length bs = count) \<Longrightarrow> usb_ok (snd (abk_fido_user_write packet count u))"
proof -
  have q: "queue_ok (us_debug_rx u)" "queue_ok (us_tx_packets u)" "queue_ok (us_rx_packets u)"
    using assms by (simp_all add: usb_ok_def)
  show "usb_ok (snd (abk_fido_misc_read wait nonblock copy_ok count u))" if "wait_ok wait"
    using usb_ok_queues(3) [OF assms read_report_ok [OF q(1)]] that
    by (simp add: abk_fido_misc_read_def wait_ok_def split_beta)
  show "usb_ok (snd (abk_fido_user_read wait nonblock copy_ok count u))" if "wait_ok wait"
    using usb_ok_queues(1) [OF assms read_report_ok [OF q(2)]] that
    by (simp add: abk_fido_user_read_def wait_ok_def split_beta)
  show "usb_ok (snd (abk_fido_misc_write U packet count u))" if len: "\<And>bs. packet = Some bs \<Longrightarrow> length bs = count"
  proof (cases "count \<noteq> ABK_FIDO_REPORT_LEN \<or> packet = None")
    case False
    then obtain bs where bs: "packet = Some bs" "length bs = ABK_FIDO_REPORT_LEN" "count = ABK_FIDO_REPORT_LEN" using len by auto
    from usb_ok_queues(1) [OF assms push_report_ok [OF q(2) bs(2)]] bs tx_kick_ok show ?thesis
      by (simp add: abk_fido_misc_write_def split_beta)
  qed (use assms in \<open>auto simp: abk_fido_misc_write_def\<close>)
  show "usb_ok (snd (abk_fido_user_write packet count u))" if len: "\<And>bs. packet = Some bs \<Longrightarrow> length bs = count"
  proof (cases "count \<noteq> ABK_FIDO_REPORT_LEN \<or> packet = None")
    case False
    then obtain bs where bs: "packet = Some bs" "length bs = ABK_FIDO_REPORT_LEN" "count = ABK_FIDO_REPORT_LEN" using len by auto
    from usb_ok_queues(2) [OF assms push_report_ok [OF q(3) bs(2)]] bs show ?thesis
      by (simp add: abk_fido_user_write_def split_beta)
  qed (use assms in \<open>auto simp: abk_fido_user_write_def\<close>)
qed

lemma disable_ok: "usb_ok u \<Longrightarrow> abk_fido_disable u d = (u', d') \<Longrightarrow> usb_ok u'"
  using disable_facts [of u d u' d'] by (auto simp: usb_ok_def abk_fido_disable_def Let_def simp del: pop_each.simps)

lemma disable_dev_ok: "dev_ok d \<Longrightarrow> abk_fido_disable u d = (u', d') \<Longrightarrow> dev_ok d'"
  by (rule iffD2 [OF dev_ok_view, of _ d]) (auto simp: abk_fido_disable_def Let_def simp del: pop_each.simps)

lemma out_requests_only:
  "queue_out_requests A js u = (ret, u') \<Longrightarrow> \<exists>rs. length rs = length (us_out_req u) \<and> u' = u\<lparr>us_out_req := rs\<rparr>"
proof (induction js arbitrary: u)
  case Nil
  then show ?case by (auto intro: exI [of _ "us_out_req u"])
next
  case (Cons i js)
  let ?u = "u\<lparr>us_out_req := (us_out_req u)[i := Some empty_request]\<rparr>"
  show ?case
  proof (cases "ae_alloc_out A i \<and> ae_queue_out A i = None")
    case True
    with Cons.prems have "queue_out_requests A js ?u = (ret, u')" by simp
    from Cons.IH [OF this] show ?thesis by auto
  next
    case False
    with Cons.prems have "u' \<in> {u\<lparr>us_out_req := (us_out_req u)[i := None]\<rparr>, ?u}"
      by (auto simp: Let_def split: if_splits)
    then show ?thesis by (auto intro: exI [of _ "(us_out_req u)[i := _]"])
  qed
qed

lemma out_requests_keep: "queue_out_requests A js u = (ret, u') \<Longrightarrow> usb_ok u \<Longrightarrow> usb_ok u'"
  using out_requests_only [of A js u ret u'] by (auto simp: usb_ok_def)

lemma set_alt_ok:
  assumes "usb_ok u" "dev_ok d" "abk_fido_set_alt U A ds u d = (ret, u', d')"
  shows "usb_ok u'" "dev_ok d'"
proof -
  obtain u0 d0 where 0: "(if us_in_req u \<noteq> None then abk_fido_disable u d else (u, d)) = (u0, d0)" by fastforce
  have ok0: "usb_ok u0" "dev_ok d0"
    using 0 assms(1,2) disable_ok disable_dev_ok by (auto split: if_splits)
  have off: "\<not> us_online u0 \<or> us_userspace u0"
    using 0 assms(1) disable_facts(1) [of u d u0 d0] by (auto simp: usb_ok_def split: if_splits)
  obtain r1 u1 where o: "queue_out_requests A [0..<4] (u0\<lparr>us_in_req := Some empty_request\<rparr>) = (r1, u1)" by fastforce
  have in0: "usb_ok (u0\<lparr>us_in_req := None\<rparr>)" "usb_ok (u0\<lparr>us_in_req := Some empty_request\<rparr>)"
    using ok0(1) off by (auto simp: usb_ok_def empty_request_def)
  have ok1: "usb_ok u1" using out_requests_keep [OF o in0(2)] .
  have in1: "us_in_req u1 = Some empty_request" using out_requests_frame [OF o] by simp
  obtain u2 d2 where d2: "abk_fido_disable (u0\<lparr>us_in_req := None\<rparr>) d0 = (u2, d2)" by fastforce
  obtain u3 d3 where d3: "abk_fido_disable u1 d0 = (u3, d3)" by fastforce
  note dis = disable_ok [OF in0(1) d2] disable_dev_ok [OF ok0(2) d2] disable_ok [OF ok1 d3] disable_dev_ok [OF ok0(2) d3]
  have up: "usb_ok (u1\<lparr>us_protocol := p, us_idle := i, us_online := True\<rparr>)" for p i
    using ok1 in1 by (simp add: usb_ok_def)
  have dev: "dev_ok (d0\<lparr>dv_bound := b, dv_udc_name := n\<rparr>)" for b n
    using ok0(2) dev_ok_view [of "d0\<lparr>dv_bound := b, dv_udc_name := n\<rparr>" d0] by simp
  have "usb_ok u' \<and> dev_ok d'"
    using assms(3) ok0 dis tx_kick_ok [OF up] dev
    unfolding abk_fido_set_alt_def 0 o d2 d3
    by (auto simp: Let_def o d2 d3 split: option.splits if_splits)
  then show "usb_ok u'" "dev_ok d'" by simp_all
qed

lemma setup_ok: "usb_ok u \<Longrightarrow> abk_fido_setup ep0 ctrl ds u = (r, u') \<Longrightarrow> usb_ok u'"
  by (auto simp: abk_fido_setup_def Let_def usb_ok_def split: if_splits)

lemma bind_ok:
  assumes "usb_ok u" "dev_ok d" "abk_fido_bind B r ds u d = (ret, ds', u', d', blocks)"
  shows "usb_ok u'" "dev_ok d'"
proof -
  have "u' \<in> {u, u\<lparr>us_in_ep := False\<rparr>, u\<lparr>us_in_ep := True\<rparr>, u\<lparr>us_in_ep := True, us_out_ep := False\<rparr>,
      u\<lparr>us_in_ep := True, us_out_ep := True\<rparr>, u\<lparr>us_in_ep := True, us_out_ep := True, us_misc_registered := True\<rparr>}
    \<and> (d' = d \<or> (\<exists>n t. d' = abk_fido_set_attach_state_locked t (d\<lparr>dv_usb := Some r, dv_hid_name := n\<rparr>)))"
    using assms(3) by (auto simp: abk_fido_bind_def Let_def split: sum.splits option.splits)
  moreover have "dev_ok (d\<lparr>dv_usb := Some r, dv_hid_name := n\<rparr>)" for n
    using assms(2) dev_ok_view [of "d\<lparr>dv_usb := Some r, dv_hid_name := n\<rparr>" d] by simp
  ultimately show "usb_ok u'" "dev_ok d'" using assms(1,2) by (auto simp: usb_ok_def)
qed

lemma unbind_ok:
  assumes "usb_ok u" "dev_ok d" "abk_fido_unbind r u d = (u', d')"
  shows "usb_ok u'" "dev_ok d'"
proof -
  have "dv_store d' = dv_store d \<and> mem_view d' = mem_view d"
    using assms(3) by (auto simp: abk_fido_unbind_def Let_def)
  then show "dev_ok d'" using dev_ok_view assms(2) by metis
  show "usb_ok u'" using assms(1,3) by (cases "us_misc_registered u") (auto simp: abk_fido_unbind_def usb_ok_def Let_def)
qed

lemma keepalive_ok:
  assumes "\<forall>r. usb_ok (us r)" "dev_ok d" "abk_fido_auth_keepalive_worker U us d = (us', d')"
  shows "(\<forall>r. usb_ok (us' r)) \<and> dev_ok d'"
  using assms send_message_ok
  by (auto simp: abk_fido_auth_keepalive_worker_def Let_def split: option.splits if_splits)

subsection \<open>The receive worker\<close>

definition state_ok :: "hid_state \<Rightarrow> bool" where
  "state_ok = (\<lambda>(u, f, d). usb_ok u \<and> dev_ok d)"

lemma dev_ok_auth_target [simp]: "dev_ok (d\<lparr>dv_auth_usb := r, dv_auth_cid := c\<rparr>) = dev_ok d"
  "dev_ok (d\<lparr>dv_auth_usb := r\<rparr>) = dev_ok d"
  by (rule dev_ok_view; simp)+

lemma hid_cbor_ok:
  assumes "state_ok (u, f, d)" "klib_sizes K" "round_ok (E, W, U)" "length data < 2 ^ 63"
    "hid_cbor K E W D U r cid data (u, f, d) = Some s"
  shows "state_ok s"
proof -
  let ?d = "d\<lparr>dv_auth_usb := Some r, dv_auth_cid := cid\<rparr>"
  obtain ret f1 d1 where run: "abk_fido_cbor_dispatch K E W D data f ?d = Some (ret, f1, d1)"
    using assms(5) by (auto simp: hid_cbor_def Let_def split: option.splits)
  have ok: "dev_ok ?d" using assms(1) by (simp add: state_ok_def)
  have R: "env_sizes E" "others_ok W" "others_mem W" "usb_env_ok U" using assms(3) by (simp_all add: round_ok_def)
  have "store_ok (dv_store d1)"
    using dispatch_store_ok [OF _ R(2) assms(2) R(1) assms(4) run] ok by (simp add: dev_ok_def)
  moreover have "mem_ok d1" using dispatch_keeps_mem [OF _ R(3) run] ok by (simp add: dev_ok_def)
  ultimately have "dev_ok d1" by (simp add: dev_ok_def)
  then have "dev_ok (d1\<lparr>dv_auth_usb := None, dv_auth_keepalive_armed := False\<rparr>)" by simp
  moreover have "usb_ok (ue_during U u)" using R(4) assms(1) by (simp add: usb_env_ok_def state_ok_def)
  ultimately show ?thesis
    using assms(5) run send_result_ok(2)
    by (cases ret) (auto simp: hid_cbor_def Let_def state_ok_def)
qed

lemma dispatch_msg_ok:
  assumes "state_ok (u, f, d)" "klib_sizes K" "round_ok (E, W, U)" "length data < 2 ^ 63"
    "abk_fido_dispatch_msg K E W D U r cid cmd data (u, f, d) = Some s"
  shows "state_ok s"
proof (cases "cmd = ABK_FIDO_HID_INIT")
  case True
  obtain new d1 where n: "abk_fido_next_cid_locked d = (new, d1)" by fastforce
  have "dv_store d1 = dv_store d \<and> mem_view d1 = mem_view d"
    using n by (auto simp: abk_fido_next_cid_locked_def Let_def split: if_splits)
  then have "dev_ok d1" using assms(1) dev_ok_view by (metis case_prodD state_ok_def)
  then have "dev_ok (snd (abk_fido_alloc_channel_locked new d1))" using alloc_dev_ok by (metis prod.collapse)
  with True n assms(1,5) send_message_ok send_result_ok(1) show ?thesis
    by (auto simp: abk_fido_dispatch_msg_def Let_def state_ok_def split: if_splits)
next
  case False
  have cancel: "dev_ok (set_channel i ((dv_channels d ! i)\<lparr>ch_cancelled := True\<rparr>) d)"
    if "abk_fido_find_channel_locked cid d = Some i" for i
  proof -
    have "channel_ok ((dv_channels d ! i)\<lparr>ch_cancelled := True\<rparr>)"
      using found_channel_ok [OF _ that] assms(1) by (simp add: state_ok_def channel_ok_def)
    with set_channel_dev_ok assms(1) show ?thesis by (simp add: state_ok_def)
  qed
  show ?thesis
  proof (cases "cmd = ABK_FIDO_HID_CBOR")
    case True
    with False assms(5) have "hid_cbor K E W D U r cid data (u, f, d) = Some s"
      by (simp add: abk_fido_dispatch_msg_def hid_codes)
    with hid_cbor_ok [OF assms(1-4)] show ?thesis .
  next
    case other: False
    with False assms(1,5) send_message_ok send_result_ok(1) cancel show ?thesis
      by (auto simp: abk_fido_dispatch_msg_def state_ok_def split: if_splits option.splits)
  qed
qed

lemma process_packet_ok:
  assumes "state_ok (u, f, d)" "length (rep_data report) = ABK_FIDO_REPORT_LEN" "klib_sizes K" "round_ok (E, W, U)"
    "abk_fido_process_packet K E W D U r report (u, f, d) = Some s"
  shows "state_ok s"
proof (cases "rep_len report = ABK_FIDO_REPORT_LEN")
  case True
  let ?u = "if us_tx_pending u \<and> us_in_ep u \<and> us_in_req u \<noteq> None then ue_dequeue U u else u"
  have u: "usb_ok ?u" using assms(1,4) by (simp add: usb_env_ok_def round_ok_def state_ok_def)
  have d: "dev_ok d" using assms(1) by (simp add: state_ok_def)
  obtain a d1 where st: "hid_step (rep_data report) d = (a, d1)" by fastforce
  have d1: "dev_ok d1" using hid_step_dev_ok [OF d assms(2)] st by simp
  show ?thesis
  proof (cases a)
    case (HidMessage cid cmd msg)
    have "length msg \<le> ABK_FIDO_MAX_MSG" using hid_step_msg_bound [OF d assms(2)] st HidMessage by blast
    then have "length msg < 2 ^ 63" by (simp add: ABK_FIDO_MAX_MSG_def)
    with dispatch_msg_ok [of ?u f d1 K E W U msg D r cid cmd s] u d1 assms(3-5) True st HidMessage send_result_ok(1)
    show ?thesis by (auto simp: abk_fido_process_packet_def Let_def state_ok_def split: if_splits)
  qed (use assms(5) True st u d1 send_result_ok(1) in
      \<open>auto simp: abk_fido_process_packet_def Let_def state_ok_def split: if_splits\<close>)
next
  case False
  with assms(1,5) show ?thesis by (simp add: abk_fido_process_packet_def)
qed

lemma rx_worker_ok:
  "abk_fido_rx_worker K D rounds r (u, f, d) = Some s \<Longrightarrow> state_ok (u, f, d) \<Longrightarrow> klib_sizes K
     \<Longrightarrow> list_all round_ok rounds \<Longrightarrow> state_ok s"
proof (induction rounds arbitrary: u f d)
  case Nil
  then show ?case
    using queue_pop_ok [of "us_rx_packets u"] usb_ok_queues(2)
    by (auto simp: abk_fido_rx_worker.simps [of K D "[]"] state_ok_def usb_ok_def split: prod.splits option.splits)
next
  case (Cons x rounds)
  obtain E W U where x: "x = (E, W, U)" by (metis prod_cases3)
  obtain y q where p: "abk_fido_queue_pop (us_rx_packets u) = (y, q)" by fastforce
  have uq: "queue_ok (us_rx_packets u)" using Cons.prems(2) by (simp add: state_ok_def usb_ok_def)
  have q: "queue_ok q" using queue_pop_ok [OF uq] p by simp
  have sq: "state_ok (u\<lparr>us_rx_packets := q\<rparr>, f, d)"
    using Cons.prems(2) q usb_ok_queues(2) by (simp add: state_ok_def)
  show ?case
  proof (cases y)
    case None
    with Cons.prems(1) p sq show ?thesis by (auto simp: abk_fido_rx_worker.simps [of K D "x # rounds"])
  next
    case (Some report)
    have len: "length (rep_data report) = ABK_FIDO_REPORT_LEN" using popped_report_ok(1) [OF uq] p Some by simp
    obtain s1 where s1: "abk_fido_process_packet K E W D U r report (u\<lparr>us_rx_packets := q\<rparr>, f, d) = Some s1"
      "abk_fido_rx_worker K D rounds r s1 = Some s"
      using Cons.prems(1) p Some unfolding x
      by (auto simp: abk_fido_rx_worker.simps [of K D "(E, W, U) # rounds"] split: option.splits)
    have "state_ok s1" using process_packet_ok [OF sq len Cons.prems(3) _ s1(1)] Cons.prems(4) x by simp
    with Cons.IH [of "fst s1" "fst (snd s1)" "snd (snd s1)"] s1(2) Cons.prems(3,4) show ?thesis by simp
  qed
qed

subsection \<open>Steps and runs\<close>

text \<open>
  \<open>D\<close> is the stack depth of the parser.  A packet handed to a write is as long as the count; the
  buffer of a completed OUT transfer is that of the request.  The receive worker's work item may
  run again before all its reports are in: it runs to the end of its queue in one step.  \<open>R\<close> says
  what may happen around a report; without \<open>phone\<close> the phone's own side keeps still.
\<close>

definition put_usb :: "usb_ref \<Rightarrow> abk_fido_usb \<Rightarrow> abk_system \<Rightarrow> abk_system" where
  "put_usb r u s = s\<lparr>sy_usb := (sy_usb s)(r := u)\<rparr>"

inductive driver_step ::
    "klib \<Rightarrow> nat \<Rightarrow> (kenv \<times> others \<times> usb_env \<Rightarrow> bool) \<Rightarrow> bool \<Rightarrow> abk_system \<Rightarrow> abk_system \<Rightarrow> bool" for K D R phone where
  receive: "abk_fido_rx_worker K D rounds r (sy_usb s r, sy_file s, sy_dev s) = Some (u, f, d)
    \<Longrightarrow> list_all R rounds \<Longrightarrow> driver_step K D R phone s ((put_usb r u s)\<lparr>sy_file := f, sy_dev := d\<rparr>)"
| host_report: "length buf = ABK_FIDO_REPORT_LEN
    \<Longrightarrow> driver_step K D R phone s (put_usb UsbGadget (abk_fido_out_complete status_ok actual buf (sy_usb s UsbGadget)) s)"
| report_sent: "driver_step K D R phone s (put_usb UsbGadget (abk_fido_tx_complete U (sy_usb s UsbGadget)) s)"
| debug_read: "wait_ok wait
    \<Longrightarrow> driver_step K D R phone s (put_usb UsbGadget (snd (abk_fido_misc_read wait nonblock copy_ok count (sy_usb s UsbGadget))) s)"
| debug_write: "(\<And>bs. packet = Some bs \<Longrightarrow> length bs = count)
    \<Longrightarrow> driver_step K D R phone s (put_usb UsbGadget (snd (abk_fido_misc_write U packet count (sy_usb s UsbGadget))) s)"
| client_read: "wait_ok wait
    \<Longrightarrow> driver_step K D R phone s (put_usb UsbUser (snd (abk_fido_user_read wait nonblock copy_ok count (sy_usb s UsbUser))) s)"
| client_write: "(\<And>bs. packet = Some bs \<Longrightarrow> length bs = count)
    \<Longrightarrow> driver_step K D R phone s (put_usb UsbUser (snd (abk_fido_user_write packet count (sy_usb s UsbUser))) s)"
| keepalive: "abk_fido_auth_keepalive_worker U (sy_usb s) (sy_dev s) = (us, d)
    \<Longrightarrow> driver_step K D R phone s (s\<lparr>sy_usb := us, sy_dev := d\<rparr>)"
| surface: "surface_step S K E op (sy_file s) (sy_dev s) = (f, d) \<Longrightarrow> phone
    \<Longrightarrow> driver_step K D R phone s (s\<lparr>sy_file := f, sy_dev := d\<rparr>)"
| blob_read: "abk_fido_store_blob_read K E (sy_file s) off count (sy_dev s) = (x, d) \<Longrightarrow> env_sizes E
    \<Longrightarrow> driver_step K D R phone s (s\<lparr>sy_dev := d\<rparr>)"
| blob_write: "abk_fido_store_blob_write K E buf pos (sy_dev s) = (x, d) \<Longrightarrow> phone
    \<Longrightarrow> driver_step K D R phone s (s\<lparr>sy_dev := d\<rparr>)"
| set_alt: "abk_fido_set_alt U A (sy_descs s) (sy_usb s UsbGadget) (sy_dev s) = (ret, u, d)
    \<Longrightarrow> driver_step K D R phone s ((put_usb UsbGadget u s)\<lparr>sy_dev := d\<rparr>)"
| disable: "abk_fido_disable (sy_usb s UsbGadget) (sy_dev s) = (u, d)
    \<Longrightarrow> driver_step K D R phone s ((put_usb UsbGadget u s)\<lparr>sy_dev := d\<rparr>)"
| control_request: "abk_fido_setup ep0 ctrl (sy_descs s) (sy_usb s UsbGadget) = (y, u)
    \<Longrightarrow> driver_step K D R phone s (put_usb UsbGadget u s)"
| bind: "abk_fido_bind B UsbGadget (sy_descs s) (sy_usb s UsbGadget) (sy_dev s) = (ret, ds, u, d, blocks)
    \<Longrightarrow> driver_step K D R phone s ((put_usb UsbGadget u s)\<lparr>sy_dev := d, sy_descs := ds\<rparr>)"
| unbind: "abk_fido_unbind UsbGadget (sy_usb s UsbGadget) (sy_dev s) = (u, d)
    \<Longrightarrow> driver_step K D R phone s ((put_usb UsbGadget u s)\<lparr>sy_dev := d\<rparr>)"

inductive driver_run ::
    "klib \<Rightarrow> nat \<Rightarrow> (kenv \<times> others \<times> usb_env \<Rightarrow> bool) \<Rightarrow> bool \<Rightarrow> abk_system \<Rightarrow> abk_system \<Rightarrow> bool" for K D R phone s0 where
  start: "driver_run K D R phone s0 s0"
| step: "driver_run K D R phone s0 s \<Longrightarrow> driver_step K D R phone s s' \<Longrightarrow> driver_run K D R phone s0 s'"

text \<open>The system after the module started, with one instance of the USB function allocated.\<close>

definition booted :: "store_file \<Rightarrow> abk_system \<Rightarrow> bool" where
  "booted f s \<longleftrightarrow> (\<exists>I g usb d minor gadget.
     abk_fido_core_init I no_regs usb abk_fido_dev_initial = (None, g, sy_usb s UsbUser, d)
     \<and> abk_fido_alloc True minor = Inr gadget
     \<and> sy_usb s UsbGadget = gadget \<and> sy_dev s = d \<and> sy_file s = f \<and> sy_descs s = initial_descs)"

lemma all_usb_ref: "(\<forall>r. P r) \<longleftrightarrow> P UsbGadget \<and> P UsbUser"
  by (metis usb_ref.exhaust)

lemma booted_ok: "booted f s \<Longrightarrow> system_ok s"
proof -
  assume "booted f s"
  then obtain I g usb minor where init: "abk_fido_core_init I no_regs usb abk_fido_dev_initial = (None, g, sy_usb s UsbUser, sy_dev s)"
    and a: "abk_fido_alloc True minor = Inr (sy_usb s UsbGadget)" and ds: "sy_descs s = initial_descs"
    unfolding booted_def by blast
  from core_init_cases(2) [OF init] have u: "sy_usb s UsbUser = abk_fido_user_usb"
    and d: "sy_dev s = abk_fido_dev_initial\<lparr>dv_store := zero_store\<lparr>st_pin_retries := ABK_FIDO_PIN_RETRIES_DEFAULT\<rparr>\<rparr>"
    by (simp_all add: abk_fido_dev_initial_def)
  have "mem_ok (sy_dev s)" using d mem_ok_view [of "sy_dev s" abk_fido_dev_initial] mem_ok_initial by simp
  moreover have "store_ok (dv_store (sy_dev s))" using d store_ok_zero by (simp add: store_ok_def)
  ultimately show ?thesis
    using u a ds user_usb_ok alloc_usb_ok initial_descs_ok
    by (simp add: system_ok_def dev_ok_def all_usb_ref)
qed

lemma system_ok_put:
  "system_ok s \<Longrightarrow> usb_ok u \<Longrightarrow> system_ok (put_usb r u s)"
  "system_ok s \<Longrightarrow> usb_ok u \<Longrightarrow> dev_ok d \<Longrightarrow> system_ok ((put_usb r u s)\<lparr>sy_dev := d\<rparr>)"
  "system_ok s \<Longrightarrow> usb_ok u \<Longrightarrow> dev_ok d \<Longrightarrow> system_ok ((put_usb r u s)\<lparr>sy_file := f, sy_dev := d\<rparr>)"
  "system_ok s \<Longrightarrow> usb_ok u \<Longrightarrow> dev_ok d \<Longrightarrow> descs_ok ds \<Longrightarrow> system_ok ((put_usb r u s)\<lparr>sy_dev := d, sy_descs := ds\<rparr>)"
  "system_ok s \<Longrightarrow> dev_ok d \<Longrightarrow> system_ok (s\<lparr>sy_dev := d\<rparr>)"
  "system_ok s \<Longrightarrow> dev_ok d \<Longrightarrow> system_ok (s\<lparr>sy_file := f, sy_dev := d\<rparr>)"
  "system_ok s \<Longrightarrow> \<forall>r. usb_ok (us r) \<Longrightarrow> dev_ok d \<Longrightarrow> system_ok (s\<lparr>sy_usb := us, sy_dev := d\<rparr>)"
  by (simp_all add: system_ok_def put_usb_def)

lemma tx_complete_ok: "usb_ok u \<Longrightarrow> usb_ok (abk_fido_tx_complete U u)"
  unfolding abk_fido_tx_complete_def by (rule tx_kick_ok) (simp add: usb_ok_def)

lemma driver_step_ok:
  assumes "driver_step K D round_ok phone s s'" "system_ok s" "klib_sizes K"
  shows "system_ok s'"
proof -
  have ok: "usb_ok (sy_usb s r)" "\<forall>r. usb_ok (sy_usb s r)" "dev_ok (sy_dev s)" "descs_ok (sy_descs s)" for r
    using assms(2) by (simp_all add: system_ok_def)
  from assms(1) show ?thesis
  proof (cases rule: driver_step.cases)
    case (receive rounds r u f d)
    have "state_ok (u, f, d)"
      using rx_worker_ok [OF receive(2) _ assms(3) receive(3)] ok by (simp add: state_ok_def)
    with receive(1) system_ok_put(3) [OF assms(2)] show ?thesis by (simp add: state_ok_def)
  next
    case (host_report buf status_ok actual)
    with system_ok_put(1) [OF assms(2) out_complete_ok [OF ok(1)]] show ?thesis by simp
  next
    case (report_sent U)
    with system_ok_put(1) [OF assms(2) tx_complete_ok [OF ok(1)]] show ?thesis by simp
  next
    case (debug_read wait)
    with system_ok_put(1) [OF assms(2) chardev_ok(1) [OF ok(1)]] show ?thesis by simp
  next
    case (debug_write packet)
    with system_ok_put(1) [OF assms(2) chardev_ok(3) [OF ok(1)]] show ?thesis by simp
  next
    case (client_read wait)
    with system_ok_put(1) [OF assms(2) chardev_ok(2) [OF ok(1)]] show ?thesis by simp
  next
    case (client_write packet)
    with system_ok_put(1) [OF assms(2) chardev_ok(4) [OF ok(1)]] show ?thesis by simp
  next
    case (keepalive U us d)
    with system_ok_put(7) [OF assms(2)] keepalive_ok [OF ok(2,3)] show ?thesis by blast
  next
    case (surface S E op f d)
    with system_ok_put(6) [OF assms(2) surface_dev_ok [OF ok(3)]] show ?thesis by simp
  next
    case (blob_read E off count x d)
    with system_ok_put(5) [OF assms(2) blob_read_dev_ok [OF ok(3)]] show ?thesis by simp
  next
    case (blob_write E buf pos x d)
    with system_ok_put(5) [OF assms(2) blob_write_dev_ok [OF ok(3)]] show ?thesis by simp
  next
    case (set_alt U A ret u d)
    from set_alt_ok [OF ok(1,3) set_alt(2)] set_alt(1) system_ok_put(2) [OF assms(2)] show ?thesis by simp
  next
    case (disable u d)
    from disable_ok [OF ok(1) disable(2)] disable_dev_ok [OF ok(3) disable(2)] disable(1) system_ok_put(2) [OF assms(2)]
    show ?thesis by simp
  next
    case (control_request ep0 ctrl y u)
    from setup_ok [OF ok(1) control_request(2)] control_request(1) system_ok_put(1) [OF assms(2)] show ?thesis by simp
  next
    case (bind B ret ds u d blocks)
    from bind_ok [OF ok(1,3) bind(2)] bind_keeps_descs_ok [OF bind(2) ok(4)] bind(1) system_ok_put(4) [OF assms(2)]
    show ?thesis by simp
  next
    case (unbind u d)
    from unbind_ok [OF ok(1,3) unbind(2)] unbind(1) system_ok_put(2) [OF assms(2)] show ?thesis by simp
  qed
qed


subsection \<open>Every run\<close>


text \<open>A run: a consumer of the character device writes a one-report PING, the worker answers it.\<close>

definition boot_system :: abk_system where
  "boot_system = \<lparr>sy_usb = (\<lambda>r. case r of UsbGadget \<Rightarrow> projr (abk_fido_alloc True 0) | UsbUser \<Rightarrow> abk_fido_user_usb),
     sy_file = None, sy_dev = snd (snd (snd (abk_fido_core_init sample_init no_regs abk_fido_user_usb abk_fido_dev_initial))),
     sy_descs = initial_descs\<rparr>"

lemma boot_system_booted: "booted None boot_system"
  unfolding booted_def
  by (rule exI [of _ sample_init])
    (auto simp: boot_system_def abk_fido_core_init_def sample_init_def abk_fido_alloc_def Let_def)

lemma boot_system_simps [simp]:
  "sy_usb boot_system UsbUser = abk_fido_user_usb" "sy_file boot_system = None"
  "sy_dev boot_system = abk_fido_dev_initial\<lparr>dv_store := zero_store\<lparr>st_pin_retries := ABK_FIDO_PIN_RETRIES_DEFAULT\<rparr>\<rparr>"
  by (simp_all add: boot_system_def abk_fido_core_init_def sample_init_def Let_def abk_fido_dev_initial_def)

lemma sample_round_ok: "round_ok (sample_env, sample_others, sample_usb_env)"
  using sample_env_sizes sample_others_ok
  by (simp add: round_ok_def others_mem_def usb_env_ok_def) (simp add: sample_others_def sample_usb_env_def)

lemma ping_run:
  assumes "R (sample_env, sample_others, sample_usb_env)" "sy_usb b UsbUser = abk_fido_user_usb" "sy_file b = None"
    "dv_channels (sy_dev b) = dv_channels abk_fido_dev_initial"
  shows "\<exists>s. driver_run sample_klib 8 R phone b s \<and> us_tx_packets (sy_usb s UsbUser) \<noteq> new_queue"
proof -
  let ?ps = "hid_packets 5 ABK_FIDO_HID_PING [7]" and ?d = "sy_dev b"
  have msg: "length [7::u8] \<le> ABK_FIDO_MAX_MSG" "unat ABK_FIDO_HID_PING < 128"
    by (simp_all add: hid_codes ABK_FIDO_MAX_MSG_def)
  have n: "length ?ps = 1" by (simp add: hid_packets_count hid_codes)
  then obtain p where p: "?ps = [p]" by (cases ?ps) auto
  then have len: "length p = ABK_FIDO_REPORT_LEN" using hid_packets_length [of p 5 ABK_FIDO_HID_PING "[7]"] by simp
  have e: "q_count new_queue = 0" by (simp flip: length_queue_list)
  have chans: "channels_ok ?d" "live_cids ?d = {}"
    using fresh_channels_ok assms(4) by (simp_all add: channels_ok_def live_cids_def)
  have "fst (hid_run ?ps ?d) = fst (conv_run ?ps (conversation ?d 5))"
    using len p packets_cid [of p 5 ABK_FIDO_HID_PING "[7]"]
    by (intro hid_run_single chans(1)) (auto simp: chans(2) hid_codes ABK_FIDO_MAX_MSG_def ABK_FIDO_MAX_CHANNELS_def)
  then obtain k where k: "fst (hid_run ?ps ?d) = replicate k HidQuiet @ [HidMessage 5 ABK_FIDO_HID_PING [7]]"
    using conv_packets [of "[7]" ABK_FIDO_HID_PING 5] by (metis fst_conv msg)
  let ?u = "snd (abk_fido_user_write (Some p) ABK_FIDO_REPORT_LEN abk_fido_user_usb)"
  let ?s1 = "put_usb UsbUser ?u b"
  have w: "?u = abk_fido_user_usb\<lparr>us_rx_packets := push_each push_report (map full_report ?ps) new_queue\<rparr>"
    using write_reports [of abk_fido_user_usb "[p]"] len p e
    by (simp add: abk_fido_user_usb_def queue_ok_init ABK_FIDO_QUEUE_DEPTH_def)
  have q: "queue_ok (us_rx_packets ?u)" "queue_list (us_rx_packets ?u) = map full_report ?ps"
    unfolding w using push_message [OF queue_ok_init, of 5 ABK_FIDO_HID_PING "[7]"] n
    by (simp_all add: ABK_FIDO_QUEUE_DEPTH_def)
  from worker_run [OF q _ k, where rounds = "[(sample_env, sample_others, sample_usb_env)]" and K = sample_klib and D = 8
      and r = UsbUser and f = None] n obtain q' U d' where
    run: "abk_fido_rx_worker sample_klib 8 [(sample_env, sample_others, sample_usb_env)] UsbUser (?u, None, ?d) =
      Some (abk_fido_send_hid_message U 5 ABK_FIDO_HID_PING [7] (?u\<lparr>us_rx_packets := q'\<rparr>), None, d')"
    unfolding w by (auto simp: abk_fido_user_usb_def calm_def sample_usb_env_def)
  let ?u2 = "abk_fido_send_hid_message U 5 ABK_FIDO_HID_PING [7] (?u\<lparr>us_rx_packets := q'\<rparr>)"
  have "driver_step sample_klib 8 R phone b ?s1"
    using driver_step.client_write [of "Some p" ABK_FIDO_REPORT_LEN sample_klib 8 R phone b] len assms(2) by simp
  moreover have "driver_step sample_klib 8 R phone ?s1 ((put_usb UsbUser ?u2 ?s1)\<lparr>sy_file := None, sy_dev := d'\<rparr>)"
    using driver_step.receive [of sample_klib 8 "[(sample_env, sample_others, sample_usb_env)]" UsbUser ?s1 ?u2 None d' R phone]
      run assms(1,3) by (simp add: put_usb_def)
  ultimately have "driver_run sample_klib 8 R phone b ((put_usb UsbUser ?u2 ?s1)\<lparr>sy_file := None, sy_dev := d'\<rparr>)"
    by (meson driver_run.start driver_run.step)
  moreover have "queue_list (us_tx_packets ?u2) = map full_report ?ps"
    using user_send [of "?u\<lparr>us_rx_packets := q'\<rparr>" U 5 ABK_FIDO_HID_PING "[7]"] n
    unfolding w by (simp add: abk_fido_user_usb_def queue_ok_init ABK_FIDO_QUEUE_DEPTH_def)
  then have "us_tx_packets ?u2 \<noteq> new_queue" using p by fastforce
  moreover have "sy_usb ((put_usb UsbUser u s)\<lparr>sy_file := f, sy_dev := d\<rparr>) UsbUser = u" for u s f d
    by (simp add: put_usb_def)
  ultimately show ?thesis by metis
qed


end
