(* ===== verification/System_Safety.thy ===== *)
theory System_Safety
  imports Driver_System
begin

section \<open>What a host can do alone\<close>

text \<open>
  The steps of \<open>Driver_System\<close> that a host and the USB side can cause, with nobody at the
  phone: no prompt is approved, no sysfs file or control command is written, nothing is
  uploaded.  Whatever their number and order, no credential appears, changes or disappears,
  no counter moves and no grant window opens.
\<close>

definition sealed :: "abk_fido_store \<Rightarrow> abk_fido_device \<Rightarrow> bool" where
  "sealed S d \<longleftrightarrow> dv_store d = S \<and> dv_store_loaded d \<and> \<not> dv_auth_cache_valid d"

definition nobody :: "others \<Rightarrow> bool" where
  "nobody W \<longleftrightarrow> (\<forall>S d0. sealed S d0 \<longrightarrow> (case oth_wait W d0 of (w, now, d1) \<Rightarrow>
     sealed S d1 \<and> \<not> (0 < w \<and> dv_auth_allowed d1)))"

definition round_alone :: "kenv \<times> others \<times> usb_env \<Rightarrow> bool" where
  "round_alone = (\<lambda>(E, W, U). nobody W)"

subsection \<open>Frames\<close>

definition seal_view where
  "seal_view d = (dv_store d, dv_store_loaded d, dv_auth_cache_valid d)"

lemma sealed_view: "seal_view d = seal_view d' \<Longrightarrow> sealed S d = sealed S d'"
  by (simp add: seal_view_def sealed_def)

lemma seal_view_simps [simp]:
  "seal_view (abk_fido_set_last_trace_locked s d) = seal_view d"
  "seal_view (set_last_error s d) = seal_view d"
  "seal_view (abk_fido_set_attach_state_locked s d) = seal_view d"
  "seal_view (abk_fido_clear_assert_state_locked d) = seal_view d"
  "seal_view (d\<lparr>dv_auth_usb := u\<rparr>) = seal_view d" "seal_view (d\<lparr>dv_auth_cid := c\<rparr>) = seal_view d"
  "seal_view (d\<lparr>dv_auth_keepalive_armed := b\<rparr>) = seal_view d" "seal_view (d\<lparr>dv_next_cid := c\<rparr>) = seal_view d"
  "seal_view (d\<lparr>dv_bound := b\<rparr>) = seal_view d" "seal_view (d\<lparr>dv_udc_name := n\<rparr>) = seal_view d"
  "seal_view (d\<lparr>dv_hid_name := n\<rparr>) = seal_view d" "seal_view (d\<lparr>dv_usb := r\<rparr>) = seal_view d"
  "seal_view (d\<lparr>dv_channels := cs\<rparr>) = seal_view d"
  "seal_view (d\<lparr>dv_last_error := t\<rparr>) = seal_view d"
  by (simp_all add: seal_view_def abk_fido_set_last_trace_locked_def set_last_error_def
      abk_fido_set_attach_state_locked_def abk_fido_clear_assert_state_locked_def)

lemma sealed_simps [simp]:
  "sealed S (abk_fido_set_last_trace_locked s d) = sealed S d"
  "sealed S (abk_fido_clear_assert_state_locked d) = sealed S d"
  "sealed S (d\<lparr>dv_auth_usb := u\<rparr>) = sealed S d" "sealed S (d\<lparr>dv_auth_cid := c\<rparr>) = sealed S d"
  "sealed S (d\<lparr>dv_auth_keepalive_armed := b\<rparr>) = sealed S d"
  "sealed S (d\<lparr>dv_channels := cs\<rparr>) = sealed S d" "sealed S (set_last_error t d) = sealed S d"
  "sealed S (abk_fido_set_attach_state_locked t d) = sealed S d"
  "sealed S (d\<lparr>dv_last_error := t\<rparr>) = sealed S d"
  by (rule sealed_view, simp)+

lemma sealed_windows: "sealed S d \<Longrightarrow> \<not> in_grant E d" "sealed S d \<Longrightarrow> dv_store_loaded d"
  by (simp_all add: sealed_def in_grant_def)

lemma sealed_load: "sealed S d \<Longrightarrow> abk_fido_load_store_locked K E f d = (None, d)"
  using load_when_loaded sealed_windows(2) by blast

subsection \<open>The commands\<close>

lemma auth_loaded [simp]:
  "dv_store_loaded (snd (auth_check E cmd rp d)) = dv_store_loaded d"
  "dv_store_loaded (snd (auth_post cmd rp uv rk d)) = dv_store_loaded d"
  "dv_store_loaded (snd (auth_conclude E cmd rid w d)) = dv_store_loaded d"
  by (simp_all add: auth_check_def auth_post_def auth_conclude_def Let_def abk_fido_auth_start_cooldown_locked_def)

lemma auth_check_sealed: "sealed S d \<Longrightarrow> sealed S (snd (auth_check E cmd rp d))"
  using auth_check_windows(1) [of E cmd rp d] by (auto simp: sealed_def)

lemma approve_sealed:
  assumes "sealed S d" "nobody W"
  shows "\<exists>E' f' d'. ctap_approve E W cmd rp uv rk f d = (Some EPERM, E', f', d') \<and> sealed S d'"
proof (cases "in_cooldown E d")
  case True
  with auth_begin_early [of E d "oth_wait W" cmd rp uv rk] auth_check_sealed [OF assms(1)] show ?thesis
    by (simp add: ctap_approve_def)
next
  case False
  obtain w now d1 where w: "oth_wait W (auth_posted E cmd rp uv rk d) = (w, now, d1)" by (metis prod_cases3)
  have "sealed S (auth_posted E cmd rp uv rk d)"
    using auth_check_sealed [OF assms(1), of E cmd rp] by (simp add: auth_posted_def sealed_def)
  then have d1: "sealed S d1" "\<not> (0 < w \<and> dv_auth_allowed d1)"
    using assms(2) [unfolded nobody_def, rule_format, of S "auth_posted E cmd rp uv rk d"] w by simp_all
  let ?E = "E\<lparr>env_now := now\<rparr>"
  obtain d2 where c: "auth_conclude ?E cmd (dv_auth_request_id d + 1) w d1 = (Some EPERM, d2)"
    using auth_conclude_ret [of ?E cmd "dv_auth_request_id d + 1" w d1] d1(2) by (metis prod.collapse)
  then have "d2 = snd (auth_conclude ?E cmd (dv_auth_request_id d + 1) w d1)" by simp
  then have "sealed S d2" using d1 by (auto simp: sealed_def auth_conclude_cache)
  with auth_begin_prompt [of E d "oth_wait W" cmd rp uv rk w now d1] False sealed_windows(1) [OF assms(1)] w c
  show ?thesis by (simp add: ctap_approve_def)
qed

definition kept :: "abk_fido_store \<Rightarrow> reply \<times> store_file \<times> abk_fido_device \<Rightarrow> bool" where
  "kept S res = sealed S (snd (snd res))"

lemma commands_kept:
  assumes "sealed S d" "nobody W"
  shows "kept S (abk_fido_make_credential_resp K E W mk f d)"
    "kept S (abk_fido_get_assertion_resp K E W ga f d)"
    "kept S (abk_fido_get_next_assertion_resp K E W f d)"
    "kept S (ctap_reset K E W f d)" "kept S (ctap_selection E W f d)"
    "kept S (abk_fido_get_info_resp K E f d)"
proof -
  have t: "sealed S (abk_fido_set_last_trace_locked s d)"
    "sealed S (abk_fido_set_last_trace_locked s (abk_fido_clear_assert_state_locked d))"
    "sealed S (abk_fido_set_last_trace_locked s' (abk_fido_set_last_trace_locked s (abk_fido_clear_assert_state_locked d)))"
    for s s' using assms(1) by simp_all
  note c = approve_sealed [OF assms]
  note l = sealed_load [OF assms(1)] sealed_load [OF iffD2 [OF sealed_simps(2) assms(1)]]
  let ?t = "''selection makeCredential rp='' @ bytes_str (mk_rp_id mk) @ '' user=''
    @ bytes_str (mk_user_name mk) @ '' uv='' @ flag_str (mk_uv mk)"
  from approve_sealed [OF t(1) [of ?t] assms(2), of E ABK_FIDO_CTAP_MAKE_CREDENTIAL "mk_rp_id mk" "mk_uv mk" False f]
    approve_sealed [OF t(1) [of "mk_trace mk"] assms(2), of E ABK_FIDO_CTAP_MAKE_CREDENTIAL "mk_rp_id mk" "mk_uv mk" "mk_rk mk" f]
  show "kept S (abk_fido_make_credential_resp K E W mk f d)"
    using assms(1) l
    by (auto simp: abk_fido_make_credential_resp_def abk_fido_make_selection_credential_resp_def Let_def kept_def)
  from approve_sealed [OF t(2) [of "ga_trace ga"] assms(2), of E ABK_FIDO_CTAP_GET_ASSERTION "ga_rp_id ga" "ga_uv ga" False f]
    approve_sealed [OF t(3) [of "silent_trace ''getAssertion silent probe prompted'' ga" "ga_trace ga"] assms(2),
      of E ABK_FIDO_CTAP_GET_ASSERTION "ga_rp_id ga" "ga_uv ga" False f]
  show "kept S (abk_fido_get_assertion_resp K E W ga f d)"
    using assms(1) l by (auto simp: abk_fido_get_assertion_resp_def Let_def kept_def)
  show "kept S (abk_fido_get_next_assertion_resp K E W f d)"
    using c [of E ABK_FIDO_CTAP_GET_NEXT_ASSERTION "strscpy (kl_stack K ABK_FIDO_MAX_RP_ID) (dv_assert_rp_id d)" False False f] assms(1)
    by (auto simp: abk_fido_get_next_assertion_resp_def Let_def kept_def)
  show "kept S (ctap_reset K E W f d)" "kept S (ctap_selection E W f d)"
    using c [of E ABK_FIDO_CTAP_RESET "[]" False False f] c [of E ABK_FIDO_CTAP_SELECTION "[]" False False f]
    by (auto simp: ctap_reset_def ctap_selection_def kept_def)
  show "kept S (abk_fido_get_info_resp K E f d)"
    using assms(1) l by (auto simp: abk_fido_get_info_resp_def kept_def)
qed

lemma with_request_kept:
  "with_request E parsed command f d = Some res \<Longrightarrow> sealed S d \<Longrightarrow> (\<And>req. kept S (command req)) \<Longrightarrow> kept S res"
  by (auto simp: with_request_def kept_def split: if_splits rd.splits)

lemma dispatch_sealed:
  assumes "sealed S d" "nobody W" "abk_fido_cbor_dispatch K E W D msg f d = Some res"
  shows "kept S res"
proof (cases "msg = []")
  case True
  with assms show ?thesis by (auto simp: abk_fido_cbor_dispatch_def kept_def)
next
  case False
  have c: "sealed S (abk_fido_clear_assert_state_locked d)" using assms(1) by simp
  from assms(3) False show ?thesis
  proof (cases rule: dispatch_cases)
    case make
    from with_request_kept [OF make(2) c] commands_kept(1) [OF c assms(2)] show ?thesis by blast
  next
    case get
    from with_request_kept [OF get(2) assms(1)] commands_kept(2) [OF assms(1,2)] show ?thesis by blast
  qed (use commands_kept(3) [OF assms(1,2)] commands_kept(4-6) [OF c assms(2)] c in \<open>simp_all add: kept_def\<close>)
qed


subsection \<open>Reports\<close>

lemma set_channel_sealed [simp]: "sealed S (set_channel i ch d) = sealed S d"
  by (simp add: set_channel_def)

lemma alloc_sealed: "abk_fido_alloc_channel_locked cid d = (i, d') \<Longrightarrow> sealed S d \<Longrightarrow> sealed S d'"
  by (auto simp: abk_fido_alloc_channel_locked_def split: option.splits)

lemma next_cid_sealed: "abk_fido_next_cid_locked d = (cid, d') \<Longrightarrow> sealed S d' = sealed S d"
  by (rule sealed_view) (auto simp: abk_fido_next_cid_locked_def Let_def split: if_splits)

lemma received_sealed [simp]: "sealed S (snd (hid_received cid i ch d)) = sealed S d"
  by (simp add: hid_received_def)

lemma hid_step_sealed: "hid_step packet d = (a, d') \<Longrightarrow> sealed S d \<Longrightarrow> sealed S d'"
  using alloc_sealed received_sealed
  by (auto simp: hid_step_def hid_init_step_def hid_cont_step_def Let_def
      split: if_splits option.splits prod.splits) (metis received_sealed snd_conv)+

lemma dispatch_msg_sealed:
  assumes "sealed S d" "nobody W" "abk_fido_dispatch_msg K E W D U r cid cmd data (u, f, d) = Some (u', f', d')"
  shows "sealed S d'"
proof (cases "cmd = ABK_FIDO_HID_CBOR")
  case True
  let ?d = "d\<lparr>dv_auth_usb := Some r, dv_auth_cid := cid\<rparr>"
  have c: "hid_cbor K E W D U r cid data (u, f, d) = Some (u', f', d')" using True assms(3)
    by (simp add: abk_fido_dispatch_msg_def hid_codes)
  then obtain ret f1 d1 where run: "abk_fido_cbor_dispatch K E W D data f ?d = Some (ret, f1, d1)"
    by (auto simp: hid_cbor_def Let_def split: option.splits)
  from dispatch_sealed [OF _ assms(2) run, of S] assms(1) have "sealed S d1" by (simp add: kept_def)
  with c run show ?thesis by (cases ret) (auto simp: hid_cbor_def Let_def)
next
  case False
  obtain new d1 where n: "abk_fido_next_cid_locked d = (new, d1)" by fastforce
  have "sealed S (snd (abk_fido_alloc_channel_locked new d1))"
    using alloc_sealed [of new d1] next_cid_sealed [OF n, of S] assms(1) by (metis prod.collapse)
  with False assms n show ?thesis
    by (auto simp: abk_fido_dispatch_msg_def Let_def split: if_splits option.splits)
qed

lemma process_packet_sealed:
  assumes "sealed S d" "nobody W" "abk_fido_process_packet K E W D U r report (u, f, d) = Some (u', f', d')"
  shows "sealed S d'"
proof -
  obtain a d1 where st: "hid_step (rep_data report) d = (a, d1)" by fastforce
  with hid_step_sealed [OF st assms(1)] assms dispatch_msg_sealed [OF _ assms(2), of S d1] show ?thesis
    by (cases a) (auto simp: abk_fido_process_packet_def Let_def split: if_splits)
qed

lemma rx_worker_sealed:
  "abk_fido_rx_worker K D rounds r (u, f, d) = Some (u', f', d') \<Longrightarrow> sealed S d \<Longrightarrow> list_all round_alone rounds
     \<Longrightarrow> sealed S d'"
proof (induction rounds arbitrary: u f d)
  case Nil
  then show ?case by (auto simp: abk_fido_rx_worker.simps [of K D "[]"] split: prod.splits option.splits)
next
  case (Cons x rounds)
  obtain E W U where x: "x = (E, W, U)" by (metis prod_cases3)
  obtain y q where p: "abk_fido_queue_pop (us_rx_packets u) = (y, q)" by fastforce
  show ?case
  proof (cases y)
    case None
    with Cons.prems p show ?thesis by (auto simp: abk_fido_rx_worker.simps [of K D "x # rounds"])
  next
    case (Some report)
    obtain u1 f1 d1 where s1:
      "abk_fido_process_packet K E W D U r report (u\<lparr>us_rx_packets := q\<rparr>, f, d) = Some (u1, f1, d1)"
      "abk_fido_rx_worker K D rounds r (u1, f1, d1) = Some (u', f', d')"
      using Cons.prems(1) p Some unfolding x
      by (auto simp: abk_fido_rx_worker.simps [of K D "(E, W, U) # rounds"] split: option.splits)
    have "nobody W" using Cons.prems(3) by (simp add: x round_alone_def)
    from process_packet_sealed [OF Cons.prems(2) this s1(1)] Cons.IH [OF s1(2)] Cons.prems(3) show ?thesis by simp
  qed
qed

subsection \<open>The life of the USB function\<close>

lemma disable_sealed: "abk_fido_disable u d = (u', d') \<Longrightarrow> sealed S d' = sealed S d"
  by (rule sealed_view) (auto simp: abk_fido_disable_def Let_def simp del: pop_each.simps)

lemma set_alt_sealed:
  assumes "abk_fido_set_alt U A ds u d = (ret, u', d')" "sealed S d"
  shows "sealed S d'"
proof -
  obtain u0 d0 where 0: "(if us_in_req u \<noteq> None then abk_fido_disable u d else (u, d)) = (u0, d0)" by fastforce
  have s0: "sealed S d0" using 0 assms(2) disable_sealed [of u d u0 d0 S] by (auto split: if_splits)
  obtain r1 u1 where o: "queue_out_requests A [0..<4] (u0\<lparr>us_in_req := Some empty_request\<rparr>) = (r1, u1)" by fastforce
  have dis: "sealed S (snd (abk_fido_disable v d0))" for v
    using disable_sealed [of v d0] s0 by (metis prod.collapse)
  have "seal_view (d0\<lparr>dv_bound := b, dv_udc_name := n\<rparr>) = seal_view d0" for b n by simp
  then have dev: "sealed S (d0\<lparr>dv_bound := b, dv_udc_name := n\<rparr>)" for b n using s0 sealed_view by metis
  show ?thesis
    using assms(1) s0 dev dis [of "u0\<lparr>us_in_req := None\<rparr>"] dis [of u1]
    unfolding abk_fido_set_alt_def 0 o
    by (auto simp: Let_def o split: option.splits if_splits prod.splits)
qed

lemma bind_sealed: "abk_fido_bind B r ds u d = (ret, ds', u', d', blocks) \<Longrightarrow> sealed S d' = sealed S d"
  by (rule sealed_view) (auto simp: abk_fido_bind_def Let_def split: sum.splits option.splits)

lemma unbind_sealed: "abk_fido_unbind r u d = (u', d') \<Longrightarrow> sealed S d' = sealed S d"
  by (rule sealed_view) (auto simp: abk_fido_unbind_def Let_def)

lemma keepalive_sealed:
  "abk_fido_auth_keepalive_worker U us d = (us', d') \<Longrightarrow> sealed S d' = sealed S d"
  by (rule sealed_view) (auto simp: abk_fido_auth_keepalive_worker_def Let_def split: option.splits if_splits)

lemma blob_read_sealed:
  assumes "sealed S d" "abk_fido_store_blob_read K E f off count d = (x, d')"
  shows "sealed S d'"
  using assms sealed_load [OF assms(1)] by (auto simp: abk_fido_store_blob_read_def Let_def split: if_splits)

lemma host_step_sealed:
  assumes "driver_step K D round_alone False s s'" "sealed S (sy_dev s)"
  shows "sealed S (sy_dev s')"
  using assms(1)
proof (cases rule: driver_step.cases)
  case (receive rounds r u f d)
  with rx_worker_sealed [OF receive(2) assms(2)] show ?thesis by simp
next
  case (keepalive U us d)
  with keepalive_sealed [OF keepalive(2)] assms(2) show ?thesis by simp
next
  case (blob_read E off count x d)
  with blob_read_sealed [OF assms(2)] show ?thesis by simp
next
  case (set_alt U A ret u d)
  with set_alt_sealed [OF set_alt(2) assms(2)] show ?thesis by simp
next
  case (disable u d)
  with disable_sealed [OF disable(2)] assms(2) show ?thesis by simp
next
  case (bind B ret ds u d blocks)
  with bind_sealed [OF bind(2)] assms(2) show ?thesis by simp
next
  case (unbind u d)
  with unbind_sealed [OF unbind(2)] assms(2) show ?thesis by simp
qed (use assms(2) in \<open>simp_all add: put_usb_def\<close>)

text \<open>
  C4. A host alone changes nothing: starting from any state in which the store is loaded and no
  grant window is open, whatever a host and the readers and writers of the character devices do,
  in any order and number, as long as no prompt is approved and nobody writes the control
  surface, every credential, the signature counter and the rest of the store stay as they are.
\<close>

theorem host_alone_changes_nothing:
  assumes "dv_store_loaded (sy_dev s0)" "\<not> dv_auth_cache_valid (sy_dev s0)"
    "driver_run K D round_alone False s0 s"
  shows "dv_store (sy_dev s) = dv_store (sy_dev s0)"
proof -
  from assms(3) have "sealed (dv_store (sy_dev s0)) (sy_dev s)"
  proof (induction rule: driver_run.induct)
    case start
    with assms(1,2) show ?case by (simp add: sealed_def)
  next
    case (step s s')
    with host_step_sealed show ?case by blast
  qed
  then show ?thesis by (simp add: sealed_def)
qed


theorem host_alone_changes_nothing_witness:
  "\<exists>s. driver_run sample_klib 8 round_alone False
      (boot_system\<lparr>sy_dev := abk_fido_dev_initial\<lparr>dv_store := dv_store two_accounts, dv_store_loaded := True\<rparr>\<rparr>) s
    \<and> us_tx_packets (sy_usb s UsbUser) \<noteq> new_queue \<and> dv_store (sy_dev s) = dv_store two_accounts"
proof -
  let ?s0 = "boot_system\<lparr>sy_dev := abk_fido_dev_initial\<lparr>dv_store := dv_store two_accounts, dv_store_loaded := True\<rparr>\<rparr>"
  have "round_alone (sample_env, sample_others, sample_usb_env)"
    by (simp add: round_alone_def nobody_def sample_others_def)
  then obtain s where s: "driver_run sample_klib 8 round_alone False ?s0 s" "us_tx_packets (sy_usb s UsbUser) \<noteq> new_queue"
    using ping_run [where R = round_alone and phone = False and b = ?s0] by auto
  have "dv_store_loaded (sy_dev ?s0)" "\<not> dv_auth_cache_valid (sy_dev ?s0)"
    by (simp_all add: abk_fido_dev_initial_def)
  from host_alone_changes_nothing [OF this s(1)] s show ?thesis by auto
qed

end
