(* ===== verification/Vhid_Driver.thy ===== *)
theory Vhid_Driver
  imports Fifo_Interface "HOL-Library.Sublist"
begin

section \<open>The virtual HID driver for Windows (\<open>abkfidovhid.c\<close>)\<close>

text \<open>
  The driver between the Windows HID stack and the desktop agent.  Output reports of the host
  go to the agent's reads, through a backlog of 64 frames that gives up its oldest; the agent's
  writes go to the Virtual HID Framework, with the last eight replies kept for a host that
  polls.  The device context is the record \<open>abk_device_context\<close>; every handler holds the spin
  lock for what it does to it and is one step here.  What the frameworks (WDF, VHF) answer is
  the record \<open>wdf_env\<close>.  A read request is a number; completing requests is the list of
  (request, status, bytes) a handler returns.
\<close>

type_synonym ntstatus = u32

definition STATUS_SUCCESS :: ntstatus where "STATUS_SUCCESS = 0"
definition STATUS_NO_MORE_ENTRIES :: ntstatus where "STATUS_NO_MORE_ENTRIES = 0x8000001A"
definition STATUS_INVALID_PARAMETER :: ntstatus where "STATUS_INVALID_PARAMETER = 0xC000000D"
definition STATUS_INVALID_DEVICE_REQUEST :: ntstatus where "STATUS_INVALID_DEVICE_REQUEST = 0xC0000010"
definition STATUS_BUFFER_TOO_SMALL :: ntstatus where "STATUS_BUFFER_TOO_SMALL = 0xC0000023"
definition STATUS_DEVICE_NOT_READY :: ntstatus where "STATUS_DEVICE_NOT_READY = 0xC00000A3"
definition STATUS_INVALID_BUFFER_SIZE :: ntstatus where "STATUS_INVALID_BUFFER_SIZE = 0xC0000206"

definition NT_SUCCESS :: "ntstatus \<Rightarrow> bool" where "NT_SUCCESS s \<longleftrightarrow> 0 \<le> sint s"

definition ABK_REPORT_SIZE :: nat where "ABK_REPORT_SIZE = 64"
definition ABK_RING_SLOTS :: nat where "ABK_RING_SLOTS = 64"
definition ABK_REPLY_SLOTS :: nat where "ABK_REPLY_SLOTS = 8"
definition ABK_REPORT_MODE_AUTO :: u32 where "ABK_REPORT_MODE_AUTO = 0"
definition ABK_REPORT_MODE_PLAIN :: u32 where "ABK_REPORT_MODE_PLAIN = 1"
definition ABK_REPORT_MODE_LEADING_ID :: u32 where "ABK_REPORT_MODE_LEADING_ID = 2"

lemmas vhid_consts = ABK_REPORT_SIZE_def ABK_RING_SLOTS_def ABK_REPLY_SLOTS_def

record abk_stats =
  sta_Size :: u32
  sta_HostReports :: u32
  sta_LastHostReportLen :: u32
  sta_Submitted :: u32
  sta_SubmitFailures :: u32
  sta_LastSubmitStatus :: u32
  sta_LastSubmitLen :: u32
  sta_GetInputReports :: u32
  sta_GetInputServed :: u32
  sta_ReplyBacklog :: u32
  sta_Dropped :: u32
  sta_ReportMode :: u32

text \<open>
  \<open>Head\<close>, \<open>Tail\<close>, \<open>Count\<close>, \<open>Ring\<close> and \<open>ReplyHead\<close>, \<open>ReplyTail\<close>, \<open>ReplyCount\<close>, \<open>Replies\<close>: two
  rings of frames.  Frames enter at the head and leave at the tail.
\<close>

record abk_ring =
  ri_head :: nat
  ri_tail :: nat
  ri_count :: nat
  ri_frames :: "u8 list list"

record abk_device_context =
  cx_VhfHandle :: bool
  cx_VhfStarted :: bool
  cx_ReadQueue :: "nat list"
  cx_ReportIdSeen :: bool
  cx_ReportIdLeads :: bool
  cx_ReportMode :: u32
  cx_Ring :: abk_ring
  cx_Dropped :: u32
  cx_Replies :: abk_ring
  cx_Stats :: abk_stats

record wdf_env =
  wd_forward :: ntstatus
  wd_input_buffer :: ntstatus
  wd_output_buffer :: "nat \<Rightarrow> ntstatus"
  wd_submit :: "u8 list \<Rightarrow> ntstatus"

type_synonym completions = "(nat \<times> ntstatus \<times> u8 list) list"

subsection \<open>Rings\<close>

definition ring_drop :: "nat \<Rightarrow> abk_ring \<Rightarrow> abk_ring" where
  "ring_drop slots r = r\<lparr>ri_tail := (ri_tail r + 1) mod slots, ri_count := ri_count r - 1\<rparr>"

definition ring_put :: "nat \<Rightarrow> u8 list \<Rightarrow> abk_ring \<Rightarrow> abk_ring" where
  "ring_put slots frame r =
     r\<lparr>ri_frames := (ri_frames r)[ri_head r := frame], ri_head := (ri_head r + 1) mod slots,
       ri_count := ri_count r + 1\<rparr>"

text \<open>Insertion into a full ring gives up the oldest frame; the flag says that it did.\<close>

definition ring_insert :: "nat \<Rightarrow> u8 list \<Rightarrow> abk_ring \<Rightarrow> bool \<times> abk_ring" where
  "ring_insert slots frame r =
     (if ri_count r = slots then (True, ring_put slots frame (ring_drop slots r))
      else (False, ring_put slots frame r))"

definition ring_take :: "nat \<Rightarrow> abk_ring \<Rightarrow> u8 list option \<times> abk_ring" where
  "ring_take slots r =
     (if 0 < ri_count r then (Some (ri_frames r ! ri_tail r), ring_drop slots r) else (None, r))"

subsection \<open>Reads and host reports\<close>

definition AbkCompleteReadWithFrame :: "wdf_env \<Rightarrow> nat \<Rightarrow> u8 list \<Rightarrow> completions" where
  "AbkCompleteReadWithFrame F request frame =
     (if \<not> NT_SUCCESS (wd_output_buffer F request) then [(request, wd_output_buffer F request, [])]
      else [(request, STATUS_SUCCESS, frame)])"

definition AbkEvtIoRead ::
    "wdf_env \<Rightarrow> nat \<Rightarrow> nat \<Rightarrow> abk_device_context \<Rightarrow> completions \<times> abk_device_context" where
  "AbkEvtIoRead F request len c =
     (if len < ABK_REPORT_SIZE then ([(request, STATUS_BUFFER_TOO_SMALL, [])], c)
      else
        (case ring_take ABK_RING_SLOTS (cx_Ring c) of
           (Some frame, r) \<Rightarrow> (AbkCompleteReadWithFrame F request frame, c\<lparr>cx_Ring := r\<rparr>)
         | (None, r) \<Rightarrow>
             if \<not> NT_SUCCESS (wd_forward F) then ([(request, wd_forward F, [])], c)
             else ([], c\<lparr>cx_ReadQueue := cx_ReadQueue c @ [request]\<rparr>)))"

definition AbkDeliverHostReport ::
    "wdf_env \<Rightarrow> u8 list \<Rightarrow> abk_device_context \<Rightarrow> completions \<times> abk_device_context" where
  "AbkDeliverHostReport F frame c =
     (if ri_count (cx_Ring c) = 0 \<and> cx_ReadQueue c \<noteq> [] then
        (AbkCompleteReadWithFrame F (hd (cx_ReadQueue c)) frame, c\<lparr>cx_ReadQueue := tl (cx_ReadQueue c)\<rparr>)
      else
        (case ring_insert ABK_RING_SLOTS frame (cx_Ring c) of
           (dropped, r) \<Rightarrow>
             ([], c\<lparr>cx_Ring := r, cx_Dropped := (if dropped then cx_Dropped c + 1 else cx_Dropped c)\<rparr>)))"

text \<open>The frame: 64 bytes, a leading zero report id dropped, short reports padded.\<close>

definition host_frame :: "u8 list \<Rightarrow> u8 list" where
  "host_frame buf =
     (let data = (if ABK_REPORT_SIZE < length buf \<and> buf ! 0 = 0 then drop 1 buf else buf)
      in overwrite 0 (take ABK_REPORT_SIZE data) (replicate ABK_REPORT_SIZE 0))"

definition AbkEvtVhfWriteReport ::
    "wdf_env \<Rightarrow> u8 list option \<Rightarrow> abk_device_context \<Rightarrow> ntstatus \<times> completions \<times> abk_device_context" where
  "AbkEvtVhfWriteReport F report c =
     (case report of
        None \<Rightarrow> (STATUS_INVALID_PARAMETER, [], c)
      | Some buf \<Rightarrow>
          if length buf = 0 then (STATUS_INVALID_PARAMETER, [], c)
          else
            (let c = c\<lparr>cx_ReportIdLeads := ABK_REPORT_SIZE < length buf, cx_ReportIdSeen := True,
                   cx_Stats := (cx_Stats c)\<lparr>sta_HostReports := sta_HostReports (cx_Stats c) + 1,
                     sta_LastHostReportLen := word_of_nat (length buf)\<rparr>\<rparr>
             in (STATUS_SUCCESS, AbkDeliverHostReport F (host_frame buf) c)))"

subsection \<open>Writes and polled replies\<close>

definition report_id_leads :: "abk_device_context \<Rightarrow> bool" where
  "report_id_leads c =
     (if cx_ReportMode c = ABK_REPORT_MODE_PLAIN then False
      else if cx_ReportMode c = ABK_REPORT_MODE_LEADING_ID then True
      else if cx_ReportIdSeen c then cx_ReportIdLeads c else True)"

definition shaped :: "bool \<Rightarrow> u8 list \<Rightarrow> u8 list" where
  "shaped leads frame = (if leads then 0 # frame else frame)"

definition written_frame :: "u8 list \<Rightarrow> u8 list" where
  "written_frame buf =
     take ABK_REPORT_SIZE (if ABK_REPORT_SIZE < length buf \<and> buf ! 0 = 0 then drop 1 buf else buf)"

text \<open>Submission, with one retry in the other shape; also the length of what was tried last.\<close>

definition submit_frame :: "wdf_env \<Rightarrow> u8 list \<Rightarrow> abk_device_context \<Rightarrow> ntstatus \<times> nat" where
  "submit_frame F frame c =
     (let leads = report_id_leads c;
          packet = shaped leads frame
      in if \<not> cx_VhfStarted c then (STATUS_DEVICE_NOT_READY, length packet)
         else
           (let status = wd_submit F packet
            in if status = STATUS_INVALID_BUFFER_SIZE \<or> status = STATUS_INVALID_PARAMETER then
                 (wd_submit F (shaped (\<not> leads) frame), length (shaped (\<not> leads) frame))
               else (status, length packet)))"

definition AbkEvtIoWrite ::
    "wdf_env \<Rightarrow> nat \<Rightarrow> nat \<Rightarrow> u8 list \<Rightarrow> abk_device_context \<Rightarrow> (ntstatus \<times> nat) \<times> abk_device_context" where
  "AbkEvtIoWrite F request len buf c =
     (if len < ABK_REPORT_SIZE then ((STATUS_INVALID_BUFFER_SIZE, 0), c)
      else if \<not> NT_SUCCESS (wd_input_buffer F) then ((wd_input_buffer F, 0), c)
      else
        (let frame = written_frame buf in
         case submit_frame F frame c of
           (status, submitted_len) \<Rightarrow>
             (let s = (cx_Stats c)\<lparr>sta_LastSubmitStatus := status, sta_LastSubmitLen := word_of_nat submitted_len\<rparr>
              in if NT_SUCCESS status then
                   (case ring_insert ABK_REPLY_SLOTS frame (cx_Replies c) of
                      (_, r) \<Rightarrow>
                        ((status, len),
                         c\<lparr>cx_Replies := r,
                           cx_Stats := s\<lparr>sta_Submitted := sta_Submitted s + 1,
                             sta_ReplyBacklog := word_of_nat (ri_count r)\<rparr>\<rparr>))
                 else ((status, 0), c\<lparr>cx_Stats := s\<lparr>sta_SubmitFailures := sta_SubmitFailures s + 1\<rparr>\<rparr>))))"

text \<open>
  The host's buffer is \<open>None\<close> for a null pointer, else its \<open>capacity\<close>.  The answer is the
  status and the bytes stored into it, 64 or 65 of them whatever the capacity.
\<close>

definition AbkEvtVhfGetInputReport ::
    "nat option \<Rightarrow> abk_device_context \<Rightarrow> (ntstatus \<times> u8 list) \<times> abk_device_context" where
  "AbkEvtVhfGetInputReport out c =
     (case out of
        None \<Rightarrow> ((STATUS_INVALID_PARAMETER, []), c)
      | Some capacity \<Rightarrow>
          if capacity = 0 then ((STATUS_INVALID_PARAMETER, []), c)
          else
            (let s = (cx_Stats c)\<lparr>sta_GetInputReports := sta_GetInputReports (cx_Stats c) + 1\<rparr>
             in case ring_take ABK_REPLY_SLOTS (cx_Replies c) of
                  (None, r) \<Rightarrow> ((STATUS_NO_MORE_ENTRIES, []), c\<lparr>cx_Stats := s\<rparr>)
                | (Some frame, r) \<Rightarrow>
                    ((STATUS_SUCCESS, shaped (ABK_REPORT_SIZE < capacity) frame),
                     c\<lparr>cx_Replies := r,
                       cx_Stats := s\<lparr>sta_GetInputServed := sta_GetInputServed s + 1,
                         sta_ReplyBacklog := word_of_nat (ri_count r)\<rparr>\<rparr>)))"

subsection \<open>Control requests\<close>

datatype ioctl = ABK_IOCTL_SET_REPORT_MODE | ABK_IOCTL_GET_STATS | OTHER_IOCTL

definition SIZEOF_ABK_STATS :: nat where "SIZEOF_ABK_STATS = 48"

definition AbkEvtIoDeviceControl ::
    "wdf_env \<Rightarrow> ntstatus \<Rightarrow> nat \<Rightarrow> nat \<Rightarrow> ioctl \<Rightarrow> u32 \<Rightarrow> abk_device_context
      \<Rightarrow> (ntstatus \<times> abk_stats option) \<times> abk_device_context" where
  "AbkEvtIoDeviceControl F out_buffer out_len in_len code input c =
     (if code = ABK_IOCTL_SET_REPORT_MODE then
        (if in_len < 4 then ((STATUS_BUFFER_TOO_SMALL, None), c)
         else if \<not> NT_SUCCESS (wd_input_buffer F) then ((wd_input_buffer F, None), c)
         else if ABK_REPORT_MODE_LEADING_ID < input then ((STATUS_INVALID_PARAMETER, None), c)
         else ((STATUS_SUCCESS, None),
           c\<lparr>cx_ReportMode := input, cx_Stats := (cx_Stats c)\<lparr>sta_ReportMode := input\<rparr>\<rparr>))
      else if code \<noteq> ABK_IOCTL_GET_STATS then ((STATUS_INVALID_DEVICE_REQUEST, None), c)
      else if out_len < SIZEOF_ABK_STATS then ((STATUS_BUFFER_TOO_SMALL, None), c)
      else if \<not> NT_SUCCESS out_buffer then ((out_buffer, None), c)
      else
        (let s = (cx_Stats c)\<lparr>sta_Size := word_of_nat SIZEOF_ABK_STATS, sta_Dropped := cx_Dropped c,
               sta_ReplyBacklog := word_of_nat (ri_count (cx_Replies c)), sta_ReportMode := cx_ReportMode c\<rparr>
         in ((STATUS_SUCCESS, Some s), c\<lparr>cx_Stats := s\<rparr>)))"

subsection \<open>Start and removal\<close>

definition zero_ring :: "nat \<Rightarrow> abk_ring" where
  "zero_ring slots = \<lparr>ri_head = 0, ri_tail = 0, ri_count = 0,
     ri_frames = replicate slots (replicate ABK_REPORT_SIZE 0)\<rparr>"

definition zero_context :: abk_device_context where
  "zero_context = \<lparr>cx_VhfHandle = False, cx_VhfStarted = False, cx_ReadQueue = [], cx_ReportIdSeen = False,
     cx_ReportIdLeads = False, cx_ReportMode = 0, cx_Ring = zero_ring ABK_RING_SLOTS, cx_Dropped = 0,
     cx_Replies = zero_ring ABK_REPLY_SLOTS,
     cx_Stats = \<lparr>sta_Size = 0, sta_HostReports = 0, sta_LastHostReportLen = 0, sta_Submitted = 0,
       sta_SubmitFailures = 0, sta_LastSubmitStatus = 0, sta_LastSubmitLen = 0, sta_GetInputReports = 0,
       sta_GetInputServed = 0, sta_ReplyBacklog = 0, sta_Dropped = 0, sta_ReportMode = 0\<rparr>\<rparr>"

definition AbkEvtDeviceSelfManagedIoInit ::
    "ntstatus \<Rightarrow> abk_device_context \<Rightarrow> ntstatus \<times> abk_device_context" where
  "AbkEvtDeviceSelfManagedIoInit start c =
     (if \<not> NT_SUCCESS start then (start, c) else (STATUS_SUCCESS, c\<lparr>cx_VhfStarted := True\<rparr>))"

definition AbkEvtDeviceSelfManagedIoCleanup :: "abk_device_context \<Rightarrow> abk_device_context" where
  "AbkEvtDeviceSelfManagedIoCleanup c =
     (let c = c\<lparr>cx_VhfStarted := False\<rparr>
      in if cx_VhfHandle c then c\<lparr>cx_VhfHandle := False\<rparr> else c)"

definition AbkEvtDeviceCleanup :: "abk_device_context \<Rightarrow> abk_device_context" where
  "AbkEvtDeviceCleanup c = (if cx_VhfHandle c then c\<lparr>cx_VhfHandle := False\<rparr> else c)"

subsection \<open>The rings are dropping queues\<close>

definition ring_frames :: "nat \<Rightarrow> abk_ring \<Rightarrow> u8 list list" where
  "ring_frames slots r = ring_list (ri_frames r) (ri_tail r) slots (ri_count r)"

definition ring_ok :: "nat \<Rightarrow> abk_ring \<Rightarrow> bool" where
  "ring_ok slots r \<longleftrightarrow> length (ri_frames r) = slots \<and> ri_tail r < slots \<and> ri_count r \<le> slots
     \<and> ri_head r = (ri_tail r + ri_count r) mod slots
     \<and> list_all (\<lambda>f. length f = ABK_REPORT_SIZE) (ri_frames r)"

definition frame_ok :: "u8 list \<Rightarrow> bool" where
  "frame_ok f \<longleftrightarrow> length f = ABK_REPORT_SIZE"

lemma length_ring_frames [simp]: "length (ring_frames slots r) = ri_count r"
  by (simp add: ring_frames_def)

lemma ring_frames_Nil [simp]: "ring_frames slots r = [] \<longleftrightarrow> ri_count r = 0"
  by (metis length_0_conv length_ring_frames)

lemma zero_ring_ok: "0 < slots \<Longrightarrow> ring_ok slots (zero_ring slots)"
  by (simp add: ring_ok_def zero_ring_def list_all_length)

lemma ring_drop_frames:
  assumes "ring_ok slots r" "0 < ri_count r"
  shows "ring_frames slots r = ri_frames r ! ri_tail r # ring_frames slots (ring_drop slots r)"
proof -
  obtain n where n: "ri_count r = Suc n" using assms(2) by (cases "ri_count r") auto
  with assms(1) ring_list_pop [of "ri_tail r" slots "ri_frames r" n] show ?thesis
    by (simp add: ring_frames_def ring_drop_def ring_ok_def)
qed

lemma ring_drop_ok:
  assumes "ring_ok slots r" "0 < ri_count r"
  shows "ring_ok slots (ring_drop slots r)" "ri_count (ring_drop slots r) < slots"
proof -
  obtain n where n: "ri_count r = Suc n" using assms(2) by (cases "ri_count r") auto
  then have "(Suc (ri_tail r) mod slots + n) mod slots = (ri_tail r + ri_count r) mod slots"
    by (simp add: mod_simps)
  with assms n show "ring_ok slots (ring_drop slots r)" "ri_count (ring_drop slots r) < slots"
    by (auto simp: ring_ok_def ring_drop_def)
qed

lemma ring_put_ok:
  assumes "ring_ok slots r" "frame_ok f" "ri_count r < slots"
  shows "ring_ok slots (ring_put slots f r)" "ring_frames slots (ring_put slots f r) = ring_frames slots r @ [f]"
proof -
  have "Suc ((ri_tail r + ri_count r) mod slots) mod slots = (ri_tail r + Suc (ri_count r)) mod slots"
    by (simp add: mod_simps)
  with assms show "ring_ok slots (ring_put slots f r)"
    by (auto simp: ring_ok_def ring_put_def frame_ok_def list_all_length nth_list_update)
  show "ring_frames slots (ring_put slots f r) = ring_frames slots r @ [f]"
    using assms ring_list_push [of "ri_count r" slots "ri_frames r" "ri_tail r" f]
    by (simp add: ring_ok_def ring_put_def ring_frames_def)
qed

lemma ring_insert_cases:
  assumes "ring_ok slots r" "frame_ok f" "0 < slots"
  shows "ring_ok slots (snd (ring_insert slots f r))"
    "ring_frames slots (snd (ring_insert slots f r)) =
       (if ri_count r = slots then tl (ring_frames slots r) else ring_frames slots r) @ [f]"
    "fst (ring_insert slots f r) \<longleftrightarrow> ri_count r = slots"
  using assms ring_put_ok [OF assms(1,2)] ring_drop_ok [OF assms(1)] ring_drop_frames [OF assms(1)]
    ring_put_ok [of slots "ring_drop slots r" f]
  by (auto simp: ring_insert_def ring_ok_def le_less)

lemma ring_is_dropping_fifo:
  assumes "0 < slots"
  shows "dropping_fifo (ring_frames slots) (ring_ok slots) (ring_take slots) (ring_insert slots) frame_ok slots"
proof (unfold_locales, goal_cases)
  case (1 r)
  then show ?case by (simp add: ring_take_def)
next
  case (2 r x xs)
  then have "0 < ri_count r" using length_ring_frames [of slots r] by simp
  with 2 ring_drop_frames [OF 2(1)] show ?case by (simp add: ring_take_def)
next
  case (3 r x xs)
  then have "0 < ri_count r" using length_ring_frames [of slots r] by simp
  with 3 ring_drop_frames [OF 3(1)] show ?case by (simp add: ring_take_def)
next
  case (4 r)
  then show ?case by (simp add: ring_take_def ring_drop_ok)
next
  case (5 r x)
  with assms ring_insert_cases [OF 5(1,2)] show ?case by simp
next
  case (6 r x)
  with assms ring_insert_cases [OF 6(1,2)] show ?case by simp
next
  case (7 r x)
  with assms ring_insert_cases [OF 7] show ?case by simp
next
  case (8 r)
  then show ?case by (simp add: ring_ok_def)
next
  case 9
  show ?case by (rule assms)
qed

interpretation backlog: dropping_fifo "ring_frames ABK_RING_SLOTS" "ring_ok ABK_RING_SLOTS"
  "ring_take ABK_RING_SLOTS" "ring_insert ABK_RING_SLOTS" frame_ok ABK_RING_SLOTS
  by (rule ring_is_dropping_fifo) (simp add: vhid_consts)

interpretation replies: dropping_fifo "ring_frames ABK_REPLY_SLOTS" "ring_ok ABK_REPLY_SLOTS"
  "ring_take ABK_REPLY_SLOTS" "ring_insert ABK_REPLY_SLOTS" frame_ok ABK_REPLY_SLOTS
  by (rule ring_is_dropping_fifo) (simp add: vhid_consts)

subsection \<open>The relay keeps the order\<close>

text \<open>What happens to the driver: reports of the host, reads of the agent, cancelled reads.\<close>

datatype vhid_event = HostReport "u8 list option" | AgentRead nat nat | ReadsCancelled

fun vhid_step :: "wdf_env \<Rightarrow> vhid_event \<Rightarrow> abk_device_context \<Rightarrow> completions \<times> abk_device_context" where
  "vhid_step F (HostReport report) c = snd (AbkEvtVhfWriteReport F report c)"
| "vhid_step F (AgentRead request len) c = AbkEvtIoRead F request len c"
| "vhid_step F ReadsCancelled c = ([], c\<lparr>cx_ReadQueue := []\<rparr>)"

fun vhid_run :: "wdf_env \<Rightarrow> vhid_event list \<Rightarrow> abk_device_context \<Rightarrow> completions \<times> abk_device_context" where
  "vhid_run F [] c = ([], c)"
| "vhid_run F (e # es) c =
     (case vhid_step F e c of (x, c) \<Rightarrow> (case vhid_run F es c of (y, c) \<Rightarrow> (x @ y, c)))"

fun event_frames :: "vhid_event \<Rightarrow> u8 list list" where
  "event_frames (HostReport (Some buf)) = (if buf = [] then [] else [host_frame buf])"
| "event_frames _ = []"

definition delivered :: "completions \<Rightarrow> u8 list list" where
  "delivered cs = map (snd \<circ> snd) (filter (\<lambda>(r, s, bs). s = STATUS_SUCCESS) cs)"

definition relay_ok :: "abk_device_context \<Rightarrow> bool" where
  "relay_ok c \<longleftrightarrow> ring_ok ABK_RING_SLOTS (cx_Ring c) \<and> (ri_count (cx_Ring c) = 0 \<or> cx_ReadQueue c = [])"

definition wdf_reads_ok :: "wdf_env \<Rightarrow> bool" where
  "wdf_reads_ok F \<longleftrightarrow> NT_SUCCESS (wd_forward F) \<and> (\<forall>r. NT_SUCCESS (wd_output_buffer F r))"

definition relay_frames :: "abk_device_context \<Rightarrow> u8 list list" where
  "relay_frames c = ring_frames ABK_RING_SLOTS (cx_Ring c)"

lemma delivered_append [simp]: "delivered (xs @ ys) = delivered xs @ delivered ys"
  by (simp add: delivered_def)

lemma delivered_Nil [simp]: "delivered [] = []"
  by (simp add: delivered_def)

lemma host_frame_ok: "frame_ok (host_frame buf)"
  by (simp add: frame_ok_def host_frame_def Let_def min_def)

lemma complete_delivered: "wdf_reads_ok F \<Longrightarrow> delivered (AbkCompleteReadWithFrame F r f) = [f]"
  by (simp add: AbkCompleteReadWithFrame_def wdf_reads_ok_def delivered_def)

text \<open>
  One step: what is delivered and what stays is what was there and what arrived, less the
  oldest frame when the counter of dropped frames goes up.
\<close>

definition relay_step_ok ::
    "u8 list list \<Rightarrow> abk_device_context \<Rightarrow> u8 list list \<Rightarrow> abk_device_context \<Rightarrow> bool" where
  "relay_step_ok arrived c out c' \<longleftrightarrow> relay_ok c' \<and>
     (\<exists>n. subseq (out @ relay_frames c') (relay_frames c @ arrived)
        \<and> length (relay_frames c @ arrived) = length (out @ relay_frames c') + n
        \<and> cx_Dropped c' = cx_Dropped c + word_of_nat n)"

lemma deliver_step:
  assumes "wdf_reads_ok F" "relay_ok c" "frame_ok f" "AbkDeliverHostReport F f c = (out, c')"
  shows "relay_step_ok [f] c (delivered out) c'"
proof (cases "ri_count (cx_Ring c) = 0 \<and> cx_ReadQueue c \<noteq> []")
  case True
  with assms have "relay_frames c = []" "relay_frames c' = []" "relay_ok c'" "delivered out = [f]"
    "cx_Dropped c' = cx_Dropped c"
    by (auto simp: AbkDeliverHostReport_def relay_frames_def relay_ok_def complete_delivered)
  then show ?thesis unfolding relay_step_ok_def by (auto intro!: exI [of _ 0])
next
  case False
  with assms(2) have q: "cx_ReadQueue c = []" by (auto simp: relay_ok_def)
  have ok: "ring_ok ABK_RING_SLOTS (cx_Ring c)" using assms(2) by (simp add: relay_ok_def)
  note good = backlog.enq_good [OF ok assms(3)]
  have c': "out = []" "c' = c\<lparr>cx_Ring := snd (ring_insert ABK_RING_SLOTS f (cx_Ring c)),
      cx_Dropped := (if ri_count (cx_Ring c) = ABK_RING_SLOTS then cx_Dropped c + 1 else cx_Dropped c)\<rparr>"
    using assms(4) False ring_insert_cases(3) [OF ok assms(3)]
    by (auto simp: AbkDeliverHostReport_def vhid_consts split: prod.splits)
  have rok: "relay_ok c'" using good q unfolding c'(2) relay_ok_def by simp
  show ?thesis
  proof (cases "ri_count (cx_Ring c) = ABK_RING_SLOTS")
    case True
    then have full: "length (ring_frames ABK_RING_SLOTS (cx_Ring c)) = ABK_RING_SLOTS" by simp
    from True obtain x xs where x: "relay_frames c = x # xs"
      unfolding relay_frames_def by (cases "ring_frames ABK_RING_SLOTS (cx_Ring c)") (auto simp: vhid_consts)
    then have "relay_frames c' = xs @ [f]"
      using backlog.enq_full [OF ok assms(3) full] unfolding c'(2) relay_frames_def by simp
    with x rok True c' show ?thesis unfolding relay_step_ok_def by (auto intro!: exI [of _ 1])
  next
    case notfull: False
    then have "relay_frames c' = relay_frames c @ [f]"
      using backlog.enq_room [OF ok assms(3)] backlog.within_cap [OF ok] unfolding c'(2) relay_frames_def by simp
    with rok notfull c' show ?thesis unfolding relay_step_ok_def by (auto intro!: exI [of _ 0])
  qed
qed

lemma read_step:
  assumes "wdf_reads_ok F" "relay_ok c" "AbkEvtIoRead F request len c = (out, c')"
  shows "relay_step_ok [] c (delivered out) c'"
proof (cases "len < ABK_REPORT_SIZE")
  case True
  with assms show ?thesis
    by (auto simp: AbkEvtIoRead_def relay_step_ok_def delivered_def STATUS_BUFFER_TOO_SMALL_def
        STATUS_SUCCESS_def intro!: exI [of _ 0])
next
  case False
  have ok: "ring_ok ABK_RING_SLOTS (cx_Ring c)" using assms(2) by (simp add: relay_ok_def)
  show ?thesis
  proof (cases "0 < ri_count (cx_Ring c)")
    case True
    note drop = ring_drop_frames [OF ok True] ring_drop_ok [OF ok True]
    from True False assms have "c' = c\<lparr>cx_Ring := ring_drop ABK_RING_SLOTS (cx_Ring c)\<rparr>"
      "delivered out = [ri_frames (cx_Ring c) ! ri_tail (cx_Ring c)]" "cx_ReadQueue c = []"
      by (auto simp: AbkEvtIoRead_def ring_take_def complete_delivered relay_ok_def)
    with drop show ?thesis by (auto simp: relay_step_ok_def relay_frames_def relay_ok_def intro!: exI [of _ 0])
  next
    case empty: False
    with False assms show ?thesis
      by (auto simp: AbkEvtIoRead_def ring_take_def relay_step_ok_def relay_frames_def relay_ok_def
          wdf_reads_ok_def intro!: exI [of _ 0])
  qed
qed

lemma vhid_step_ok:
  assumes "wdf_reads_ok F" "relay_ok c" "vhid_step F e c = (out, c')"
  shows "relay_step_ok (event_frames e) c (delivered out) c'"
proof (cases e)
  case (HostReport report)
  show ?thesis
  proof (cases "report = None \<or> report = Some []")
    case True
    with HostReport assms show ?thesis
      by (auto simp: AbkEvtVhfWriteReport_def relay_step_ok_def intro!: exI [of _ 0])
  next
    case False
    then obtain buf where buf: "report = Some buf" "buf \<noteq> []" by auto
    let ?c = "c\<lparr>cx_ReportIdLeads := ABK_REPORT_SIZE < length buf, cx_ReportIdSeen := True,
         cx_Stats := (cx_Stats c)\<lparr>sta_HostReports := sta_HostReports (cx_Stats c) + 1,
           sta_LastHostReportLen := word_of_nat (length buf)\<rparr>\<rparr>"
    have "AbkDeliverHostReport F (host_frame buf) ?c = (out, c')"
      using assms(3) HostReport buf by (simp add: AbkEvtVhfWriteReport_def Let_def)
    moreover have "relay_ok ?c" using assms(2) by (simp add: relay_ok_def)
    ultimately have "relay_step_ok [host_frame buf] ?c (delivered out) c'"
      using deliver_step [OF assms(1) _ host_frame_ok] by blast
    then show ?thesis using HostReport buf by (simp add: relay_step_ok_def relay_frames_def)
  qed
next
  case (AgentRead request len)
  with assms read_step show ?thesis by simp
next
  case ReadsCancelled
  with assms show ?thesis
    by (auto simp: relay_step_ok_def relay_ok_def relay_frames_def intro!: exI [of _ 0])
qed

lemma relay_step_trans:
  assumes "relay_step_ok a1 c o1 c1" "relay_step_ok a2 c1 o2 c2"
  shows "relay_step_ok (a1 @ a2) c (o1 @ o2) c2"
proof -
  from assms(1) obtain n where n: "subseq (o1 @ relay_frames c1) (relay_frames c @ a1)"
    "length (relay_frames c @ a1) = length (o1 @ relay_frames c1) + n" "cx_Dropped c1 = cx_Dropped c + word_of_nat n"
    unfolding relay_step_ok_def by blast
  from assms(2) obtain m where m: "subseq (o2 @ relay_frames c2) (relay_frames c1 @ a2)"
    "length (relay_frames c1 @ a2) = length (o2 @ relay_frames c2) + m"
    "cx_Dropped c2 = cx_Dropped c1 + word_of_nat m" "relay_ok c2"
    unfolding relay_step_ok_def by blast
  have "subseq ((o1 @ relay_frames c1) @ a2) ((relay_frames c @ a1) @ a2)"
    using n(1) by (rule list_emb_append_mono) simp
  moreover have "subseq (o1 @ (o2 @ relay_frames c2)) (o1 @ (relay_frames c1 @ a2))"
    by (rule list_emb_append_mono [OF _ m(1)]) simp
  ultimately have "subseq ((o1 @ o2) @ relay_frames c2) (relay_frames c @ a1 @ a2)"
    using subseq_order.trans [of "o1 @ (o2 @ relay_frames c2)" "o1 @ (relay_frames c1 @ a2)"] by simp
  moreover have "length (relay_frames c @ a1 @ a2) = length ((o1 @ o2) @ relay_frames c2) + (n + m)"
    using n(2) m(2) by simp
  moreover have "cx_Dropped c2 = cx_Dropped c + word_of_nat (n + m)" using n(3) m(3) by simp
  ultimately show ?thesis using m(4) unfolding relay_step_ok_def by blast
qed

text \<open>
  C23. The relay neither reorders nor invents: in any run of host reports, agent reads and
  cancellations, the frames handed to the agent followed by the backlog are the earlier backlog
  followed by the host's frames, in order, with as many left out as the counter of dropped
  frames says; and no read waits while a frame does.
\<close>

theorem relay_in_order:
  assumes "wdf_reads_ok F" "relay_ok c" "vhid_run F es c = (out, c')"
  shows "relay_step_ok (concat (map event_frames es)) c (delivered out) c'"
  using assms(2,3)
proof (induction es arbitrary: c out)
  case Nil
  then show ?case by (auto simp: relay_step_ok_def intro!: exI [of _ 0])
next
  case (Cons e es)
  obtain x c1 y where s: "vhid_step F e c = (x, c1)" "vhid_run F es c1 = (y, c')" "out = x @ y"
    using Cons.prems(2) by (auto split: prod.splits)
  note st = vhid_step_ok [OF assms(1) Cons.prems(1) s(1)]
  then have "relay_ok c1" by (simp add: relay_step_ok_def)
  from relay_step_trans [OF st Cons.IH [OF this s(2)]] s(3) show ?case by simp
qed

definition sample_wdf :: wdf_env where
  "sample_wdf = \<lparr>wd_forward = 0, wd_input_buffer = 0, wd_output_buffer = (\<lambda>_. 0), wd_submit = (\<lambda>_. 0)\<rparr>"

theorem relay_in_order_witness:
  "relay_step_ok (replicate 66 (host_frame [7])) zero_context
     (delivered (fst (vhid_run sample_wdf (replicate 66 (HostReport (Some [7]))) zero_context)))
     (snd (vhid_run sample_wdf (replicate 66 (HostReport (Some [7]))) zero_context))"
proof -
  have "wdf_reads_ok sample_wdf" by (simp add: wdf_reads_ok_def sample_wdf_def NT_SUCCESS_def)
  moreover have "relay_ok zero_context"
    by (simp add: relay_ok_def zero_context_def zero_ring_ok vhid_consts)
  moreover have "concat (map event_frames (replicate 66 (HostReport (Some [7])))) = replicate 66 (host_frame [7])"
    by (simp add: eval_nat_numeral)
  ultimately show ?thesis
    using relay_in_order [of sample_wdf zero_context "replicate 66 (HostReport (Some [7]))"] by (metis prod.collapse)
qed

text \<open>
  A host that polls with a buffer of fewer than 64 bytes: the handler stores 64 all the same.
\<close>

lemma polled_reply_overrun:
  assumes "ring_ok ABK_REPLY_SLOTS (cx_Replies c)" "0 < ri_count (cx_Replies c)" "0 < capacity" "capacity < ABK_REPORT_SIZE"
  shows "capacity < length (snd (fst (AbkEvtVhfGetInputReport (Some capacity) c)))"
proof -
  have "length (ri_frames (cx_Replies c) ! ri_tail (cx_Replies c)) = ABK_REPORT_SIZE"
    using assms(1) by (simp add: ring_ok_def list_all_length)
  with assms show ?thesis by (simp add: AbkEvtVhfGetInputReport_def ring_take_def shaped_def Let_def)
qed

subsection \<open>What a polling host gets\<close>

fun write_all :: "wdf_env \<Rightarrow> u8 list list \<Rightarrow> abk_device_context \<Rightarrow> abk_device_context" where
  "write_all F [] c = c"
| "write_all F (buf # bufs) c = write_all F bufs (snd (AbkEvtIoWrite F 0 (length buf) buf c))"

fun poll_all :: "nat \<Rightarrow> abk_device_context \<Rightarrow> (ntstatus \<times> u8 list) list" where
  "poll_all 0 c = []"
| "poll_all (Suc n) c =
     (case AbkEvtVhfGetInputReport (Some ABK_REPORT_SIZE) c of (x, c) \<Rightarrow> x # poll_all n c)"

lemma written_frame_ok: "ABK_REPORT_SIZE \<le> length buf \<Longrightarrow> frame_ok (written_frame buf)"
  by (auto simp: frame_ok_def written_frame_def min_def)

lemma write_replies:
  assumes "cx_VhfStarted c" "\<forall>p. wd_submit F p = STATUS_SUCCESS" "NT_SUCCESS (wd_input_buffer F)"
    "ABK_REPORT_SIZE \<le> length buf"
  shows "cx_Replies (snd (AbkEvtIoWrite F 0 (length buf) buf c)) =
      snd (ring_insert ABK_REPLY_SLOTS (written_frame buf) (cx_Replies c))"
    and "cx_VhfStarted (snd (AbkEvtIoWrite F 0 (length buf) buf c))"
  using assms
  by (simp_all add: AbkEvtIoWrite_def submit_frame_def Let_def STATUS_SUCCESS_def NT_SUCCESS_def
      STATUS_INVALID_BUFFER_SIZE_def STATUS_INVALID_PARAMETER_def split: prod.split)

lemma write_all_replies:
  assumes "cx_VhfStarted c" "\<forall>p. wd_submit F p = STATUS_SUCCESS" "NT_SUCCESS (wd_input_buffer F)"
    "\<forall>buf\<in>set bufs. ABK_REPORT_SIZE \<le> length buf"
  shows "cx_Replies (write_all F bufs c) =
    push_each (ring_insert ABK_REPLY_SLOTS) (map written_frame bufs) (cx_Replies c)"
  using assms(1,4)
  by (induction bufs arbitrary: c) (simp_all add: write_replies [OF _ assms(2,3)])

lemma poll_all_replies:
  "n \<le> ri_count (cx_Replies c) \<Longrightarrow>
     poll_all n c = map (Pair STATUS_SUCCESS) (fst (pop_each (ring_take ABK_REPLY_SLOTS) n (cx_Replies c)))"
proof (induction n arbitrary: c)
  case 0
  then show ?case by simp
next
  case (Suc n)
  then have "0 < ri_count (cx_Replies c)" by simp
  then obtain f r where t: "ring_take ABK_REPLY_SLOTS (cx_Replies c) = (Some f, r)" "ri_count r = ri_count (cx_Replies c) - 1"
    by (simp add: ring_take_def ring_drop_def)
  obtain c' where "AbkEvtVhfGetInputReport (Some ABK_REPORT_SIZE) c = ((STATUS_SUCCESS, f), c')" "cx_Replies c' = r"
    using t by (simp add: AbkEvtVhfGetInputReport_def shaped_def Let_def ABK_REPORT_SIZE_def)
  with Suc t show ?case by (simp add: split_beta)
qed

text \<open>
  A host that polls for input reports is served the newest replies: after any number of
  accepted writes of the agent, polling \<open>n\<close> times returns, oldest first, the frames of the last
  eight replies, each exactly once.
\<close>

theorem polls_serve_newest_replies:
  assumes "cx_VhfStarted c" "cx_Replies c = zero_ring ABK_REPLY_SLOTS"
    "\<forall>p. wd_submit F p = STATUS_SUCCESS" "NT_SUCCESS (wd_input_buffer F)"
    "\<forall>buf\<in>set bufs. ABK_REPORT_SIZE \<le> length buf" "n = min (length bufs) ABK_REPLY_SLOTS"
  shows "poll_all n (write_all F bufs c) =
    map (\<lambda>buf. (STATUS_SUCCESS, written_frame buf)) (drop (length bufs - ABK_REPLY_SLOTS) bufs)"
proof -
  have ok: "list_all frame_ok (map written_frame bufs)"
    using assms(5) written_frame_ok by (simp add: list_all_iff)
  have start: "ring_ok ABK_REPLY_SLOTS (cx_Replies c)" "ring_frames ABK_REPLY_SLOTS (cx_Replies c) = []"
    using assms(2) by (simp_all add: zero_ring_ok vhid_consts) (simp add: zero_ring_def)
  let ?r = "cx_Replies (write_all F bufs c)"
  have r: "?r = push_each (ring_insert ABK_REPLY_SLOTS) (map written_frame bufs) (cx_Replies c)"
    using write_all_replies [OF assms(1,3,4,5)] .
  have c: "ring_frames ABK_REPLY_SLOTS ?r = drop (length bufs - ABK_REPLY_SLOTS) (map written_frame bufs)"
    and good: "ring_ok ABK_REPLY_SLOTS ?r"
    using replies.push_each_contents [OF start(1) ok] start(2) r by simp_all
  have "ri_count ?r = length bufs - (length bufs - ABK_REPLY_SLOTS)"
    unfolding length_ring_frames [symmetric, of ?r ABK_REPLY_SLOTS] c by simp
  then have n: "n = ri_count ?r" using assms(6) by linarith
  then have "poll_all n (write_all F bufs c) = map (Pair STATUS_SUCCESS) (ring_frames ABK_REPLY_SLOTS ?r)"
    using poll_all_replies [of n "write_all F bufs c"] replies.pop_each_contents [OF good, of n] by simp
  with c show ?thesis by (simp add: drop_map)
qed

theorem polls_serve_newest_replies_witness:
  "poll_all 8 (write_all sample_wdf (map (\<lambda>i. replicate 64 (word_of_nat i)) [1..<11]) (zero_context\<lparr>cx_VhfStarted := True\<rparr>))
   = map (\<lambda>i. (0, replicate 64 (word_of_nat i))) [3..<11]"
proof -
  have *: "poll_all 8 (write_all sample_wdf (map (\<lambda>i. replicate 64 (word_of_nat i)) [1..<11]) (zero_context\<lparr>cx_VhfStarted := True\<rparr>))
    = map (\<lambda>buf. (STATUS_SUCCESS, written_frame buf))
       (drop (length (map (\<lambda>i. replicate 64 (word_of_nat i) :: u8 list) [1..<11]) - ABK_REPLY_SLOTS)
         (map (\<lambda>i. replicate 64 (word_of_nat i)) [1..<11]))"
    by (rule polls_serve_newest_replies)
      (simp_all add: zero_context_def zero_ring_ok sample_wdf_def NT_SUCCESS_def STATUS_SUCCESS_def vhid_consts)
  show ?thesis
    unfolding * by (simp add: vhid_consts drop_map written_frame_def STATUS_SUCCESS_def numeral_3_eq_3 del: upt_Suc)
qed

end
