(* ===== verification/Vhid_Device.thy ===== *)
theory Vhid_Device
  imports Vhid_Driver Report_Descriptor
begin

section \<open>Creating the virtual device\<close>

text \<open>
  \<open>AbkEvtDeviceAdd\<close> and the functions it calls.  They talk to the framework only: what they do is the
  list of calls they make (\<open>wdf_call\<close>), in order, and what the framework answers to each is a
  parameter.  A call that returns no status is answered with success.
\<close>

definition ABK_VENDOR_ID :: u16 where "ABK_VENDOR_ID = 0xABCD"
definition ABK_PRODUCT_ID :: u16 where "ABK_PRODUCT_ID = 0x1D02"
definition ABK_VERSION :: u16 where "ABK_VERSION = 0x0100"

definition g_AbkReportDescriptor :: "u8 list" where
  "g_AbkReportDescriptor =
     [0x06, 0xD0, 0xF1, 0x09, 0x01, 0xA1, 0x01, 0x09, 0x20, 0x15, 0x00, 0x26, 0xFF, 0x00, 0x75, 0x08,
      0x95, 0x40, 0x81, 0x02, 0x09, 0x21, 0x15, 0x00, 0x26, 0xFF, 0x00, 0x75, 0x08, 0x95, 0x40, 0x91,
      0x02, 0xC0]"

text \<open>A backslash is \<open>CHR 0x5C\<close>.\<close>

definition path_of :: "string list \<Rightarrow> string" where
  "path_of parts = concat (map (\<lambda>s. CHR 0x5C # s) parts)"

definition g_AbkDeviceName :: string where "g_AbkDeviceName = path_of [''Device'', ''ABKFidoVhid'']"
definition g_AbkSymbolicLink :: string where "g_AbkSymbolicLink = path_of [''DosDevices'', ''ABKFidoVhid'']"
definition g_AbkSddl :: string where "g_AbkSddl = ''D:P(A;;GA;;;SY)(A;;GA;;;BA)''"

text \<open>The callbacks of the driver, by name.\<close>

datatype callback =
    Cb_AbkEvtDeviceAdd
  | Cb_AbkEvtDeviceSelfManagedIoInit
  | Cb_AbkEvtDeviceSelfManagedIoCleanup
  | Cb_AbkEvtDeviceCleanup
  | Cb_AbkEvtIoRead
  | Cb_AbkEvtIoWrite
  | Cb_AbkEvtIoDeviceControl
  | Cb_AbkEvtVhfWriteReport
  | Cb_AbkEvtVhfGetInputReport

datatype dispatch = WdfIoQueueDispatchParallel | WdfIoQueueDispatchManual

record queue_config =
  qc_dispatch :: dispatch
  qc_default :: bool
  qc_read :: "callback option"
  qc_write :: "callback option"
  qc_control :: "callback option"
  qc_power_managed :: bool

record vhf_config =
  vc_descriptor_len :: u16
  vc_descriptor :: "u8 list"
  vc_VendorID :: u16
  vc_ProductID :: u16
  vc_VersionNumber :: u16
  vc_write_report :: "callback option"
  vc_get_input_report :: "callback option"
  vc_ready_for_next :: "callback option"

datatype wdf_call =
    WdfDriverCreate callback
  | WdfDeviceInitAssignName string
  | WdfDeviceInitAssignSDDLString string
  | WdfDeviceInitSetIoTypeBuffered
  | WdfDeviceInitSetExclusive bool
  | WdfDeviceInitSetPnpPowerEventCallbacks callback callback
  | WdfDeviceCreate callback
  | WdfSpinLockCreate
  | WdfIoQueueCreate queue_config
  | VhfCreate vhf_config
  | WdfDeviceCreateSymbolicLink string

type_synonym wdf_answers = "wdf_call \<Rightarrow> ntstatus"

text \<open>Make the calls in turn, up to the first that fails; the status of the last one made.\<close>

fun wdf_calls :: "wdf_answers \<Rightarrow> wdf_call list \<Rightarrow> ntstatus \<times> wdf_call list" where
  "wdf_calls A [] = (STATUS_SUCCESS, [])"
| "wdf_calls A (c # cs) =
     (if NT_SUCCESS (A c) then (case wdf_calls A cs of (s, made) \<Rightarrow> (if cs = [] then A c else s, c # made))
      else (A c, [c]))"

definition DriverEntry :: "wdf_answers \<Rightarrow> ntstatus \<times> wdf_call list" where
  "DriverEntry A = wdf_calls A [WdfDriverCreate Cb_AbkEvtDeviceAdd]"

definition default_queue :: queue_config where
  "default_queue = \<lparr>qc_dispatch = WdfIoQueueDispatchParallel, qc_default = True, qc_read = Some Cb_AbkEvtIoRead,
     qc_write = Some Cb_AbkEvtIoWrite, qc_control = Some Cb_AbkEvtIoDeviceControl, qc_power_managed = False\<rparr>"

definition read_queue :: queue_config where
  "read_queue = \<lparr>qc_dispatch = WdfIoQueueDispatchManual, qc_default = False, qc_read = None, qc_write = None,
     qc_control = None, qc_power_managed = False\<rparr>"

definition AbkQueuesCreate :: "wdf_answers \<Rightarrow> ntstatus \<times> wdf_call list" where
  "AbkQueuesCreate A = wdf_calls A [WdfIoQueueCreate default_queue, WdfIoQueueCreate read_queue]"

definition abk_vhf_config :: vhf_config where
  "abk_vhf_config = \<lparr>vc_descriptor_len = word_of_nat (length g_AbkReportDescriptor),
     vc_descriptor = g_AbkReportDescriptor, vc_VendorID = ABK_VENDOR_ID, vc_ProductID = ABK_PRODUCT_ID,
     vc_VersionNumber = ABK_VERSION, vc_write_report = Some Cb_AbkEvtVhfWriteReport,
     vc_get_input_report = Some Cb_AbkEvtVhfGetInputReport, vc_ready_for_next = None\<rparr>"

text \<open>The framework hands out the context zeroed; only a successful \<open>VhfCreate\<close> stores a handle.\<close>

definition AbkVhfInitialize ::
    "wdf_answers \<Rightarrow> abk_device_context \<Rightarrow> (ntstatus \<times> wdf_call list) \<times> abk_device_context" where
  "AbkVhfInitialize A c =
     (case wdf_calls A [VhfCreate abk_vhf_config] of
        (status, made) \<Rightarrow> ((status, made), if NT_SUCCESS status then c\<lparr>cx_VhfHandle := True\<rparr> else c))"

definition device_init_calls :: "wdf_call list" where
  "device_init_calls =
     [WdfDeviceInitAssignName g_AbkDeviceName, WdfDeviceInitAssignSDDLString g_AbkSddl,
      WdfDeviceInitSetIoTypeBuffered, WdfDeviceInitSetExclusive True,
      WdfDeviceInitSetPnpPowerEventCallbacks Cb_AbkEvtDeviceSelfManagedIoInit Cb_AbkEvtDeviceSelfManagedIoCleanup,
      WdfDeviceCreate Cb_AbkEvtDeviceCleanup]"

text \<open>The context is \<open>None\<close> when the device was never created.\<close>

definition AbkEvtDeviceAdd ::
    "wdf_answers \<Rightarrow> (ntstatus \<times> wdf_call list) \<times> abk_device_context option" where
  "AbkEvtDeviceAdd A =
     (case wdf_calls A device_init_calls of (status, made) \<Rightarrow>
        if \<not> NT_SUCCESS status then ((status, made), None)
        else
     (case wdf_calls A [WdfSpinLockCreate] of (status, made1) \<Rightarrow>
        if \<not> NT_SUCCESS status then ((status, made @ made1), Some zero_context)
        else
     (case AbkQueuesCreate A of (status, made2) \<Rightarrow>
        if \<not> NT_SUCCESS status then ((status, made @ made1 @ made2), Some zero_context)
        else
     (case AbkVhfInitialize A zero_context of ((status, made3), c) \<Rightarrow>
        if \<not> NT_SUCCESS status then ((status, made @ made1 @ made2 @ made3), Some c)
        else
     (case wdf_calls A [WdfDeviceCreateSymbolicLink g_AbkSymbolicLink] of (status, made4) \<Rightarrow>
        ((status, made @ made1 @ made2 @ made3 @ made4), Some c))))))"

subsection \<open>The device is locked down before it can be opened\<close>

lemma wdf_calls_made: "snd (wdf_calls A cs) = takeWhile (NT_SUCCESS \<circ> A) cs @ take 1 (dropWhile (NT_SUCCESS \<circ> A) cs)"
  by (induction cs) (auto split: prod.splits)

lemma wdf_calls_ok: "NT_SUCCESS (fst (wdf_calls A cs)) \<longleftrightarrow> list_all (NT_SUCCESS \<circ> A) cs"
  by (induction cs) (auto simp: NT_SUCCESS_def STATUS_SUCCESS_def split: prod.splits)

lemma wdf_calls_all: "list_all (NT_SUCCESS \<circ> A) cs \<Longrightarrow> snd (wdf_calls A cs) = cs"
  by (simp add: wdf_calls_made takeWhile_eq_all_conv [THEN iffD2] dropWhile_eq_Nil_conv [THEN iffD2] list_all_iff)

definition device_add_calls :: "wdf_call list" where
  "device_add_calls = device_init_calls @ [WdfSpinLockCreate, WdfIoQueueCreate default_queue,
     WdfIoQueueCreate read_queue, VhfCreate abk_vhf_config, WdfDeviceCreateSymbolicLink g_AbkSymbolicLink]"

text \<open>The whole function is one list of calls, made up to the first that fails.\<close>

lemma wdf_calls_append:
  "cs2 \<noteq> [] \<Longrightarrow> wdf_calls A (cs1 @ cs2) =
     (case wdf_calls A cs1 of (s, made) \<Rightarrow>
        if NT_SUCCESS s then (case wdf_calls A cs2 of (s2, made2) \<Rightarrow> (s2, made @ made2)) else (s, made))"
  by (induction cs1) (auto simp: NT_SUCCESS_def STATUS_SUCCESS_def split: prod.splits)

lemma device_add_is_calls: "fst (AbkEvtDeviceAdd A) = wdf_calls A device_add_calls"
  by (auto simp: AbkEvtDeviceAdd_def AbkQueuesCreate_def AbkVhfInitialize_def device_add_calls_def wdf_calls_append
      split: prod.split)

lemma device_add_context:
  "snd (AbkEvtDeviceAdd A) =
     (if WdfSpinLockCreate \<in> set (snd (fst (AbkEvtDeviceAdd A))) then
        Some (zero_context\<lparr>cx_VhfHandle := (VhfCreate abk_vhf_config \<in> set (snd (fst (AbkEvtDeviceAdd A)))
          \<and> NT_SUCCESS (A (VhfCreate abk_vhf_config)))\<rparr>)
      else None)"
  by (simp add: AbkEvtDeviceAdd_def AbkQueuesCreate_def AbkVhfInitialize_def device_init_calls_def zero_context_def
      STATUS_SUCCESS_def NT_SUCCESS_def)

lemma link_is_last:
  assumes "WdfDeviceCreateSymbolicLink l \<in> set (snd (wdf_calls A device_add_calls))"
  shows "snd (wdf_calls A device_add_calls) = device_add_calls"
    "list_all (NT_SUCCESS \<circ> A) (butlast device_add_calls)"
    "fst (wdf_calls A device_add_calls) = A (WdfDeviceCreateSymbolicLink g_AbkSymbolicLink)"
proof -
  let ?l = "WdfDeviceCreateSymbolicLink g_AbkSymbolicLink"
  have c: "device_add_calls = butlast device_add_calls @ [?l]" "WdfDeviceCreateSymbolicLink l \<notin> set (butlast device_add_calls)"
    by (simp_all add: device_add_calls_def device_init_calls_def)
  obtain s made where bl: "wdf_calls A (butlast device_add_calls) = (s, made)" by fastforce
  have all: "wdf_calls A device_add_calls =
      (if NT_SUCCESS s then (case wdf_calls A [?l] of (s2, made2) \<Rightarrow> (s2, made @ made2)) else (s, made))"
    using wdf_calls_append [of "[?l]" A "butlast device_add_calls"] bl c(1) by simp
  have "made = snd (wdf_calls A (butlast device_add_calls))" using bl by simp
  then have sub: "set made \<subseteq> set (butlast device_add_calls)"
    unfolding wdf_calls_made by (auto dest: set_takeWhileD in_set_takeD set_dropWhileD)
  have s: "NT_SUCCESS s" using assms all sub c(2) by (auto split: if_splits)
  then show ok: "list_all (NT_SUCCESS \<circ> A) (butlast device_add_calls)" using wdf_calls_ok [of A] bl by (metis fst_conv)
  then have "made = butlast device_add_calls" using wdf_calls_all [OF ok] bl by simp
  with all s c(1) show "snd (wdf_calls A device_add_calls) = device_add_calls"
    "fst (wdf_calls A device_add_calls) = A ?l" by simp_all
qed

text \<open>
  C28. The path the agent opens exists only for a locked-down device: the symbolic link is the last
  call, made only after the security descriptor for SYSTEM and administrators and exclusive
  access were set, the device, its queues and the virtual HID device were created, all of
  them with success; and its own result is the result of adding the device.
\<close>

theorem link_only_when_locked_down:
  assumes "AbkEvtDeviceAdd A = ((status, calls), c)" "WdfDeviceCreateSymbolicLink l \<in> set calls"
  shows "\<exists>before. calls = before @ [WdfDeviceCreateSymbolicLink g_AbkSymbolicLink]
    \<and> list_all (NT_SUCCESS \<circ> A) before
    \<and> {WdfDeviceInitAssignSDDLString g_AbkSddl, WdfDeviceInitSetExclusive True, WdfDeviceCreate Cb_AbkEvtDeviceCleanup,
        WdfIoQueueCreate default_queue, WdfIoQueueCreate read_queue, VhfCreate abk_vhf_config} \<subseteq> set before
    \<and> status = A (WdfDeviceCreateSymbolicLink g_AbkSymbolicLink)"
proof -
  have w: "wdf_calls A device_add_calls = (status, calls)" using assms(1) by (simp flip: device_add_is_calls)
  from link_is_last [of l A] assms(2) w show ?thesis
    by (intro exI [of _ "butlast device_add_calls"]) (simp add: device_add_calls_def device_init_calls_def)
qed

theorem link_only_when_locked_down_witness:
  "\<exists>before. snd (fst (AbkEvtDeviceAdd (\<lambda>_. 0))) = before @ [WdfDeviceCreateSymbolicLink g_AbkSymbolicLink]
    \<and> WdfDeviceInitAssignSDDLString g_AbkSddl \<in> set before"
proof -
  obtain status calls c where a: "AbkEvtDeviceAdd (\<lambda>_. 0) = ((status, calls), c)" by (metis prod.collapse)
  moreover have "wdf_calls (\<lambda>_. 0) device_add_calls = (status, calls)" using a by (simp flip: device_add_is_calls)
  then have "WdfDeviceCreateSymbolicLink g_AbkSymbolicLink \<in> set calls"
    by (auto simp: device_add_calls_def device_init_calls_def NT_SUCCESS_def)
  ultimately show ?thesis using link_only_when_locked_down [of "\<lambda>_. 0" status calls c] by auto
qed

subsection \<open>The VHF handle is released once\<close>

text \<open>
  What the framework may do with an added device: start its I/O or not, clean that up if it was
  attempted, and destroy the object.  The number of \<open>VhfDelete\<close> calls is counted.
\<close>

definition vhf_deleted :: "abk_device_context \<Rightarrow> abk_device_context \<Rightarrow> nat" where
  "vhf_deleted c c' = (if cx_VhfHandle c \<and> \<not> cx_VhfHandle c' then 1 else 0)"

definition device_life :: "ntstatus option \<Rightarrow> abk_device_context \<Rightarrow> nat \<times> abk_device_context" where
  "device_life start c =
     (let c1 = (case start of None \<Rightarrow> c | Some s \<Rightarrow> snd (AbkEvtDeviceSelfManagedIoInit s c));
          c2 = (case start of None \<Rightarrow> c1 | Some s \<Rightarrow> AbkEvtDeviceSelfManagedIoCleanup c1);
          c3 = AbkEvtDeviceCleanup c2
      in (vhf_deleted c1 c2 + vhf_deleted c2 c3, c3))"

lemma handle_released_once:
  "fst (device_life start c) = (if cx_VhfHandle c then 1 else 0) \<and> \<not> cx_VhfHandle (snd (device_life start c))
    \<and> (start \<noteq> None \<longrightarrow> \<not> cx_VhfStarted (snd (device_life start c)))"
  by (cases start) (auto simp: device_life_def vhf_deleted_def AbkEvtDeviceSelfManagedIoInit_def
      AbkEvtDeviceSelfManagedIoCleanup_def AbkEvtDeviceCleanup_def Let_def)

lemma windows_desc_is_ctap_hid: "ctap_hid_layout g_AbkReportDescriptor"
  by (simp add: ctap_hid_layout_def report_layout_of_def g_AbkReportDescriptor_def
      le_val_def be_val_def hid_item_def no_reports_def Let_def)

end
