(* ===== verification/Vhid_Tool.thy ===== *)
theory Vhid_Tool
  imports Vhid_Device
begin

section \<open>The device tool (\<open>abkvhidctl.cpp\<close>)\<close>

text \<open>
  The command line tool that creates, removes and inspects the device node of the virtual HID
  driver.  Windows' SetupAPI is what it calls; its answers are parameters: the device nodes of
  the machine as SetupAPI lists them (\<open>devnode\<close>) and the results of the installation calls
  (\<open>install_env\<close>).  A wide string is the list of its 16-bit characters.  What the tool prints
  is a list of \<open>tool_msg\<close>, one per printed message, standard output and error together.
\<close>

type_synonym wstr = "u16 list"

definition wide :: "string \<Rightarrow> wstr" where
  "wide s = map of_char s"

definition kHardwareId :: wstr where "kHardwareId = wide (''root'' @ CHR 0x5C # ''ABKFIDOVHID'')"
definition kVendorId :: u16 where "kVendorId = 0xABCD"
definition kProductId :: u16 where "kProductId = 0x1D02"
definition kReportSize :: nat where "kReportSize = 64"
definition kFidoUsagePage :: u16 where "kFidoUsagePage = 0xF1D0"
definition kFidoUsage :: u16 where "kFidoUsage = 0x01"
definition kReportModePlain :: u32 where "kReportModePlain = 1"
definition kReportModeLeadingId :: u32 where "kReportModeLeadingId = 2"

lemmas tool_consts = kVendorId_def kProductId_def kReportSize_def kFidoUsagePage_def kFidoUsage_def
  kReportModePlain_def kReportModeLeadingId_def

datatype tool_msg =
    Msg_failed string
  | Msg_bad_inf_path
  | Msg_inf_not_found
  | Msg_id_too_long
  | Msg_created
  | Msg_already_present
  | Msg_signature_hint
  | Msg_installed wstr
  | Msg_reboot
  | Msg_not_removed wstr
  | Msg_removed wstr
  | Msg_no_devnode
  | Msg_run_install
  | Msg_status_unavailable wstr
  | Msg_problem wstr u32
  | Msg_unsigned_driver
  | Msg_started wstr
  | Msg_not_started wstr
  | Msg_open_elsewhere
  | Msg_ready
  | Msg_usage
  | Msg_not_elevated string
  | Msg_no_hid_device
  | Msg_hid_device wstr
  | Msg_not_ctap_hid
  | Msg_expected_lengths
  | Msg_unusable_lengths
  | Msg_timeout string
  | Msg_short_write string
  | Msg_lost_to_device
  | Msg_altered_to_device "u8 list" "u8 list"
  | Msg_ok_to_device
  | Msg_lost_to_host
  | Msg_report_id u8
  | Msg_wrong_length nat "u8 list"
  | Msg_altered_to_host "u8 list" "u8 list"
  | Msg_ok_to_host nat
  | Msg_host_leg_broken
  | Msg_submitting u32
  | Msg_both_work
  | Msg_neither_shape

subsection \<open>Finding the device node\<close>

text \<open>\<open>_wcsicmp\<close> in the C locale: the letters A to Z compare as a to z.\<close>

definition wlower :: "u16 \<Rightarrow> u16" where
  "wlower c = (if 65 \<le> c \<and> c \<le> 90 then c + 32 else c)"

definition wcsicmp_eq :: "wstr \<Rightarrow> wstr \<Rightarrow> bool" where
  "wcsicmp_eq a b \<longleftrightarrow> map wlower a = map wlower b"

text \<open>The strings of a REG_MULTI_SZ buffer: null-terminated one after another, up to an empty one.\<close>

function multi_sz :: "wstr \<Rightarrow> wstr list" where
  "multi_sz buf =
     (if buf = [] \<or> hd buf = 0 then []
      else takeWhile (\<lambda>c. c \<noteq> 0) buf # multi_sz (drop (length (takeWhile (\<lambda>c. c \<noteq> 0) buf) + 1) buf))"
  by pat_completeness auto
termination by (relation "measure length") (auto simp: neq_Nil_conv)

declare multi_sz.simps [simp del]

definition REG_SZ :: nat where "REG_SZ = 1"
definition REG_MULTI_SZ :: nat where "REG_MULTI_SZ = 7"

text \<open>
  A device node: its hardware id property (type and characters; \<open>None\<close> when it has none or does
  not fit), its instance id, whether removal can be requested and succeeds, status and problem.
\<close>

record devnode =
  dn_hardware_id :: "(nat \<times> wstr) option"
  dn_instance_id :: "wstr option"
  dn_set_params_ok :: bool
  dn_remove_ok :: bool
  dn_status :: "(u32 \<times> u32) option"

text \<open>The property is read into a zeroed buffer of 2048 characters.\<close>

definition MatchesHardwareId :: "devnode \<Rightarrow> bool" where
  "MatchesHardwareId dn =
     (case dn_hardware_id dn of
        None \<Rightarrow> False
      | Some (type, chars) \<Rightarrow>
          if type \<noteq> REG_MULTI_SZ \<and> type \<noteq> REG_SZ then False
          else list_ex (\<lambda>hwid. wcsicmp_eq hwid kHardwareId) (multi_sz (overwrite 0 chars (replicate 2048 0))))"

text \<open>What the tool has printed, the nodes it had removed, how many removals failed, and what it registered.\<close>

record tool_state =
  ts_out :: "tool_msg list"
  ts_removed :: "devnode list"
  ts_failures :: nat
  ts_created :: "wstr option"

definition no_tool_state :: tool_state where
  "no_tool_state = \<lparr>ts_out = [], ts_removed = [], ts_failures = 0, ts_created = None\<rparr>"

definition say :: "tool_msg list \<Rightarrow> tool_state \<Rightarrow> tool_state" where
  "say ms t = t\<lparr>ts_out := ts_out t @ ms\<rparr>"

type_synonym visitor = "devnode \<Rightarrow> tool_state \<Rightarrow> bool \<times> tool_state"

fun for_each :: "visitor option \<Rightarrow> devnode list \<Rightarrow> nat \<Rightarrow> tool_state \<Rightarrow> nat \<times> tool_state" where
  "for_each visit [] matched t = (matched, t)"
| "for_each visit (dn # dns) matched t =
     (if \<not> MatchesHardwareId dn then for_each visit dns matched t
      else
        (case visit of
           None \<Rightarrow> for_each visit dns (matched + 1) t
         | Some v \<Rightarrow> (case v dn t of (go_on, t) \<Rightarrow>
             if \<not> go_on then (matched + 1, t) else for_each visit dns (matched + 1) t)))"

text \<open>\<open>None\<close> as the number stands for -1, \<open>None\<close> as the list for a failed SetupDiGetClassDevs.\<close>

definition ForEachDevice :: "visitor option \<Rightarrow> devnode list option \<Rightarrow> tool_state \<Rightarrow> nat option \<times> tool_state" where
  "ForEachDevice visit devices t =
     (case devices of
        None \<Rightarrow> (None, say [Msg_failed ''SetupDiGetClassDevs''] t)
      | Some dns \<Rightarrow> (case for_each visit dns 0 t of (matched, t) \<Rightarrow> (Some matched, t)))"

subsection \<open>install\<close>

definition MAX_PATH :: nat where "MAX_PATH = 260"
definition LINE_LEN :: nat where "LINE_LEN = 256"

record install_env =
  ie_full_path :: "wstr \<Rightarrow> nat \<times> wstr"
  ie_exists :: "wstr \<Rightarrow> bool"
  ie_devices :: "devnode list option"
  ie_inf_class :: bool
  ie_create_list :: bool
  ie_create_info :: bool
  ie_set_property :: "wstr \<Rightarrow> bool"
  ie_register :: bool
  ie_update :: "bool option"

text \<open>The property bytes: the id and two terminators out of a zeroed array.\<close>

definition hardware_ids :: wstr where
  "hardware_ids = take (length kHardwareId + 2) (overwrite 0 kHardwareId (replicate (LINE_LEN + 2) 0))"

definition create_devnode :: "install_env \<Rightarrow> tool_state \<Rightarrow> bool \<times> tool_state" where
  "create_devnode I t =
     (if \<not> ie_inf_class I then (False, say [Msg_failed ''SetupDiGetINFClass''] t)
      else if \<not> ie_create_list I then (False, say [Msg_failed ''SetupDiCreateDeviceInfoList''] t)
      else if \<not> ie_create_info I then (False, say [Msg_failed ''SetupDiCreateDeviceInfo''] t)
      else if LINE_LEN \<le> length kHardwareId then (False, say [Msg_id_too_long] t)
      else if \<not> ie_set_property I hardware_ids then (False, say [Msg_failed ''SetupDiSetDeviceRegistryProperty''] t)
      else if \<not> ie_register I then (False, say [Msg_failed ''DIF_REGISTERDEVICE''] t)
      else (True, say [Msg_created] (t\<lparr>ts_created := Some hardware_ids\<rparr>)))"

definition CommandInstall :: "install_env \<Rightarrow> wstr \<Rightarrow> tool_state \<Rightarrow> nat \<times> tool_state" where
  "CommandInstall I InfArgument t =
     (case ie_full_path I InfArgument of (len, infPath) \<Rightarrow>
        if len = 0 \<or> MAX_PATH \<le> len then (1, say [Msg_bad_inf_path] t)
        else if \<not> ie_exists I infPath then (1, say [Msg_inf_not_found] t)
        else
          (case ForEachDevice None (ie_devices I) t of
             (None, t) \<Rightarrow> (1, t)
           | (Some existing, t) \<Rightarrow>
               (case (if existing = 0 then create_devnode I t else (True, say [Msg_already_present] t)) of
                  (False, t) \<Rightarrow> (1, t)
                | (True, t) \<Rightarrow>
                    (case ie_update I of
                       None \<Rightarrow> (1, say [Msg_failed ''UpdateDriverForPlugAndPlayDevices'', Msg_signature_hint] t)
                     | Some reboot \<Rightarrow> (0, say (Msg_installed infPath # (if reboot then [Msg_reboot] else [])) t)))))"

subsection \<open>remove and status\<close>

definition instance_name :: "devnode \<Rightarrow> wstr" where
  "instance_name dn = (case dn_instance_id dn of None \<Rightarrow> wide ''<unknown>'' | Some name \<Rightarrow> name)"

definition RemoveVisitor :: visitor where
  "RemoveVisitor dn t =
     (if \<not> (dn_set_params_ok dn \<and> dn_remove_ok dn) then
        (True, say [Msg_failed ''DIF_REMOVE'', Msg_not_removed (instance_name dn)] (t\<lparr>ts_failures := ts_failures t + 1\<rparr>))
      else (True, say [Msg_removed (instance_name dn)] (t\<lparr>ts_removed := ts_removed t @ [dn]\<rparr>)))"

definition CommandRemove :: "devnode list option \<Rightarrow> tool_state \<Rightarrow> nat \<times> tool_state" where
  "CommandRemove devices t =
     (case ForEachDevice (Some RemoveVisitor) devices t of
        (None, t) \<Rightarrow> (1, t)
      | (Some matched, t) \<Rightarrow>
          if matched = 0 then (0, say [Msg_no_devnode] t)
          else (if ts_failures t = 0 then 0 else 1, t))"

definition DN_STARTED :: u32 where "DN_STARTED = 8"
definition CM_PROB_UNSIGNED_DRIVER :: u32 where "CM_PROB_UNSIGNED_DRIVER = 0x34"

definition StatusVisitor :: visitor where
  "StatusVisitor dn t =
     (case dn_status dn of
        None \<Rightarrow> (True, say [Msg_status_unavailable (instance_name dn)] t)
      | Some (status, problem) \<Rightarrow>
          (True, say
             (if problem \<noteq> 0 then
                Msg_problem (instance_name dn) problem
                  # (if problem = CM_PROB_UNSIGNED_DRIVER then [Msg_unsigned_driver] else [])
              else if bit status 3 then [Msg_started (instance_name dn)]
              else [Msg_not_started (instance_name dn)]) t))"

text \<open>Opening the control device: \<open>None\<close> when it opens, else the error code.\<close>

definition ERROR_SHARING_VIOLATION :: nat where "ERROR_SHARING_VIOLATION = 32"

definition CommandStatus :: "devnode list option \<Rightarrow> nat option \<Rightarrow> tool_state \<Rightarrow> nat \<times> tool_state" where
  "CommandStatus devices control t =
     (case ForEachDevice (Some StatusVisitor) devices t of
        (None, t) \<Rightarrow> (1, t)
      | (Some matched, t) \<Rightarrow>
          if matched = 0 then (1, say [Msg_no_devnode, Msg_run_install] t)
          else
            (case control of
               None \<Rightarrow> (0, say [Msg_ready] t)
             | Some err \<Rightarrow>
                 if err = ERROR_SHARING_VIOLATION then (0, say [Msg_open_elsewhere] t)
                 else (1, say [Msg_failed ''opening the control device''] t)))"

subsection \<open>What install leaves behind, remove finds\<close>

lemma say_simps [simp]:
  "ts_removed (say ms t) = ts_removed t" "ts_failures (say ms t) = ts_failures t" "ts_created (say ms t) = ts_created t"
  "ts_out (say ms t) = ts_out t @ ms"
  by (simp_all add: say_def)

lemma multi_sz_one:
  assumes "hwid \<noteq> []" "0 \<notin> set hwid"
  shows "multi_sz (hwid @ 0 # 0 # rest) = [hwid]"
proof -
  have tw: "takeWhile (\<lambda>c. c \<noteq> 0) (hwid @ 0 # 0 # rest) = hwid"
    using assms(2) by (induction hwid) auto
  have "hd (hwid @ 0 # 0 # rest) \<noteq> 0" using assms by (cases hwid) auto
  then show ?thesis
    using assms(1) by (subst multi_sz.simps) (simp add: tw multi_sz.simps [of "0 # rest"])
qed

lemma kHardwareId_facts: "kHardwareId \<noteq> []" "0 \<notin> set kHardwareId" "length kHardwareId = 16"
  by (simp_all add: kHardwareId_def wide_def of_char_def)

lemma overwrite_zeros: "length bs + n \<le> m \<Longrightarrow> overwrite 0 bs (replicate m 0) = bs @ replicate n 0 @ replicate (m - length bs - n) 0"
  by (simp add: overwrite_def flip: replicate_add)

lemma hardware_ids_eq: "hardware_ids = kHardwareId @ [0, 0]"
  using overwrite_zeros [of kHardwareId 2 "LINE_LEN + 2"] kHardwareId_facts(3)
  by (simp add: hardware_ids_def LINE_LEN_def numeral_2_eq_2)

lemma created_node_matches: "dn_hardware_id dn = Some (REG_MULTI_SZ, hardware_ids) \<Longrightarrow> MatchesHardwareId dn"
proof -
  assume dn: "dn_hardware_id dn = Some (REG_MULTI_SZ, hardware_ids)"
  have "overwrite 0 hardware_ids (replicate 2048 0) = kHardwareId @ 0 # 0 # replicate 2030 0"
    using overwrite_zeros [of hardware_ids 0 2048] kHardwareId_facts(3) by (simp add: hardware_ids_eq)
  then show "MatchesHardwareId dn"
    using dn multi_sz_one [OF kHardwareId_facts(1,2)]
    by (simp add: MatchesHardwareId_def wcsicmp_eq_def)
qed

lemma for_each_count: "for_each None dns n t = (n + length (filter MatchesHardwareId dns), t)"
  by (induction dns arbitrary: n) auto

text \<open>
  C31. \<open>install\<close> registers a device node only when none is present, and the one it registers is
  found again: the hardware ids it writes make any node that carries them match, so a second
  \<open>install\<close> adds none and \<open>remove\<close> and \<open>status\<close> see it.
\<close>

theorem install_creates_findable_node:
  assumes "CommandInstall I path t = (code, t')" "ts_created t = None" "ts_created t' = Some ids"
  shows "\<exists>dns. ie_devices I = Some dns \<and> (\<forall>dn\<in>set dns. \<not> MatchesHardwareId dn)
    \<and> (\<forall>dn. dn_hardware_id dn = Some (REG_MULTI_SZ, ids) \<longrightarrow> MatchesHardwareId dn)"
proof -
  have "\<exists>dns. ie_devices I = Some dns \<and> filter MatchesHardwareId dns = [] \<and> ids = hardware_ids"
    using assms
    by (auto simp: CommandInstall_def ForEachDevice_def for_each_count create_devnode_def
        split: prod.splits option.splits if_splits)
  with created_node_matches show ?thesis by (auto simp: filter_empty_conv)
qed

definition sample_install :: install_env where
  "sample_install = \<lparr>ie_full_path = (\<lambda>p. (length p, p)), ie_exists = (\<lambda>_. True), ie_devices = Some [],
     ie_inf_class = True, ie_create_list = True, ie_create_info = True, ie_set_property = (\<lambda>_. True),
     ie_register = True, ie_update = Some False\<rparr>"

theorem install_creates_findable_node_witness:
  "\<exists>ids. ts_created (snd (CommandInstall sample_install (wide ''abkfidovhid.inf'') no_tool_state)) = Some ids
    \<and> (\<forall>dn. dn_hardware_id dn = Some (REG_MULTI_SZ, ids) \<longrightarrow> MatchesHardwareId dn)"
proof -
  obtain code t where i: "CommandInstall sample_install (wide ''abkfidovhid.inf'') no_tool_state = (code, t)" by fastforce
  then have "ts_created t = Some hardware_ids"
    by (auto simp: CommandInstall_def sample_install_def ForEachDevice_def create_devnode_def wide_def MAX_PATH_def
        LINE_LEN_def kHardwareId_facts(3) split: prod.splits if_splits)
  with install_creates_findable_node [OF i _ this] i show ?thesis by (auto simp: no_tool_state_def)
qed

text \<open>\<open>remove\<close> asks for the removal of every matching node, in order, and exits with 0 when all were removed.\<close>

lemma for_each_remove:
  "for_each (Some RemoveVisitor) dns n t = (m, t') \<Longrightarrow>
     m = n + length (filter MatchesHardwareId dns)
     \<and> ts_removed t' = ts_removed t @ filter (\<lambda>dn. dn_set_params_ok dn \<and> dn_remove_ok dn) (filter MatchesHardwareId dns)
     \<and> ts_failures t' = ts_failures t + length (filter (\<lambda>dn. \<not> (dn_set_params_ok dn \<and> dn_remove_ok dn)) (filter MatchesHardwareId dns))"
proof (induction dns arbitrary: n t)
  case (Cons dn dns)
  show ?case
  proof (cases "MatchesHardwareId dn")
    case True
    obtain t1 where v: "RemoveVisitor dn t = (True, t1)"
      "ts_removed t1 = ts_removed t @ (if dn_set_params_ok dn \<and> dn_remove_ok dn then [dn] else [])"
      "ts_failures t1 = ts_failures t + (if dn_set_params_ok dn \<and> dn_remove_ok dn then 0 else 1)"
      by (cases "dn_set_params_ok dn \<and> dn_remove_ok dn") (auto simp: RemoveVisitor_def)
    with Cons.prems True have "for_each (Some RemoveVisitor) dns (n + 1) t1 = (m, t')" by simp
    from Cons.IH [OF this] v True show ?thesis by auto
  next
    case False
    with Cons show ?thesis by simp
  qed
qed simp

lemma remove_outcome:
  assumes "CommandRemove (Some dns) no_tool_state = (code, t)"
  shows "ts_removed t = filter (\<lambda>dn. MatchesHardwareId dn \<and> dn_set_params_ok dn \<and> dn_remove_ok dn) dns
    \<and> (code = 0 \<longleftrightarrow> ts_removed t = filter MatchesHardwareId dns)"
proof -
  let ?ok = "\<lambda>dn. dn_set_params_ok dn \<and> dn_remove_ok dn"
  let ?ms = "filter MatchesHardwareId dns"
  obtain m t1 where f: "for_each (Some RemoveVisitor) dns 0 no_tool_state = (m, t1)" by fastforce
  from for_each_remove [OF f] have t1: "m = length ?ms" "ts_removed t1 = filter ?ok ?ms"
    "ts_failures t1 = length (filter (\<lambda>dn. \<not> ?ok dn) ?ms)" by (simp_all add: no_tool_state_def)
  have all: "filter ?ok ?ms = ?ms \<longleftrightarrow> filter (\<lambda>dn. \<not> ?ok dn) ?ms = []"
    by (simp only: filter_id_conv filter_empty_conv) simp
  have "ts_removed t = ts_removed t1 \<and> (code = 0 \<longleftrightarrow> ?ms = [] \<or> ts_failures t1 = 0)"
    using assms f t1(1) by (auto simp: CommandRemove_def ForEachDevice_def split: if_splits)
  moreover have "filter ?ok ?ms = filter (\<lambda>dn. MatchesHardwareId dn \<and> ?ok dn) dns" by (simp add: conj_commute)
  moreover have "?ms = [] \<Longrightarrow> filter ?ok ?ms = ?ms" by simp
  ultimately show ?thesis unfolding t1(2,3) length_0_conv all [symmetric] by metis
qed

end
