(* ===== verification/Vhid_Loopback.thy ===== *)
theory Vhid_Loopback
  imports Vhid_Tool
begin

section \<open>The loopback command\<close>

text \<open>
  \<open>abkvhidctl loopback\<close> plays host and key to find out whether a frame gets through the HID stack
  in each direction.  Its overlapped I/O goes through the record \<open>loop_io\<close>, over an unknown state:
  creating an event, posting a read, waiting 2000 ms for it, cancelling, writing, and setting
  the report mode.  Further down the same record is filled with the model of the driver.
\<close>

datatype hnd = Hid | Control

datatype io_request = Read_req hnd | Write_req hnd

datatype wait_result = Wait_timeout | Wait_failed | Wait_done "u8 list option"

datatype write_result = Write_refused | Write_timeout | Write_failed | Written nat

record 's loop_io =
  io_event :: "'s \<Rightarrow> bool \<times> 's"
  io_read :: "hnd \<Rightarrow> nat \<Rightarrow> 's \<Rightarrow> bool \<times> 's"
  io_wait_read :: "hnd \<Rightarrow> 's \<Rightarrow> wait_result \<times> 's"
  io_cancel :: "io_request \<Rightarrow> 's \<Rightarrow> 's"
  io_write :: "hnd \<Rightarrow> u8 list \<Rightarrow> 's \<Rightarrow> write_result \<times> 's"
  io_set_mode :: "u32 \<Rightarrow> 's \<Rightarrow> bool \<times> 's"

subsection \<open>Reads and writes\<close>

definition StartRead :: "'s loop_io \<Rightarrow> hnd \<Rightarrow> nat \<Rightarrow> string \<Rightarrow> 's \<times> tool_msg list \<Rightarrow> bool \<times> 's \<times> tool_msg list" where
  "StartRead L h len what w =
     (case w of (s, out) \<Rightarrow>
        (case io_event L s of
           (False, s) \<Rightarrow> (False, s, out @ [Msg_failed ''CreateEvent''])
         | (True, s) \<Rightarrow>
             (case io_read L h len s of
                (False, s) \<Rightarrow> (False, s, out @ [Msg_failed what])
              | (True, s) \<Rightarrow> (True, s, out))))"

text \<open>The number of bytes read and the buffer of 73 bytes; \<open>None\<close> stands for -1.\<close>

definition FinishRead ::
    "'s loop_io \<Rightarrow> hnd \<Rightarrow> string \<Rightarrow> 's \<times> tool_msg list \<Rightarrow> (nat \<times> u8 list) option \<times> 's \<times> tool_msg list" where
  "FinishRead L h what w =
     (case w of (s, out) \<Rightarrow>
        (case io_wait_read L h s of
           (Wait_timeout, s) \<Rightarrow> (None, io_cancel L (Read_req h) s, out @ [Msg_timeout what])
         | (Wait_failed, s) \<Rightarrow> (None, s, out @ [Msg_failed ''WaitForSingleObject''])
         | (Wait_done None, s) \<Rightarrow> (None, s, out @ [Msg_failed what])
         | (Wait_done (Some bs), s) \<Rightarrow>
             (Some (length bs, overwrite 0 bs (replicate (1 + kReportSize + 8) 0)), s, out)))"

definition CancelRead :: "'s loop_io \<Rightarrow> hnd \<Rightarrow> 's \<times> tool_msg list \<Rightarrow> 's \<times> tool_msg list" where
  "CancelRead L h w = (case w of (s, out) \<Rightarrow> (io_cancel L (Read_req h) s, out))"

definition WriteReport ::
    "'s loop_io \<Rightarrow> hnd \<Rightarrow> u8 list \<Rightarrow> string \<Rightarrow> 's \<times> tool_msg list \<Rightarrow> bool \<times> 's \<times> tool_msg list" where
  "WriteReport L h bytes what w =
     (case w of (s, out) \<Rightarrow>
        (case io_event L s of
           (False, s) \<Rightarrow> (False, s, out @ [Msg_failed ''CreateEvent''])
         | (True, s) \<Rightarrow>
             (case io_write L h bytes s of
                (Write_refused, s) \<Rightarrow> (False, s, out @ [Msg_failed what])
              | (Write_timeout, s) \<Rightarrow> (False, io_cancel L (Write_req h) s, out @ [Msg_timeout what])
              | (Write_failed, s) \<Rightarrow> (False, s, out @ [Msg_failed what])
              | (Written n, s) \<Rightarrow>
                  if n \<noteq> length bytes then (False, s, out @ [Msg_short_write what]) else (True, s, out))))"

definition SetReportMode :: "'s loop_io \<Rightarrow> u32 \<Rightarrow> 's \<times> tool_msg list \<Rightarrow> bool \<times> 's \<times> tool_msg list" where
  "SetReportMode L mode w =
     (case w of (s, out) \<Rightarrow>
        (case io_event L s of
           (False, s) \<Rightarrow> (False, s, out @ [Msg_failed ''CreateEvent''])
         | (True, s) \<Rightarrow>
             (case io_set_mode L mode s of
                (True, s) \<Rightarrow> (True, s, out)
              | (False, s) \<Rightarrow> (False, s, out @ [Msg_failed ''setting the report mode'']))))"

subsection \<open>The frames\<close>

definition BuildInitRequest :: "u8 list" where
  "BuildInitRequest =
     overwrite 0 ([0xFF, 0xFF, 0xFF, 0xFF, 0x86, 0, 0x08] @ map (\<lambda>i. 0xA0 + word_of_nat i) [0..<8])
       (replicate kReportSize 0)"

definition BuildInitReply :: "u8 list \<Rightarrow> u8 list" where
  "BuildInitReply request =
     overwrite 0 (take 4 request @ [0x86, 0, 0x11] @ take 8 (drop 7 request)
       @ [0x12, 0x34, 0x56, 0x78, 0x02, 0x01, 0, 0, 0x0D]) (replicate kReportSize 0)"

subsection \<open>The two legs\<close>

definition LoopbackHostToDevice ::
    "'s loop_io \<Rightarrow> nat \<Rightarrow> u8 list \<Rightarrow> 's \<times> tool_msg list \<Rightarrow> bool \<times> 's \<times> tool_msg list" where
  "LoopbackHostToDevice L OutputLength Request w =
     (case StartRead L Control kReportSize ''read from the control device'' w of
        (False, w) \<Rightarrow> (False, w)
      | (True, w) \<Rightarrow>
          (let report = overwrite 1 (take kReportSize Request) (replicate (1 + kReportSize) 0)
           in case WriteReport L Hid (take OutputLength report) ''writing an output report'' w of
                (False, w) \<Rightarrow> (False, CancelRead L Control w)
              | (True, w) \<Rightarrow>
                  (case FinishRead L Control ''read from the control device'' w of
                     (None, s, out) \<Rightarrow> (False, s, out @ [Msg_lost_to_device])
                   | (Some (got, buffer), s, out) \<Rightarrow>
                       if got \<noteq> kReportSize \<or> take kReportSize buffer \<noteq> Request then
                         (False, s, out @ [Msg_altered_to_device Request (take got buffer)])
                       else (True, s, out @ [Msg_ok_to_device]))))"

definition LoopbackDeviceToHost ::
    "'s loop_io \<Rightarrow> nat \<Rightarrow> u8 list \<Rightarrow> 's \<times> tool_msg list \<Rightarrow> bool \<times> 's \<times> tool_msg list" where
  "LoopbackDeviceToHost L InputLength Reply w =
     (case StartRead L Hid InputLength ''reading an input report'' w of
        (False, w) \<Rightarrow> (False, w)
      | (True, w) \<Rightarrow>
          (case WriteReport L Control (take kReportSize Reply) ''writing the reply to the control device'' w of
             (False, w) \<Rightarrow> (False, CancelRead L Hid w)
           | (True, w) \<Rightarrow>
               (case FinishRead L Hid ''reading an input report'' w of
                  (None, s, out) \<Rightarrow> (False, s, out @ [Msg_lost_to_host])
                | (Some (got, buffer), s, out) \<Rightarrow>
                    (let numbered = (got = InputLength \<and> InputLength = kReportSize + 1);
                         payload = (if numbered then drop 1 buffer else buffer);
                         out = (if numbered \<and> buffer ! 0 \<noteq> 0 then out @ [Msg_report_id (buffer ! 0)] else out)
                     in if \<not> numbered \<and> got \<noteq> kReportSize then
                          (False, s, out @ [Msg_wrong_length got (take got buffer)])
                        else if take kReportSize payload \<noteq> Reply then
                          (False, s, out @ [Msg_altered_to_host Reply (take got buffer)])
                        else (True, s, out @ [Msg_ok_to_host got])))))"

subsection \<open>The command\<close>

record hidp_caps =
  hc_UsagePage :: u16
  hc_Usage :: u16
  hc_InputReportByteLength :: nat
  hc_OutputReportByteLength :: nat
  hc_FeatureReportByteLength :: nat

text \<open>
  A HID interface of the machine, as far as the search asks: its path, whether it opens, vendor
  and product id, preparsed data, capabilities.  The first that is this driver's is taken.
\<close>

record hid_interface =
  hi_path :: "wstr option"
  hi_open :: bool
  hi_attributes :: "(u16 \<times> u16) option"
  hi_preparsed :: bool
  hi_caps :: "hidp_caps option"

definition abk_interface :: "hid_interface \<Rightarrow> (wstr \<times> hidp_caps) option" where
  "abk_interface i =
     (case hi_path i of
        None \<Rightarrow> None
      | Some path \<Rightarrow>
          if \<not> hi_open i then None
          else if hi_attributes i \<noteq> Some (kVendorId, kProductId) \<or> \<not> hi_preparsed i then None
          else (case hi_caps i of
                  None \<Rightarrow> None
                | Some caps \<Rightarrow> if MAX_PATH \<le> length path then None else Some (path, caps)))"

fun find_interface :: "hid_interface list \<Rightarrow> (wstr \<times> hidp_caps) option" where
  "find_interface [] = None"
| "find_interface (i # is) = (case abk_interface i of None \<Rightarrow> find_interface is | Some x \<Rightarrow> Some x)"

definition FindAbkHidPath ::
    "hid_interface list option \<Rightarrow> tool_msg list \<Rightarrow> (wstr \<times> hidp_caps) option \<times> tool_msg list" where
  "FindAbkHidPath interfaces out =
     (case interfaces of
        None \<Rightarrow> (None, out @ [Msg_failed ''SetupDiGetClassDevs(HID)''])
      | Some is \<Rightarrow> (find_interface is, out))"

text \<open>Each shape gets a turn; the reply carries the number of the attempt in its build byte.\<close>

fun try_modes ::
    "'s loop_io \<Rightarrow> nat \<Rightarrow> u8 list \<Rightarrow> (u8 \<times> u32) list \<Rightarrow> 's \<times> tool_msg list \<Rightarrow> bool \<times> 's \<times> tool_msg list" where
  "try_modes L InputLength reply [] w = (False, w)"
| "try_modes L InputLength reply ((attempt, mode) # modes) w =
     (case w of (s, out) \<Rightarrow>
        (case SetReportMode L mode (s, out @ [Msg_submitting mode]) of
           (False, w) \<Rightarrow> (False, w)
         | (True, w) \<Rightarrow>
             (case LoopbackDeviceToHost L InputLength (reply[22 := attempt]) w of
                (True, w) \<Rightarrow> (True, w)
              | (False, w) \<Rightarrow> try_modes L InputLength (reply[22 := attempt]) modes w)))"

definition loopback_legs ::
    "'s loop_io \<Rightarrow> hidp_caps \<Rightarrow> 's \<times> tool_msg list \<Rightarrow> bool \<times> 's \<times> tool_msg list" where
  "loopback_legs L caps w =
     (let request = BuildInitRequest;
          reply = BuildInitReply request
      in case LoopbackHostToDevice L (hc_OutputReportByteLength caps) request w of
           (False, s, out) \<Rightarrow> (False, s, out @ [Msg_host_leg_broken])
         | (True, w) \<Rightarrow>
             (case try_modes L (hc_InputReportByteLength caps) reply
                     [(1, kReportModePlain), (2, kReportModeLeadingId)] w of
                (True, s, out) \<Rightarrow> (True, s, out @ [Msg_both_work])
              | (False, s, out) \<Rightarrow> (False, s, out @ [Msg_neither_shape])))"

text \<open>\<open>control\<close> and \<open>hid\<close>: \<open>None\<close> when the file opens, else the error code.\<close>

definition CommandLoopback ::
    "'s loop_io \<Rightarrow> hid_interface list option \<Rightarrow> nat option \<Rightarrow> nat option \<Rightarrow> 's \<Rightarrow> nat \<times> 's \<times> tool_msg list" where
  "CommandLoopback L interfaces control hid s =
     (case FindAbkHidPath interfaces [] of
        (None, out) \<Rightarrow> (1, s, out @ [Msg_no_hid_device])
      | (Some (path, caps), out) \<Rightarrow>
          (let out = out @ [Msg_hid_device path]
             @ (if hc_UsagePage caps \<noteq> kFidoUsagePage \<or> hc_Usage caps \<noteq> kFidoUsage then [Msg_not_ctap_hid] else [])
             @ (if hc_InputReportByteLength caps \<noteq> kReportSize + 1 \<or> hc_OutputReportByteLength caps \<noteq> kReportSize + 1
                then [Msg_expected_lengths] else [])
           in if hc_OutputReportByteLength caps = 0 \<or> hc_OutputReportByteLength caps > 1 + kReportSize
                \<or> hc_InputReportByteLength caps = 0 \<or> hc_InputReportByteLength caps > 1 + kReportSize then
                (1, s, out @ [Msg_unusable_lengths])
              else
                (case control of
                   Some err \<Rightarrow>
                     (1, s, out @ [if err = ERROR_SHARING_VIOLATION then Msg_open_elsewhere
                                   else Msg_failed ''opening the control device''])
                 | None \<Rightarrow>
                     (case hid of
                        Some err \<Rightarrow> (1, s, out @ [Msg_failed ''opening the HID device''])
                      | None \<Rightarrow>
                          (case loopback_legs L caps (s, out) of
                             (ok, s, out) \<Rightarrow> (if ok then 0 else 1, s, out))))))"

subsection \<open>The command line\<close>

definition IsElevated :: "bool \<Rightarrow> bool option \<Rightarrow> bool" where
  "IsElevated token_opens elevation = (token_opens \<and> elevation = Some True)"

record 's tool_env =
  te_token_opens :: bool
  te_elevation :: "bool option"
  te_install :: install_env
  te_devices :: "devnode list option"
  te_control :: "nat option"
  te_interfaces :: "hid_interface list option"
  te_hid :: "nat option"
  te_io :: "'s loop_io"

text \<open>\<open>argv\<close> comes with the program's name first; \<open>s\<close> is the state the I/O works on.\<close>

definition wmain :: "'s tool_env \<Rightarrow> wstr list \<Rightarrow> 's \<Rightarrow> nat \<times> tool_state \<times> 's" where
  "wmain T argv s =
     (let elevated = IsElevated (te_token_opens T) (te_elevation T);
          refuse = (\<lambda>m. (1, say [m] no_tool_state, s))
      in if length argv < 2 then refuse Msg_usage
         else if wcsicmp_eq (argv ! 1) (wide ''install'') then
           (if length argv < 3 then refuse Msg_usage
            else if \<not> elevated then refuse (Msg_not_elevated ''install'')
            else (case CommandInstall (te_install T) (argv ! 2) no_tool_state of (code, t) \<Rightarrow> (code, t, s)))
         else if wcsicmp_eq (argv ! 1) (wide ''remove'') then
           (if \<not> elevated then refuse (Msg_not_elevated ''remove'')
            else (case CommandRemove (te_devices T) no_tool_state of (code, t) \<Rightarrow> (code, t, s)))
         else if wcsicmp_eq (argv ! 1) (wide ''status'') then
           (case CommandStatus (te_devices T) (te_control T) no_tool_state of (code, t) \<Rightarrow> (code, t, s))
         else if wcsicmp_eq (argv ! 1) (wide ''loopback'') then
           (if \<not> elevated then refuse (Msg_not_elevated ''loopback'')
            else (case CommandLoopback (te_io T) (te_interfaces T) (te_control T) (te_hid T) s of
                    (code, s, out) \<Rightarrow> (code, say out no_tool_state, s)))
         else refuse Msg_usage)"

lemma for_each_status:
  "for_each (Some StatusVisitor) dns n t = (m, t') \<Longrightarrow> ts_removed t' = ts_removed t \<and> ts_created t' = ts_created t"
proof (induction dns arbitrary: n t)
  case (Cons dn dns)
  obtain go t1 where v: "StatusVisitor dn t = (go, t1)" by fastforce
  then have "ts_removed t1 = ts_removed t \<and> ts_created t1 = ts_created t"
    by (auto simp: StatusVisitor_def split: option.splits)
  with Cons v show ?case by (fastforce split: if_splits)
qed simp

lemma status_changes_nothing:
  "ts_removed (snd (CommandStatus dns control t)) = ts_removed t \<and> ts_created (snd (CommandStatus dns control t)) = ts_created t"
  by (cases dns)
    (auto simp: CommandStatus_def ForEachDevice_def split: option.splits prod.splits dest: for_each_status)

text \<open>Without elevation no command creates or removes a node or touches the driver.\<close>

lemma unelevated_changes_nothing:
  assumes "\<not> IsElevated (te_token_opens T) (te_elevation T)" "wmain T argv s = (code, t, s')"
  shows "ts_created t = None \<and> ts_removed t = [] \<and> s' = s"
  using assms status_changes_nothing [of "te_devices T" "te_control T" no_tool_state]
  by (auto simp: wmain_def Let_def no_tool_state_def split: if_splits prod.splits)

subsection \<open>Loopback on the driver\<close>

text \<open>
  The same commands with the driver's model behind the handles.  Left open is the HID stack:
  whether it hands an output report to the driver with its leading report id
  (\<open>hs_output_id\<close>), and what becomes of a submitted packet (\<open>hs_takes\<close>): refused with a status,
  accepted and lost, or read by the host as given.
\<close>

datatype submit_outcome = Rejected ntstatus | Ignored | Read_as "u8 list"

record hid_stack =
  hs_output_id :: bool
  hs_takes :: "u8 list \<Rightarrow> submit_outcome"

record loop_world =
  lw_ctx :: abk_device_context
  lw_control_done :: "u8 list option"
  lw_hid_queue :: "u8 list list"

definition stack_env :: "hid_stack \<Rightarrow> wdf_env" where
  "stack_env H = \<lparr>wd_forward = STATUS_SUCCESS, wd_input_buffer = STATUS_SUCCESS, wd_output_buffer = (\<lambda>_. STATUS_SUCCESS),
     wd_submit = (\<lambda>p. case hs_takes H p of Rejected status \<Rightarrow> status | _ \<Rightarrow> STATUS_SUCCESS)\<rparr>"

text \<open>The packets an accepted write submits: the second shape only when the first was refused.\<close>

definition submitted_packets :: "wdf_env \<Rightarrow> u8 list \<Rightarrow> abk_device_context \<Rightarrow> u8 list list" where
  "submitted_packets F frame c =
     (if \<not> cx_VhfStarted c then []
      else
        (let leads = report_id_leads c; status = wd_submit F (shaped leads frame)
         in shaped leads frame
            # (if status = STATUS_INVALID_BUFFER_SIZE \<or> status = STATUS_INVALID_PARAMETER then [shaped (\<not> leads) frame]
               else [])))"

definition host_reads :: "hid_stack \<Rightarrow> u8 list list \<Rightarrow> u8 list list" where
  "host_reads H packets = concat (map (\<lambda>p. case hs_takes H p of Read_as r \<Rightarrow> [r] | _ \<Rightarrow> []) packets)"

definition read_done :: "completions \<Rightarrow> u8 list option" where
  "read_done cs = (case delivered cs of [] \<Rightarrow> None | bs # _ \<Rightarrow> Some bs)"

text \<open>Both requests of the tool on the control device carry number 0: one is outstanding at a time.\<close>

definition driver_io :: "hid_stack \<Rightarrow> loop_world loop_io" where
  "driver_io H = \<lparr>
     io_event = (\<lambda>s. (True, s)),
     io_read = (\<lambda>h len s. case h of
        Hid \<Rightarrow> (True, s)
      | Control \<Rightarrow>
          (case AbkEvtIoRead (stack_env H) 0 len (lw_ctx s) of (cs, c) \<Rightarrow>
             (list_all (\<lambda>(r, status, bs). NT_SUCCESS status) cs, s\<lparr>lw_ctx := c, lw_control_done := read_done cs\<rparr>))),
     io_wait_read = (\<lambda>h s. case h of
        Hid \<Rightarrow> (case lw_hid_queue s of [] \<Rightarrow> (Wait_timeout, s) | r # rs \<Rightarrow> (Wait_done (Some r), s\<lparr>lw_hid_queue := rs\<rparr>))
      | Control \<Rightarrow> (case lw_control_done s of None \<Rightarrow> (Wait_timeout, s)
          | Some bs \<Rightarrow> (Wait_done (Some bs), s\<lparr>lw_control_done := None\<rparr>))),
     io_cancel = (\<lambda>r s. case r of
        Read_req Control \<Rightarrow> s\<lparr>lw_ctx := (lw_ctx s)\<lparr>cx_ReadQueue := []\<rparr>, lw_control_done := None\<rparr>
      | _ \<Rightarrow> s),
     io_write = (\<lambda>h bytes s. case h of
        Hid \<Rightarrow>
          (case AbkEvtVhfWriteReport (stack_env H) (Some (if hs_output_id H then bytes else drop 1 bytes)) (lw_ctx s) of
             (status, cs, c) \<Rightarrow>
               (if NT_SUCCESS status then Written (length bytes) else Write_failed,
                s\<lparr>lw_ctx := c, lw_control_done := (if read_done cs = None then lw_control_done s else read_done cs)\<rparr>))
      | Control \<Rightarrow>
          (case AbkEvtIoWrite (stack_env H) 0 (length bytes) bytes (lw_ctx s) of
             ((status, n), c) \<Rightarrow>
               (if NT_SUCCESS status then Written n else Write_failed,
                s\<lparr>lw_ctx := c, lw_hid_queue := lw_hid_queue s
                  @ host_reads H (submitted_packets (stack_env H) (written_frame bytes) (lw_ctx s))\<rparr>))),
     io_set_mode = (\<lambda>mode s.
        case AbkEvtIoDeviceControl (stack_env H) STATUS_SUCCESS 0 4 ABK_IOCTL_SET_REPORT_MODE mode (lw_ctx s) of
          ((status, _), c) \<Rightarrow> (NT_SUCCESS status, s\<lparr>lw_ctx := c\<rparr>))\<rparr>"

text \<open>
  A stack with one convention: packets of shape \<open>leads\<close> are read by the host, with the report
  id in front as HIDClass hands them up, packets of the other shape never are.
\<close>

definition one_convention :: "bool \<Rightarrow> hid_stack \<Rightarrow> bool" where
  "one_convention leads H \<longleftrightarrow>
     (\<exists>other\<in>{Ignored, Rejected STATUS_INVALID_BUFFER_SIZE, Rejected STATUS_INVALID_PARAMETER}.
        \<forall>f. length f = ABK_REPORT_SIZE \<longrightarrow>
          hs_takes H (shaped leads f) = Read_as (0 # f) \<and> hs_takes H (shaped (\<not> leads) f) = other)"

text \<open>How the write of a frame goes, and what the host then reads.\<close>

lemma stack_env_simps [simp]:
  "wd_forward (stack_env H) = 0" "wd_input_buffer (stack_env H) = 0" "wd_output_buffer (stack_env H) r = 0"
  "wd_submit (stack_env H) p = (case hs_takes H p of Rejected status \<Rightarrow> status | _ \<Rightarrow> 0)"
  by (simp_all add: stack_env_def STATUS_SUCCESS_def split: submit_outcome.split)

lemma NT_SUCCESS_0 [simp]: "NT_SUCCESS 0"
  by (simp add: NT_SUCCESS_def)

lemma written_frame_exact: "length f = ABK_REPORT_SIZE \<Longrightarrow> written_frame f = f"
  by (simp add: written_frame_def)

text \<open>A frame written while the driver is started reaches the host when the shape is right or refused.\<close>

definition shape_right :: "bool \<Rightarrow> hid_stack \<Rightarrow> u8 list \<Rightarrow> abk_device_context \<Rightarrow> bool" where
  "shape_right leads H f c \<longleftrightarrow> report_id_leads c = leads \<or> hs_takes H (shaped (\<not> leads) f) \<noteq> Ignored"

lemma control_write:
  assumes "one_convention leads H" "length f = ABK_REPORT_SIZE" "cx_VhfStarted (lw_ctx s)"
  obtains s' where "io_write (driver_io H) Control f s = (Written ABK_REPORT_SIZE, s')"
    "lw_hid_queue s' = lw_hid_queue s @ (if shape_right leads H f (lw_ctx s) then [0 # f] else [])"
    "cx_VhfStarted (lw_ctx s')" "cx_ReportMode (lw_ctx s') = cx_ReportMode (lw_ctx s)"
    "report_id_leads (lw_ctx s') = report_id_leads (lw_ctx s)"
proof -
  let ?c = "lw_ctx s"
  have t: "hs_takes H (shaped leads f) = Read_as (0 # f)"
    "hs_takes H (shaped (\<not> leads) f) \<in> {Ignored, Rejected STATUS_INVALID_BUFFER_SIZE, Rejected STATUS_INVALID_PARAMETER}"
    using assms(1,2) unfolding one_convention_def by blast+
  have sub: "fst (submit_frame (stack_env H) f ?c) = 0"
    using t assms(3) by (cases "report_id_leads ?c = leads")
      (auto simp: submit_frame_def Let_def STATUS_INVALID_BUFFER_SIZE_def STATUS_INVALID_PARAMETER_def)
  have pk: "host_reads H (submitted_packets (stack_env H) f ?c) =
      (if shape_right leads H f ?c then [0 # f] else [])"
    using t assms(3) by (cases "report_id_leads ?c = leads")
      (auto simp: submitted_packets_def host_reads_def shape_right_def Let_def STATUS_INVALID_BUFFER_SIZE_def
        STATUS_INVALID_PARAMETER_def)
  obtain n where n: "submit_frame (stack_env H) f ?c = (0, n)" using sub by (metis prod.collapse)
  obtain b r where "ring_insert ABK_REPLY_SLOTS f (cx_Replies ?c) = (b, r)" by fastforce
  with n assms(2,3) have "\<exists>c'. AbkEvtIoWrite (stack_env H) 0 (length f) f ?c = ((0, length f), c')
      \<and> cx_VhfStarted c' \<and> cx_ReportMode c' = cx_ReportMode ?c \<and> report_id_leads c' = report_id_leads ?c"
    by (simp add: AbkEvtIoWrite_def written_frame_exact report_id_leads_def Let_def)
  then obtain c' where w: "AbkEvtIoWrite (stack_env H) 0 (length f) f ?c = ((0, length f), c')"
    "cx_VhfStarted c'" "cx_ReportMode c' = cx_ReportMode ?c" "report_id_leads c' = report_id_leads ?c" by blast
  show ?thesis
    by (rule that [of "s\<lparr>lw_ctx := c', lw_hid_queue := lw_hid_queue s @ (if shape_right leads H f ?c then [0 # f] else [])\<rparr>"])
      (use w pk assms(2) in \<open>simp_all add: driver_io_def written_frame_exact\<close>)
qed

lemma host_frame_exact: "length f = ABK_REPORT_SIZE \<Longrightarrow> host_frame f = f \<and> host_frame (0 # f) = f"
  by (simp add: host_frame_def overwrite_def)

lemma buffers:
  "length f = n \<Longrightarrow> overwrite (Suc 0) f (0 # replicate n (0::u8)) = 0 # f"
  "length f = n \<Longrightarrow> overwrite 0 f (replicate (9 + n) (0::u8)) = f @ replicate 9 0"
  "length f = n \<Longrightarrow> overwrite 0 (0 # f) (replicate (9 + n) (0::u8)) = 0 # f @ replicate 8 0"
  by (simp_all add: overwrite_def)

lemma kReportSize_eq: "kReportSize = ABK_REPORT_SIZE"
  by (simp add: vhid_consts tool_consts)

lemma control_write_state:
  assumes "one_convention leads H" "length f = ABK_REPORT_SIZE" "cx_VhfStarted (lw_ctx s)"
  shows "\<exists>s'. io_write (driver_io H) Control f s = (Written ABK_REPORT_SIZE, s')
    \<and> lw_hid_queue s' = lw_hid_queue s @ (if shape_right leads H f (lw_ctx s) then [0 # f] else [])
    \<and> cx_VhfStarted (lw_ctx s') \<and> report_id_leads (lw_ctx s') = report_id_leads (lw_ctx s)"
  using control_write [OF assms] by metis

lemma driver_io_simps [simp]:
  "io_event (driver_io H) s = (True, s)" "io_read (driver_io H) Hid len s = (True, s)"
  "io_wait_read (driver_io H) Hid s =
     (case lw_hid_queue s of [] \<Rightarrow> (Wait_timeout, s) | r # rs \<Rightarrow> (Wait_done (Some r), s\<lparr>lw_hid_queue := rs\<rparr>))"
  "io_cancel (driver_io H) (Read_req Hid) s = s"
  by (simp_all add: driver_io_def)

lemma device_leg:
  assumes "one_convention leads H" "length f = ABK_REPORT_SIZE" "cx_VhfStarted (lw_ctx s)" "lw_hid_queue s = []"
  shows "\<exists>s' out'. LoopbackDeviceToHost (driver_io H) (Suc ABK_REPORT_SIZE) f (s, out) = (shape_right leads H f (lw_ctx s), s', out')
    \<and> cx_VhfStarted (lw_ctx s') \<and> report_id_leads (lw_ctx s') = report_id_leads (lw_ctx s) \<and> lw_hid_queue s' = []"
proof -
  obtain s1 where w: "io_write (driver_io H) Control f s = (Written ABK_REPORT_SIZE, s1)"
    "lw_hid_queue s1 = (if shape_right leads H f (lw_ctx s) then [0 # f] else [])"
    "cx_VhfStarted (lw_ctx s1)" "report_id_leads (lw_ctx s1) = report_id_leads (lw_ctx s)"
    using control_write_state [OF assms(1-3)] assms(4) by auto
  show ?thesis
    using w assms(2)
    by (cases "shape_right leads H f (lw_ctx s)")
      (simp_all add: LoopbackDeviceToHost_def StartRead_def WriteReport_def FinishRead_def kReportSize_eq buffers
        del: replicate_Suc)
qed

lemma set_mode:
  assumes "mode = kReportModePlain \<or> mode = kReportModeLeadingId"
  shows "io_set_mode (driver_io H) mode s = (True, s\<lparr>lw_ctx := (lw_ctx s)\<lparr>cx_ReportMode := mode,
    cx_Stats := (cx_Stats (lw_ctx s))\<lparr>sta_ReportMode := mode\<rparr>\<rparr>\<rparr>)"
  using assms
  by (auto simp: driver_io_def AbkEvtIoDeviceControl_def tool_consts ABK_REPORT_MODE_LEADING_ID_def STATUS_SUCCESS_def)

lemma control_read:
  assumes "ri_count (cx_Ring (lw_ctx s)) = 0"
  shows "io_read (driver_io H) Control ABK_REPORT_SIZE s =
    (True, s\<lparr>lw_ctx := (lw_ctx s)\<lparr>cx_ReadQueue := cx_ReadQueue (lw_ctx s) @ [0]\<rparr>, lw_control_done := None\<rparr>)"
  using assms by (simp add: driver_io_def AbkEvtIoRead_def ring_take_def read_done_def)

lemma hid_write:
  assumes "length f = ABK_REPORT_SIZE" "ri_count (cx_Ring (lw_ctx s)) = 0" "cx_ReadQueue (lw_ctx s) = [0]"
  shows "\<exists>s'. io_write (driver_io H) Hid (0 # f) s = (Written (Suc ABK_REPORT_SIZE), s')
    \<and> lw_control_done s' = Some f \<and> cx_VhfStarted (lw_ctx s') = cx_VhfStarted (lw_ctx s) \<and> lw_hid_queue s' = lw_hid_queue s"
proof -
  let ?buf = "if hs_output_id H then 0 # f else f"
  have buf: "?buf \<noteq> []" "host_frame ?buf = f" "(if hs_output_id H then 0 # f else drop 1 (0 # f)) = ?buf"
    using host_frame_exact [OF assms(1)] assms(1) by (auto simp: vhid_consts)
  then have "\<exists>c'. AbkEvtVhfWriteReport (stack_env H) (Some ?buf) (lw_ctx s) = (STATUS_SUCCESS, [(0, STATUS_SUCCESS, f)], c')
      \<and> cx_VhfStarted c' = cx_VhfStarted (lw_ctx s)"
    using assms(2,3) by (simp add: AbkEvtVhfWriteReport_def AbkDeliverHostReport_def AbkCompleteReadWithFrame_def Let_def)
  then obtain c' where "AbkEvtVhfWriteReport (stack_env H) (Some ?buf) (lw_ctx s) = (STATUS_SUCCESS, [(0, STATUS_SUCCESS, f)], c')"
      "cx_VhfStarted c' = cx_VhfStarted (lw_ctx s)" by blast
  with buf(3) assms(1) show ?thesis
    by (simp add: driver_io_def read_done_def delivered_def STATUS_SUCCESS_def)
qed

lemma host_leg:
  assumes "length f = ABK_REPORT_SIZE" "ri_count (cx_Ring (lw_ctx s)) = 0" "cx_ReadQueue (lw_ctx s) = []"
  shows "\<exists>s' out'. LoopbackHostToDevice (driver_io H) (Suc ABK_REPORT_SIZE) f (s, out) = (True, s', out')
    \<and> cx_VhfStarted (lw_ctx s') = cx_VhfStarted (lw_ctx s) \<and> lw_hid_queue s' = lw_hid_queue s"
proof -
  let ?s = "s\<lparr>lw_ctx := (lw_ctx s)\<lparr>cx_ReadQueue := cx_ReadQueue (lw_ctx s) @ [0]\<rparr>, lw_control_done := None\<rparr>"
  obtain s1 where w: "io_write (driver_io H) Hid (0 # f) ?s = (Written (Suc ABK_REPORT_SIZE), s1)"
    "lw_control_done s1 = Some f" "cx_VhfStarted (lw_ctx s1) = cx_VhfStarted (lw_ctx s)" "lw_hid_queue s1 = lw_hid_queue s"
    using hid_write [of f ?s H] assms by auto
  then have "io_wait_read (driver_io H) Control s1 = (Wait_done (Some f), s1\<lparr>lw_control_done := None\<rparr>)"
    by (simp add: driver_io_def)
  with w control_read [OF assms(2), of H] assms(1) show ?thesis
    by (simp add: LoopbackHostToDevice_def StartRead_def WriteReport_def FinishRead_def kReportSize_eq buffers)
qed

lemma init_frames: "length BuildInitRequest = ABK_REPORT_SIZE" "length (BuildInitReply BuildInitRequest) = ABK_REPORT_SIZE"
  by (simp_all add: BuildInitReply_def BuildInitRequest_def kReportSize_eq vhid_consts)

lemma report_mode_leads:
  "report_id_leads (c\<lparr>cx_ReportMode := kReportModePlain, cx_Stats := st\<rparr>) = False"
  "report_id_leads (c\<lparr>cx_ReportMode := kReportModeLeadingId, cx_Stats := st\<rparr>) = True"
  by (simp_all add: report_id_leads_def tool_consts ABK_REPORT_MODE_PLAIN_def ABK_REPORT_MODE_LEADING_ID_def)

lemma shape_right_any:
  assumes "one_convention leads H" "length f = ABK_REPORT_SIZE" "length g = ABK_REPORT_SIZE"
    "shape_right leads H f c" "report_id_leads c' = report_id_leads c"
  shows "shape_right leads H g c'"
  using assms unfolding one_convention_def shape_right_def by metis

lemma try_modes_ok:
  assumes "one_convention leads H" "length reply = ABK_REPORT_SIZE" "cx_VhfStarted (lw_ctx s)" "lw_hid_queue s = []"
  shows "\<exists>s' out' f. try_modes (driver_io H) (Suc ABK_REPORT_SIZE) reply
        [(1, kReportModePlain), (2, kReportModeLeadingId)] (s, out) = (True, s', out')
    \<and> cx_VhfStarted (lw_ctx s') \<and> lw_hid_queue s' = [] \<and> length f = ABK_REPORT_SIZE \<and> shape_right leads H f (lw_ctx s')"
proof -
  define plain where "plain = s\<lparr>lw_ctx := (lw_ctx s)\<lparr>cx_ReportMode := kReportModePlain,
    cx_Stats := (cx_Stats (lw_ctx s))\<lparr>sta_ReportMode := kReportModePlain\<rparr>\<rparr>\<rparr>"
  have m1: "io_set_mode (driver_io H) kReportModePlain s = (True, plain)" unfolding plain_def by (simp add: set_mode)
  let ?f = "reply[22 := 1]" and ?g = "(reply[22 := 1])[22 := 2]"
  have len: "length ?f = ABK_REPORT_SIZE" "length ?g = ABK_REPORT_SIZE" using assms(2) by simp_all
  obtain s1 out1 where 1: "LoopbackDeviceToHost (driver_io H) (Suc ABK_REPORT_SIZE) ?f (plain, out @ [Msg_submitting kReportModePlain])
      = (shape_right leads H ?f (lw_ctx plain), s1, out1)"
    "cx_VhfStarted (lw_ctx s1)" "report_id_leads (lw_ctx s1) = report_id_leads (lw_ctx plain)" "lw_hid_queue s1 = []"
    using device_leg [OF assms(1) len(1), of plain] assms(3,4) unfolding plain_def by fastforce
  show ?thesis
  proof (cases "shape_right leads H ?f (lw_ctx plain)")
    case True
    then have "\<exists>f. length f = ABK_REPORT_SIZE \<and> shape_right leads H f (lw_ctx s1)"
      using shape_right_any [OF assms(1) len(1) len(1)] 1(3) len(1) by blast
    with True 1 m1 show ?thesis by (auto simp: SetReportMode_def)
  next
    case False
    then have leads: "leads" by (simp add: shape_right_def plain_def report_mode_leads)
    define lead where "lead = s1\<lparr>lw_ctx := (lw_ctx s1)\<lparr>cx_ReportMode := kReportModeLeadingId,
      cx_Stats := (cx_Stats (lw_ctx s1))\<lparr>sta_ReportMode := kReportModeLeadingId\<rparr>\<rparr>\<rparr>"
    have m2: "io_set_mode (driver_io H) kReportModeLeadingId s1 = (True, lead)" unfolding lead_def by (simp add: set_mode)
    have r: "shape_right leads H ?g (lw_ctx lead)" using leads by (simp add: shape_right_def lead_def report_mode_leads)
    obtain s2 out2 where 2: "LoopbackDeviceToHost (driver_io H) (Suc ABK_REPORT_SIZE) ?g (lead, out1 @ [Msg_submitting kReportModeLeadingId])
        = (True, s2, out2)"
      "cx_VhfStarted (lw_ctx s2)" "report_id_leads (lw_ctx s2) = report_id_leads (lw_ctx lead)" "lw_hid_queue s2 = []"
      using device_leg [OF assms(1) len(2), of lead] 1(2,4) r unfolding lead_def by fastforce
    have "\<exists>f. length f = ABK_REPORT_SIZE \<and> shape_right leads H f (lw_ctx s2)"
      using shape_right_any [OF assms(1) len(2) len(2) r] 2(3) len(2) by blast
    with False 1(1) 2 m1 m2 show ?thesis by (auto simp: SetReportMode_def)
  qed
qed

text \<open>
  C26. Loopback proves what it claims, on a started driver with nothing queued: whichever of the two
  report shapes the HID stack wants, and whether it ignores or refuses the other, the command exits
  with 0, and every frame the agent writes afterwards is read by the host.
\<close>

theorem loopback_passes:
  assumes "one_convention leads H" "cx_VhfStarted (lw_ctx s)" "ri_count (cx_Ring (lw_ctx s)) = 0"
    "cx_ReadQueue (lw_ctx s) = []" "lw_hid_queue s = []"
    "find_interface is = Some (path, caps)"
    "hc_InputReportByteLength caps = kReportSize + 1" "hc_OutputReportByteLength caps = kReportSize + 1"
    "CommandLoopback (driver_io H) (Some is) None None s = (code, s', out)" "length frame = ABK_REPORT_SIZE"
  shows "code = 0 \<and> lw_hid_queue (snd (io_write (driver_io H) Control frame s')) = [0 # frame]"
proof -
  obtain s1 out1 where 1: "\<And>out0. LoopbackHostToDevice (driver_io H) (Suc ABK_REPORT_SIZE) BuildInitRequest (s, out0)
      = (True, s1 out0, out1 out0)" "\<And>out0. cx_VhfStarted (lw_ctx (s1 out0))" "\<And>out0. lw_hid_queue (s1 out0) = []"
    using host_leg [OF init_frames(1) assms(3,4), of H] assms(2,5) by metis
  obtain out0 where c: "CommandLoopback (driver_io H) (Some is) None None s =
      (case loopback_legs (driver_io H) caps (s, out0) of (ok, s, out) \<Rightarrow> (if ok then 0 else 1, s, out))"
    using assms(6,7,8) by (simp add: CommandLoopback_def FindAbkHidPath_def Let_def)
  obtain s2 out2 f where 2: "try_modes (driver_io H) (Suc ABK_REPORT_SIZE) (BuildInitReply BuildInitRequest)
        [(1, kReportModePlain), (2, kReportModeLeadingId)] (s1 out0, out1 out0) = (True, s2, out2)"
    "cx_VhfStarted (lw_ctx s2)" "lw_hid_queue s2 = []" "length f = ABK_REPORT_SIZE" "shape_right leads H f (lw_ctx s2)"
    using try_modes_ok [OF assms(1) init_frames(2) 1(2,3)] by metis
  have "code = 0" "s' = s2"
    using assms(7-9) c 1(1) [of out0] 2(1) by (simp_all add: loopback_legs_def kReportSize_eq)
  moreover have "shape_right leads H frame (lw_ctx s2)"
    using shape_right_any [OF assms(1) 2(4) assms(10) 2(5)] by blast
  ultimately show ?thesis
    using control_write_state [OF assms(1,10) 2(2)] 2(3) by auto
qed

text \<open>A stack that wants the report id first and ignores anything else; the interface of the driver.\<close>

definition sample_stack :: hid_stack where
  "sample_stack = \<lparr>hs_output_id = True, hs_takes = (\<lambda>p. if length p = 65 then Read_as (0 # drop 1 p) else Ignored)\<rparr>"

definition sample_interface :: hid_interface where
  "sample_interface = \<lparr>hi_path = Some (wide ''hid''), hi_open = True, hi_attributes = Some (kVendorId, kProductId),
     hi_preparsed = True, hi_caps = Some \<lparr>hc_UsagePage = 0xF1D0, hc_Usage = 1, hc_InputReportByteLength = 65,
       hc_OutputReportByteLength = 65, hc_FeatureReportByteLength = 0\<rparr>\<rparr>"

definition sample_world :: loop_world where
  "sample_world = \<lparr>lw_ctx = zero_context\<lparr>cx_VhfStarted := True\<rparr>, lw_control_done = None, lw_hid_queue = []\<rparr>"

theorem loopback_passes_witness:
  "fst (CommandLoopback (driver_io sample_stack) (Some [sample_interface]) None None sample_world) = 0"
proof -
  obtain code s out where c: "CommandLoopback (driver_io sample_stack) (Some [sample_interface]) None None sample_world
      = (code, s, out)" by (metis prod_cases3)
  have "code = 0 \<and> lw_hid_queue (snd (io_write (driver_io sample_stack) Control (replicate ABK_REPORT_SIZE 0) s))
      = [0 # replicate ABK_REPORT_SIZE 0]"
    by (rule loopback_passes [OF _ _ _ _ _ _ _ _ c])
      (auto simp: one_convention_def sample_stack_def sample_world_def sample_interface_def zero_context_def zero_ring_def
        abk_interface_def wide_def MAX_PATH_def shaped_def vhid_consts tool_consts)
  with c show ?thesis by simp
qed

text \<open>
  A frame left in the backlog, say of a host that sent one while no agent ran, is what the first
  read gets: the host leg is reported broken although the driver carries every frame.
\<close>

lemma stale_backlog_fails_loopback:
  assumes "0 < ri_count (cx_Ring (lw_ctx s))" "cx_ReadQueue (lw_ctx s) = []" "length f = ABK_REPORT_SIZE"
    "stale = ri_frames (cx_Ring (lw_ctx s)) ! ri_tail (cx_Ring (lw_ctx s))" "length stale = ABK_REPORT_SIZE" "stale \<noteq> f"
  shows "\<exists>s'. LoopbackHostToDevice (driver_io H) (Suc ABK_REPORT_SIZE) f (s, out) =
    (False, s', out @ [Msg_altered_to_device f stale])"
proof -
  let ?s = "s\<lparr>lw_ctx := (lw_ctx s)\<lparr>cx_Ring := ring_drop ABK_RING_SLOTS (cx_Ring (lw_ctx s))\<rparr>, lw_control_done := Some stale\<rparr>"
  let ?buf = "if hs_output_id H then 0 # f else f"
  have r: "io_read (driver_io H) Control ABK_REPORT_SIZE s = (True, ?s)"
    using assms by (simp add: driver_io_def AbkEvtIoRead_def ring_take_def AbkCompleteReadWithFrame_def read_done_def
        delivered_def STATUS_SUCCESS_def)
  have buf: "?buf \<noteq> []" "(if hs_output_id H then 0 # f else drop 1 (0 # f)) = ?buf"
    using assms(3) by (auto simp: vhid_consts)
  obtain dropped r1 where ri: "ring_insert ABK_RING_SLOTS (host_frame ?buf) (cx_Ring (lw_ctx ?s)) = (dropped, r1)" by fastforce
  have "\<exists>c'. AbkEvtVhfWriteReport (stack_env H) (Some ?buf) (lw_ctx ?s) = (STATUS_SUCCESS, [], c')"
    using buf(1) assms(2) ri by (simp add: AbkEvtVhfWriteReport_def AbkDeliverHostReport_def Let_def)
  then obtain c' where w: "AbkEvtVhfWriteReport (stack_env H) (Some ?buf) (lw_ctx ?s) = (STATUS_SUCCESS, [], c')" by blast
  define s1 where "s1 = ?s\<lparr>lw_ctx := c'\<rparr>"
  have "io_write (driver_io H) Hid (0 # f) ?s = (Written (Suc ABK_REPORT_SIZE), s1)"
    using w buf(2) assms(3) unfolding s1_def by (simp add: driver_io_def read_done_def STATUS_SUCCESS_def)
  moreover have "io_wait_read (driver_io H) Control s1 = (Wait_done (Some stale), s1\<lparr>lw_control_done := None\<rparr>)"
    by (simp add: driver_io_def s1_def)
  ultimately show ?thesis
    using r assms(3,5,6)
    by (simp add: LoopbackHostToDevice_def StartRead_def WriteReport_def FinishRead_def kReportSize_eq buffers)
qed

end
