(* ===== verification/Spec2Isabelle.thy ===== *)
theory Spec2Isabelle
  imports Cbor_Safety Cose_Key Store_Invariant Sysfs_Attributes System_Safety Vhid_Loopback
begin

text \<open>
  A verification library for the ABK FIDO key: the Linux kernel driver that makes a phone a
  FIDO2 security key.
\<close>

end
